(* ===== verification/Prelude.thy ===== *)
theory Prelude
  imports Main "HOL-Library.Word"
begin

section \<open>Shared types, crash outcomes and list lemmas\<close>

text \<open>
  The names the other theories share: the fixed-width integers of \<open>common/Define.h\<close> as words,
  the outcome of an operation that may bring the process down (a failed \<open>ASSERT\<close>,
  \<open>std::abort\<close>, an access the language leaves undefined), and generic lemmas on lists,
  bytes and little-endian values.
\<close>

unbundle bit_operations_syntax

named_theorems byte_simps \<open>evaluation of byte lists and their values\<close>

subsection \<open>Fixed-width integers (common/Define.h)\<close>

type_synonym uint8 = "8 word"
type_synonym uint16 = "16 word"
type_synonym uint32 = "32 word"
type_synonym uint64 = "64 word"
type_synonym byte = "8 word"
type_synonym bytes = "8 word list"

subsection \<open>Outcomes\<close>

text \<open>
  \<open>AssertFail\<close> is \<open>ASSERT\<close>, \<open>WPFatal\<close> or \<open>ABORT\<close> of \<open>common/Debugging/Errors.h\<close>, which
  print a message and crash the process; \<open>StdAbort\<close> is \<open>std::abort\<close>; \<open>NullDeref\<close>,
  \<open>OutOfBounds\<close>, \<open>DivByZero\<close> and \<open>DoubleFree\<close> are accesses the language leaves undefined and the model
  counts as a crash; \<open>Thrown\<close> is an exception no caller in the modelled code catches.
\<close>

datatype crash = AssertFail string | StdAbort | NullDeref | OutOfBounds | DivByZero | DoubleFree | Thrown string

datatype 'a outcome = Ret 'a | Crash crash

primrec bind_outcome :: "'a outcome \<Rightarrow> ('a \<Rightarrow> 'b outcome) \<Rightarrow> 'b outcome" where
  "bind_outcome (Ret x) f = f x"
| "bind_outcome (Crash c) f = Crash c"

primrec is_ret :: "'a outcome \<Rightarrow> bool" where
  "is_ret (Ret x) = True"
| "is_ret (Crash c) = False"

definition assert_that :: "bool \<Rightarrow> string \<Rightarrow> unit outcome" where
  "assert_that b msg = (if b then Ret () else Crash (AssertFail msg))"

lemma bind_outcome_Ret [simp]: "bind_outcome m Ret = m"
  by (cases m) simp_all

lemma bind_outcome_assoc:
  "bind_outcome (bind_outcome m f) g = bind_outcome m (\<lambda>x. bind_outcome (f x) g)"
  by (cases m) simp_all

lemma bind_outcome_eq_Ret_iff [simp]:
  "bind_outcome m f = Ret y \<longleftrightarrow> (\<exists>x. m = Ret x \<and> f x = Ret y)"
  by (cases m) simp_all

lemma assert_that_eq_Ret [simp]: "assert_that b msg = Ret u \<longleftrightarrow> b"
  by (simp add: assert_that_def)

lemma is_ret_iff: "is_ret m \<longleftrightarrow> (\<exists>x. m = Ret x)"
  by (cases m) simp_all

subsection \<open>Lists\<close>

text \<open>\<open>std::string::find(c, pos)\<close>: the first position from \<open>pos\<close> on that holds \<open>c\<close>.\<close>

primrec index_of :: "'a \<Rightarrow> 'a list \<Rightarrow> nat option" where
  "index_of c [] = None"
| "index_of c (x # xs) = (if x = c then Some 0 else map_option Suc (index_of c xs))"

definition find_char :: "'a list \<Rightarrow> 'a \<Rightarrow> nat \<Rightarrow> nat option" where
  "find_char s c pos = map_option (\<lambda>i. i + pos) (index_of c (drop pos s))"

lemma index_of_None_iff [simp]: "index_of c xs = None \<longleftrightarrow> c \<notin> set xs"
  by (induction xs) auto

lemma index_of_notin [simp]: "c \<notin> set xs \<Longrightarrow> index_of c xs = None"
  by simp

lemma index_of_SomeD:
  assumes "index_of c xs = Some i"
  shows "i < length xs \<and> xs ! i = c \<and> c \<notin> set (take i xs)"
  using assms by (induction xs arbitrary: i) (auto split: if_splits)

lemma index_of_append_notin: "c \<notin> set xs \<Longrightarrow> index_of c (xs @ c # ys) = Some (length xs)"
  by (induction xs) auto

lemma find_char_bounds:
  assumes "find_char s c pos = Some e"
  shows "pos \<le> e \<and> e < length s"
  using assms by (auto simp: find_char_def dest!: index_of_SomeD)

lemma take_drop_split: "i < length xs \<Longrightarrow> xs = take i xs @ xs ! i # drop (Suc i) xs"
  by (rule id_take_nth_drop)

subsection \<open>Bytes and their values\<close>

text \<open>The value of a byte string read least significant byte first.\<close>

primrec le_value :: "bytes \<Rightarrow> nat" where
  "le_value [] = 0"
| "le_value (b # bs) = unat b + 256 * le_value bs"

text \<open>The \<open>n\<close> least significant bytes of a number, least significant first.\<close>

primrec le_bytes :: "nat \<Rightarrow> nat \<Rightarrow> bytes" where
  "le_bytes 0 x = []"
| "le_bytes (Suc n) x = word_of_nat (x mod 256) # le_bytes n (x div 256)"

lemma length_le_bytes [simp]: "length (le_bytes n x) = n"
  by (induction n arbitrary: x) auto

lemma unat_byte_less: "unat (b :: byte) < 256"
proof -
  have "unat b < 2 ^ LENGTH(8)" by (rule unsigned_less)
  then show ?thesis by simp
qed

lemma byte_digit: "(unat (b :: byte) + 256 * v) mod 256 = unat b" "(unat b + 256 * v) div 256 = v"
  using unat_byte_less [of b] by simp_all

lemma word_of_nat_unat_mod [simp]: "word_of_nat (unat (b :: byte) mod 256) = b"
  using unat_byte_less [of b] by (simp add: mod_less)

lemma unat_word_of_nat_mod256: "unat (word_of_nat (x mod 256) :: byte) = x mod 256"
  by (simp add: unat_of_nat)

lemma le_value_less: "le_value bs < 256 ^ length bs"
proof (induction bs)
  case (Cons b bs)
  have "unat b \<le> 255" using unat_byte_less [of b] by linarith
  moreover have "le_value bs + 1 \<le> 256 ^ length bs" using Cons.IH by simp
  ultimately have "unat b + 256 * le_value bs < 256 * 256 ^ length bs" by linarith
  then show ?case by simp
qed simp

lemma le_value_le_bytes: "x < 256 ^ n \<Longrightarrow> le_value (le_bytes n x) = x"
proof (induction n arbitrary: x)
  case (Suc n)
  then have "x div 256 < 256 ^ n" by (simp add: less_mult_imp_div_less mult.commute)
  with Suc.IH show ?case by (simp add: unat_word_of_nat_mod256)
qed simp

lemma le_bytes_le_value: "le_bytes (length bs) (le_value bs) = bs"
proof (induction bs)
  case (Cons b bs)
  then show ?case using byte_digit [of b "le_value bs"] by simp
qed simp

lemma le_value_append: "le_value (xs @ ys) = le_value xs + 256 ^ length xs * le_value ys"
  by (induction xs) (auto simp: algebra_simps)

lemma le_value_replicate_0 [simp]: "le_value (replicate n 0) = 0"
  by (induction n) auto

lemma le_value_inject:
  assumes "length xs = length ys" and "le_value xs = le_value ys"
  shows "xs = ys"
  using assms by (metis le_bytes_le_value)

definition chars :: "bytes \<Rightarrow> string" where
  "chars bs = map (\<lambda>b. char_of (unat b)) bs"

definition bytes_of :: "string \<Rightarrow> bytes" where
  "bytes_of s = map (\<lambda>c. word_of_nat (of_char c)) s"

text \<open>A string as a C string: up to the first NUL.\<close>

definition c_str :: "string \<Rightarrow> string" where
  "c_str s = takeWhile (\<lambda>ch. ch \<noteq> CHR 0x00) s"

lemma c_str_id: "CHR 0x00 \<notin> set s \<Longrightarrow> c_str s = s"
  by (auto simp: c_str_def takeWhile_eq_all_conv)

lemma length_chars [simp]: "length (chars bs) = length bs"
  by (simp add: chars_def)

lemma length_bytes_of [simp]: "length (bytes_of s) = length s"
  by (simp add: bytes_of_def)

lemma bytes_of_chars [simp]: "bytes_of (chars bs) = bs"
proof -
  have "word_of_nat (of_char (char_of (unat b) :: char)) = b" for b :: byte
    by (simp add: of_char_of)
  then show ?thesis by (simp add: bytes_of_def chars_def o_def)
qed

lemma chars_bytes_of [simp]: "chars (bytes_of s) = s"
proof -
  have "char_of (unat (word_of_nat (of_char c) :: byte)) = c" for c :: char
  proof -
    have "(of_char c :: nat) < 256" using of_char_mod_256 [of c] by (metis mod_less_divisor zero_less_numeral)
    then show ?thesis by (simp add: unat_of_nat)
  qed
  then show ?thesis by (simp add: bytes_of_def chars_def o_def)
qed

end
