(* ===== verification/Text_Util.thy ===== *)
theory Text_Util
  imports Prelude
begin

section \<open>String utilities (common/Utilities, common/Common.cpp)\<close>

text \<open>
  \<open>Tokenize.cpp\<close>, \<open>StringFormat.cpp\<close> (trimming), \<open>Util.cpp\<close> (case-insensitive equality and
  hexadecimal decoding), \<open>StringConvert.h\<close> (strings to and from booleans and integers) and the
  two string functions of \<open>Common.cpp\<close>. A string is a list of characters, each one byte; the
  character classes are those of the classic locale, which the program never changes.
\<close>

subsection \<open>Tokenize\<close>

definition substr :: "'a list \<Rightarrow> nat \<Rightarrow> nat \<Rightarrow> 'a list" where
  "substr s pos n = take n (drop pos s)"

text \<open>
  The loop of \<open>mpool::Tokenize\<close>: \<open>end\<close> is the result of \<open>str.find\<close>, \<open>None\<close> for \<open>npos\<close>.
\<close>

function tokenize_loop ::
  "'a list \<Rightarrow> 'a \<Rightarrow> bool \<Rightarrow> nat \<Rightarrow> nat option \<Rightarrow> 'a list list \<Rightarrow> 'a list list" where
  "tokenize_loop str sep keepEmpty start (Some e) tokens =
     tokenize_loop str sep keepEmpty (e + 1) (find_char str sep (e + 1))
       (if keepEmpty \<or> start < e then tokens @ [substr str start (e - start)] else tokens)"
| "tokenize_loop str sep keepEmpty start None tokens =
     (if keepEmpty \<or> start < length str then tokens @ [drop start str] else tokens)"
  by pat_completeness auto
termination
proof (relation "measure (\<lambda>(str, _, _, _, e, _). case e of None \<Rightarrow> 0 | Some i \<Rightarrow> Suc (length str - i))",
    goal_cases)
  case (2 str sep keepEmpty start e tokens)
  then show ?case
    by (auto split: option.splits dest!: find_char_bounds)
qed simp

definition tokenize :: "'a list \<Rightarrow> 'a \<Rightarrow> bool \<Rightarrow> 'a list list" where
  "tokenize str sep keepEmpty = tokenize_loop str sep keepEmpty 0 (find_char str sep 0) []"

text \<open>Reference: the pieces of a list between the occurrences of a separator, and their join.\<close>

primrec split_on :: "'a \<Rightarrow> 'a list \<Rightarrow> 'a list list" where
  "split_on c [] = [[]]"
| "split_on c (x # xs) =
     (if x = c then [] # split_on c xs
      else (x # hd (split_on c xs)) # tl (split_on c xs))"

fun join_with :: "'a \<Rightarrow> 'a list list \<Rightarrow> 'a list" where
  "join_with c [] = []"
| "join_with c [t] = t"
| "join_with c (t # ts) = t @ c # join_with c ts"

lemma split_on_not_Nil [simp]: "split_on c xs \<noteq> []"
  by (induction xs) auto

lemma split_on_no_sep: "c \<notin> set xs \<Longrightarrow> split_on c xs = [xs]"
  by (induction xs) auto

lemma split_on_sep: "c \<notin> set xs \<Longrightarrow> split_on c (xs @ c # ys) = xs # split_on c ys"
  by (induction xs) auto

lemma split_on_index:
  assumes "index_of c s = Some i"
  shows "split_on c s = take i s # split_on c (drop (Suc i) s)"
  using index_of_SomeD [OF assms] split_on_sep [of c "take i s" "drop (Suc i) s"]
  by (metis id_take_nth_drop)

lemma join_with_Cons: "ts \<noteq> [] \<Longrightarrow> join_with c (t # ts) = t @ c # join_with c ts"
  by (cases ts) auto

lemma join_with_split_on: "join_with c (split_on c xs) = xs"
proof (induction xs)
  case (Cons x xs)
  obtain t ts where s: "split_on c xs = t # ts" by (cases "split_on c xs") auto
  with Cons show ?case by (cases ts) (auto simp: join_with_Cons)
qed simp

lemma split_on_join_with:
  assumes "ts \<noteq> []" and "list_all (\<lambda>t. c \<notin> set t) ts"
  shows "split_on c (join_with c ts) = ts"
  using assms
proof (induction ts)
  case (Cons t ts)
  then show ?case by (cases ts) (auto simp: split_on_no_sep split_on_sep)
qed simp

lemma split_on_pieces: "list_all (\<lambda>t. c \<notin> set t) (split_on c xs)"
proof (induction xs)
  case (Cons x xs)
  then show ?case by (cases "split_on c xs") auto
qed simp

lemma tokenize_loop_split:
  assumes "start \<le> length str"
  shows "tokenize_loop str sep keepEmpty start (find_char str sep start) tokens =
    tokens @ filter (\<lambda>t. keepEmpty \<or> t \<noteq> []) (split_on sep (drop start str))"
  using assms
proof (induction "length str - start" arbitrary: start tokens rule: less_induct)
  case less
  show ?case
  proof (cases "index_of sep (drop start str)")
    case None
    then have "split_on sep (drop start str) = [drop start str]" by (simp add: split_on_no_sep)
    with None less.prems show ?thesis by (auto simp: find_char_def)
  next
    case (Some i)
    then have i: "i < length str - start" by (auto dest: index_of_SomeD)
    have split: "split_on sep (drop start str) =
        take i (drop start str) # split_on sep (drop (i + start + 1) str)"
      using split_on_index [OF Some] by (simp add: add.commute)
    have "tokenize_loop str sep keepEmpty (i + start + 1)
        (find_char str sep (i + start + 1)) ts =
        ts @ filter (\<lambda>t. keepEmpty \<or> t \<noteq> []) (split_on sep (drop (i + start + 1) str))" for ts
      using i less.prems by (intro less.hyps) auto
    with Some split i show ?thesis
      by (auto simp: find_char_def substr_def)
  qed
qed

lemma tokenize_split:
  "tokenize str sep keepEmpty = filter (\<lambda>t. keepEmpty \<or> t \<noteq> []) (split_on sep str)"
  by (simp add: tokenize_def tokenize_loop_split)

subsection \<open>Trim and TrimRightInPlace\<close>

definition is_space :: "char \<Rightarrow> bool" where
  "is_space c \<longleftrightarrow> of_char c \<in> {9 :: nat, 10, 11, 12, 13, 32}"

function trim_first :: "string \<Rightarrow> nat \<Rightarrow> nat" where
  "trim_first s i = (if i < length s \<and> is_space (s ! i) then trim_first s (i + 1) else i)"
  by pat_completeness auto
termination by (relation "measure (\<lambda>(s, i). length s - i)") auto

declare trim_first.simps [simp del]

text \<open>The \<open>do \<dots> while\<close> that moves \<open>last\<close> back; at 0 it has nothing left to step over.\<close>

primrec trim_last :: "string \<Rightarrow> nat \<Rightarrow> nat" where
  "trim_last s 0 = 0"
| "trim_last s (Suc n) = (if is_space (s ! n) then trim_last s n else n)"

definition trim :: "string \<Rightarrow> string" where
  "trim s =
     (let first = trim_first s 0 in
      if first = length s then []
      else (let l = trim_last s (length s) in
        if first \<noteq> 0 \<or> l + 1 \<noteq> length s then substr s first (l + 1 - first) else s))"

primrec trim_right_pos :: "string \<Rightarrow> nat \<Rightarrow> nat" where
  "trim_right_pos s 0 = 0"
| "trim_right_pos s (Suc pos) = (if is_space (s ! pos) then trim_right_pos s pos else Suc pos)"

definition trim_right_in_place :: "string \<Rightarrow> string" where
  "trim_right_in_place s = take (trim_right_pos s (length s)) s"

definition strip_right :: "string \<Rightarrow> string" where
  "strip_right s = rev (dropWhile is_space (rev s))"

definition strip :: "string \<Rightarrow> string" where
  "strip s = strip_right (dropWhile is_space s)"

lemma trim_first_eq:
  "i \<le> length s \<Longrightarrow> trim_first s i = i + length (takeWhile is_space (drop i s))"
proof (induction s i rule: trim_first.induct)
  case (1 s i)
  show ?case
  proof (cases "i < length s")
    case True
    then have "drop i s = s ! i # drop (Suc i) s" by (simp add: Cons_nth_drop_Suc)
    with 1 True show ?thesis by (auto simp: trim_first.simps [of s i])
  next
    case False
    with "1.prems" have "i = length s" by simp
    then show ?thesis by (simp add: trim_first.simps [of s "length s"])
  qed
qed

lemma strip_right_snoc: "strip_right (xs @ [x]) = (if is_space x then strip_right xs else xs @ [x])"
  by (simp add: strip_right_def)

lemma strip_right_Nil [simp]: "strip_right [] = []"
  by (simp add: strip_right_def)

lemma trim_right_pos_eq: "n \<le> length s \<Longrightarrow> trim_right_pos s n = length (strip_right (take n s))"
  by (induction n) (auto simp: take_Suc_conv_app_nth strip_right_snoc)

lemma strip_right_prefix: "\<exists>ws. s = strip_right s @ ws \<and> list_all is_space ws"
proof (induction s rule: rev_induct)
  case (snoc x xs)
  then obtain ws where "xs = strip_right xs @ ws" "list_all is_space ws" by blast
  then show ?case
    by (cases "is_space x") (auto simp: strip_right_snoc intro!: exI [of _ "ws @ [x]"])
qed simp

lemma strip_right_take: "strip_right s = take (length (strip_right s)) s"
  using strip_right_prefix [of s] by (metis append_eq_conv_conj)

lemma trim_last_eq:
  "n \<le> length s \<Longrightarrow> strip_right (take n s) \<noteq> [] \<Longrightarrow>
   Suc (trim_last s n) = length (strip_right (take n s))"
  by (induction n) (auto simp: take_Suc_conv_app_nth strip_right_snoc split: if_splits)

lemma strip_right_append:
  "list_all is_space ws \<Longrightarrow> strip_right (xs @ ws) = strip_right xs"
  by (induction ws rule: rev_induct) (auto simp: strip_right_snoc simp flip: append_assoc)

lemma strip_right_eq_Nil_iff: "strip_right s = [] \<longleftrightarrow> list_all is_space s"
proof -
  have "strip_right s = [] \<longleftrightarrow> (\<forall>c\<in>set s. is_space c)"
    by (simp add: strip_right_def dropWhile_eq_Nil_conv)
  then show ?thesis by (simp add: list_all_iff)
qed

lemma strip_right_append_keep:
  "strip_right ys \<noteq> [] \<Longrightarrow> strip_right (xs @ ys) = xs @ strip_right ys"
proof (induction ys rule: rev_induct)
  case (snoc y ys)
  then show ?case by (auto simp: strip_right_snoc simp flip: append_assoc)
qed simp

lemma trim_eq_strip: "trim s = strip s"
proof (cases "list_all is_space s")
  case True
  then have "length (takeWhile is_space s) = length s" by (simp add: list_all_iff takeWhile_eq_all_conv [THEN iffD2])
  then have "trim_first s 0 = length s" by (simp add: trim_first_eq)
  moreover from True have "dropWhile is_space s = []" by (simp add: list_all_iff)
  ultimately show ?thesis
    by (simp only: trim_def strip_def Let_def strip_right_Nil if_True refl)
next
  case False
  let ?f = "length (takeWhile is_space s)" and ?d = "dropWhile is_space s"
  have f: "trim_first s 0 = ?f" by (simp add: trim_first_eq)
  have s: "s = takeWhile is_space s @ ?d" by simp
  have fd: "drop ?f s = ?d" by (metis s append_eq_conv_conj)
  from False have d: "\<not> list_all is_space ?d"
    by (metis list_all_append list_all_iff s set_takeWhileD)
  have "length s = ?f + length ?d" by (metis s length_append)
  moreover have "?d \<noteq> []" using d by (metis list.pred_inject(1))
  then have "0 < length ?d" by (simp only: length_greater_0_conv not_False_eq_True)
  ultimately have ne: "?f \<noteq> length s" by linarith
  have sr: "strip_right s = takeWhile is_space s @ strip s"
    using strip_right_append_keep [of ?d "takeWhile is_space s"] d
    by (simp add: strip_right_eq_Nil_iff strip_def)
  have nonempty: "strip_right s \<noteq> []" using False by (simp add: strip_right_eq_Nil_iff)
  then have last: "Suc (trim_last s (length s)) = ?f + length (strip s)"
    using trim_last_eq [of "length s" s] sr by simp
  have "strip s = take (length (strip s)) (drop ?f s)"
    using strip_right_take [of ?d] by (simp add: fd strip_def)
  then show ?thesis
    using f ne last by (auto simp: trim_def Let_def substr_def)
qed

lemma trim_right_eq_strip_right: "trim_right_in_place s = strip_right s"
  using strip_right_take [of s] by (simp add: trim_right_in_place_def trim_right_pos_eq)

lemma strip_right_idem [simp]: "strip_right (strip_right s) = strip_right s"
  by (simp add: strip_right_def)

lemma strip_right_last: "strip_right s \<noteq> [] \<Longrightarrow> \<not> is_space (last (strip_right s))"
  by (simp add: strip_right_def last_rev hd_dropWhile)

lemma strip_right_hd: "strip_right s \<noteq> [] \<Longrightarrow> hd (strip_right s) = hd s"
  using strip_right_prefix [of s] by (metis hd_append2)

lemma strip_hd: "strip s \<noteq> [] \<Longrightarrow> \<not> is_space (hd (strip s))"
  by (metis hd_dropWhile strip_def strip_right_Nil strip_right_hd)

lemma strip_idem [simp]: "strip (strip s) = strip s"
proof (cases "strip s")
  case (Cons c cs)
  then have "\<not> is_space c" using strip_hd [of s] by simp
  with Cons have "dropWhile is_space (strip s) = strip s" by simp
  then have "strip (strip s) = strip_right (strip s)" by (simp only: strip_def)
  also have "\<dots> = strip s" by (simp add: strip_def)
  finally show ?thesis .
qed (simp add: strip_def)

subsection \<open>StringEqualI\<close>

definition to_lower :: "char \<Rightarrow> char" where
  "to_lower c =
     (let n = of_char c :: nat in if 65 \<le> n \<and> n \<le> 90 then char_of (n + 32) else c)"

text \<open>\<open>std::equal\<close> on two ranges with the comparison of the lambda.\<close>

fun string_equal_i :: "string \<Rightarrow> string \<Rightarrow> bool" where
  "string_equal_i [] [] = True"
| "string_equal_i (c1 # a) (c2 # b) = (to_lower c1 = to_lower c2 \<and> string_equal_i a b)"
| "string_equal_i _ _ = False"

lemma string_equal_i_map: "string_equal_i a b \<longleftrightarrow> map to_lower a = map to_lower b"
  by (induction a b rule: string_equal_i.induct) auto

subsection \<open>HexStrToByteArray\<close>

definition digit_value :: "char \<Rightarrow> nat option" where
  "digit_value c =
     (let n = of_char c :: nat in
      if 48 \<le> n \<and> n \<le> 57 then Some (n - 48)
      else if 97 \<le> n \<and> n \<le> 122 then Some (n - 87)
      else if 65 \<le> n \<and> n \<le> 90 then Some (n - 55)
      else None)"

definition digit_in_base :: "nat \<Rightarrow> char \<Rightarrow> bool" where
  "digit_in_base base c = (case digit_value c of None \<Rightarrow> False | Some d \<Rightarrow> d < base)"

definition digits_value :: "nat \<Rightarrow> string \<Rightarrow> nat" where
  "digits_value base ds = foldl (\<lambda>v c. base * v + the (digit_value c)) 0 ds"

text \<open>
  \<open>strtoul(s, nullptr, 16)\<close>: white space, an optional sign, an optional \<open>0x\<close> before a digit,
  then the longest run of hexadecimal digits; saturation at the largest value, and negation
  modulo \<open>2 ^ 64\<close> after a minus sign.
\<close>

definition strtoul16 :: "string \<Rightarrow> nat" where
  "strtoul16 s =
     (let s1 = dropWhile is_space s;
          neg = (s1 \<noteq> [] \<and> hd s1 = CHR ''-'');
          s2 = (if s1 \<noteq> [] \<and> (hd s1 = CHR ''-'' \<or> hd s1 = CHR ''+'') then tl s1 else s1);
          s3 = (if 2 < length s2 \<and> s2 ! 0 = CHR ''0'' \<and> to_lower (s2 ! 1) = CHR ''x''
                  \<and> digit_in_base 16 (s2 ! 2) then drop 2 s2 else s2);
          v = digits_value 16 (takeWhile (digit_in_base 16) s3)
      in if 2 ^ 64 \<le> v then 2 ^ 64 - 1
         else if neg then (2 ^ 64 - v) mod 2 ^ 64 else v)"

text \<open>
  The loop over \<open>i\<close> from \<open>init\<close> to \<open>end\<close> in steps of \<open>2 * op\<close>. A step that would leave the
  interval without meeting \<open>end\<close> reads outside the string.
\<close>

function hex_loop :: "string \<Rightarrow> int \<Rightarrow> int \<Rightarrow> int \<Rightarrow> bytes \<Rightarrow> bytes outcome" where
  "hex_loop str i e op out =
     (if i = e then Ret out
      else if (op = 1 \<and> i + 2 \<le> e \<or> op = -1 \<and> e \<le> i - 2) \<and> 0 \<le> i \<and> nat (i + 1) < length str
      then hex_loop str (i + 2 * op) e op
             (out @ [word_of_nat (strtoul16 [str ! nat i, str ! nat (i + 1)])])
      else Crash OutOfBounds)"
  by pat_completeness auto
termination by (relation "measure (\<lambda>(str, i, e, op, out). nat \<bar>e - i\<bar>)") auto

declare hex_loop.simps [simp del]

definition HexStrToByteArray :: "string \<Rightarrow> nat \<Rightarrow> bool \<Rightarrow> bytes outcome" where
  "HexStrToByteArray str outlen reverse =
     (if length str \<noteq> 2 * outlen then Crash (AssertFail ''str.size() == (2 * outlen)'')
      else if reverse then hex_loop str (int (length str) - 2) (-2) (-1) []
      else hex_loop str 0 (int (length str)) 1 [])"

primrec hex_pairs :: "string \<Rightarrow> nat \<Rightarrow> bytes" where
  "hex_pairs str 0 = []"
| "hex_pairs str (Suc n) =
     word_of_nat (strtoul16 [str ! 0, str ! 1]) # hex_pairs (drop 2 str) n"

lemma length_hex_pairs [simp]: "length (hex_pairs str n) = n"
  by (induction n arbitrary: str) auto

lemma hex_pairs_nth:
  "k < n \<Longrightarrow> 2 * n \<le> length str \<Longrightarrow>
   hex_pairs str n ! k = word_of_nat (strtoul16 [str ! (2 * k), str ! (2 * k + 1)])"
proof (induction n arbitrary: str k)
  case (Suc n)
  then show ?case by (cases k) auto
qed simp

lemma hex_pairs_snoc:
  "2 * Suc n \<le> length str \<Longrightarrow> hex_pairs str (Suc n) =
   hex_pairs str n @ [word_of_nat (strtoul16 [str ! (2 * n), str ! (2 * n + 1)])]"
proof (induction n arbitrary: str)
  case (Suc n)
  from Suc.prems Suc.IH [of "drop 2 str"] show ?case
    by (subst hex_pairs.simps(2), subst (2) hex_pairs.simps(2)) simp
qed simp

lemma hex_loop_forward:
  "2 * (k + n) = length str \<Longrightarrow>
   hex_loop str (2 * int k) (int (length str)) 1 out = Ret (out @ hex_pairs (drop (2 * k) str) n)"
proof (induction n arbitrary: k out)
  case 0
  then have "2 * int k = int (length str)" by auto
  then show ?case by (simp add: hex_loop.simps [of str "int (length str)"])
next
  case (Suc n)
  have n1: "nat (2 * int k) = 2 * k" "nat (2 * int k + 1) = 2 * k + 1" by simp_all
  have IH: "hex_loop str (2 * int k + 2) (int (length str)) 1 o2 =
      Ret (o2 @ hex_pairs (drop (2 * Suc k) str) n)" for o2
    using Suc.IH [of "Suc k" o2] Suc.prems by (simp add: algebra_simps)
  have c: "2 * int k \<noteq> int (length str)" "2 * int k + 2 \<le> int (length str)" "2 * k + 1 < length str"
    using Suc.prems by arith+
  show ?case
    by (subst hex_loop.simps) (use c Suc.prems in \<open>simp add: n1 IH\<close>)
qed

lemma hex_loop_backward:
  "2 * n \<le> length str \<Longrightarrow>
   hex_loop str (2 * int n - 2) (-2) (-1) out = Ret (out @ rev (hex_pairs str n))"
proof (induction n arbitrary: out)
  case 0
  then show ?case by (simp add: hex_loop.simps [of str "-2"])
next
  case (Suc n)
  have n1: "nat (2 * int n) = 2 * n" "nat (2 * int n + 1) = 2 * n + 1" by simp_all
  have IH: "hex_loop str (2 * int n - 2) (-2) (-1) o2 = Ret (o2 @ rev (hex_pairs str n))" for o2
    by (rule Suc.IH) (use Suc.prems in simp)
  have e: "2 * int (Suc n) - 2 = 2 * int n" by simp
  have c: "2 * n + 1 < length str" using Suc.prems by arith
  show ?case
    unfolding e hex_pairs_snoc [OF Suc.prems]
    by (subst hex_loop.simps) (use c IH in \<open>simp add: n1\<close>)
qed

lemma HexStrToByteArray_eq:
  "length str = 2 * n \<Longrightarrow>
   HexStrToByteArray str n reverse = Ret ((if reverse then rev else id) (hex_pairs str n))"
  using hex_loop_forward [of 0 n str "[]"] hex_loop_backward [of n str "[]"]
  by (simp add: HexStrToByteArray_def)

subsection \<open>StringConvert: integers\<close>

text \<open>
  An integral type of the code: signedness and width. \<open>from_chars\<close> is \<open>std::from_chars\<close> on
  integers: a minus sign only for signed types, then the longest run of digits of the base;
  it returns the position after what it matched, the error code and the value.
\<close>

record int_type =
  is_signed :: bool
  width :: nat

definition int_min :: "int_type \<Rightarrow> int" where
  "int_min ty = (if is_signed ty then - (2 ^ (width ty - 1)) else 0)"

definition int_max :: "int_type \<Rightarrow> int" where
  "int_max ty = (if is_signed ty then 2 ^ (width ty - 1) - 1 else 2 ^ width ty - 1)"

definition ty_uint8 where "ty_uint8 = \<lparr>is_signed = False, width = 8\<rparr>"
definition ty_int8 where "ty_int8 = \<lparr>is_signed = True, width = 8\<rparr>"
definition ty_uint16 where "ty_uint16 = \<lparr>is_signed = False, width = 16\<rparr>"
definition ty_int16 where "ty_int16 = \<lparr>is_signed = True, width = 16\<rparr>"
definition ty_uint32 where "ty_uint32 = \<lparr>is_signed = False, width = 32\<rparr>"
definition ty_int32 where "ty_int32 = \<lparr>is_signed = True, width = 32\<rparr>"
definition ty_uint64 where "ty_uint64 = \<lparr>is_signed = False, width = 64\<rparr>"
definition ty_int64 where "ty_int64 = \<lparr>is_signed = True, width = 64\<rparr>"

lemmas int_type_defs = int_min_def int_max_def ty_uint8_def ty_int8_def ty_uint16_def ty_int16_def
  ty_uint32_def ty_int32_def ty_uint64_def ty_int64_def

datatype errc = NoErr | InvalidArgument | ResultOutOfRange | ValueTooLarge

definition from_chars :: "int_type \<Rightarrow> string \<Rightarrow> nat \<Rightarrow> nat \<times> errc \<times> int" where
  "from_chars ty s base =
     (let neg = (is_signed ty \<and> s \<noteq> [] \<and> hd s = CHR ''-'');
          ds = takeWhile (digit_in_base base) (if neg then tl s else s);
          v = (if neg then - int (digits_value base ds) else int (digits_value base ds));
          ptr = (if neg then 1 else 0) + length ds
      in if ds = [] then (0, InvalidArgument, 0)
         else if v < int_min ty \<or> int_max ty < v then (ptr, ResultOutOfRange, 0)
         else (ptr, NoErr, v))"

text \<open>\<open>For<T>::FromString\<close> for integral \<open>T\<close>; base 0 looks at the prefix.\<close>

definition from_string_int :: "int_type \<Rightarrow> string \<Rightarrow> nat \<Rightarrow> int option" where
  "from_string_int ty str base =
     (let (base1, str1, stop) =
        (if base = 0 then
           (if string_equal_i (substr str 0 2) ''0x'' then (16, drop 2 str, drop 2 str = [])
            else if string_equal_i (substr str 0 2) ''0b'' then (2, drop 2 str, drop 2 str = [])
            else (10, str, str = []))
         else (base, str, False))
      in if stop then None
         else (case from_chars ty str1 base1 of (ptr, ec, val) \<Rightarrow>
           if ptr = length str1 \<and> ec = NoErr then Some val else None))"

text \<open>Decimal digits, most significant first, as \<open>std::to_chars\<close> writes them.\<close>

definition digit_char :: "nat \<Rightarrow> char" where
  "digit_char d = char_of (d + 48)"

fun dec_digits :: "nat \<Rightarrow> string" where
  "dec_digits n = (if n < 10 then [digit_char n] else dec_digits (n div 10) @ [digit_char (n mod 10)])"

declare dec_digits.simps [simp del]

definition dec_int :: "int \<Rightarrow> string" where
  "dec_int v = (if v < 0 then CHR ''-'' # dec_digits (nat (- v)) else dec_digits (nat v))"

text \<open>
  \<open>std::to_chars(start, end, v)\<close> into a buffer of \<open>n\<close> characters: the position after the last
  character written and the error code; the buffer holds the digits only on success.
\<close>

definition to_chars :: "nat \<Rightarrow> int \<Rightarrow> nat \<times> errc" where
  "to_chars n v = (if length (dec_int v) \<le> n then (length (dec_int v), NoErr) else (n, ValueTooLarge))"

text \<open>
  \<open>For<T>::ToString\<close> as it is written: the test of \<open>res.ec\<close> returns the empty string when the
  conversion succeeded. \<open>buf\<close> is what a failed conversion leaves in the buffer.
\<close>

definition to_string_int :: "string \<Rightarrow> int \<Rightarrow> string" where
  "to_string_int buf v =
     (case to_chars 20 v of (ptr, ec) \<Rightarrow> if ec = NoErr then '''' else take ptr buf)"

lemma char_code_less: "(of_char c :: nat) < 256"
  using of_char_mod_256 [of c] by (metis mod_less_divisor zero_less_numeral)

lemma of_char_digit_char [simp]: "d < 10 \<Longrightarrow> of_char (digit_char d) = d + (48 :: nat)"
  by (simp add: digit_char_def of_char_of)

lemma digit_value_digit_char [simp]: "d < 10 \<Longrightarrow> digit_value (digit_char d) = Some d"
  by (simp add: digit_value_def)

lemma digits_value_snoc: "digits_value b (ds @ [c]) = b * digits_value b ds + the (digit_value c)"
  by (simp add: digits_value_def)

lemma digits_value_dec_digits [simp]: "digits_value 10 (dec_digits n) = n"
proof (induction n rule: dec_digits.induct)
  case (1 n)
  show ?case
  proof (cases "n < 10")
    case True
    then show ?thesis by (simp add: dec_digits.simps [of n] digits_value_def)
  next
    case False
    with 1 have "digits_value 10 (dec_digits (n div 10)) = n div 10" by simp
    with False show ?thesis by (simp add: dec_digits.simps [of n] digits_value_snoc)
  qed
qed

lemma dec_digits_in_base: "list_all (digit_in_base 10) (dec_digits n)"
proof (induction n rule: dec_digits.induct)
  case (1 n)
  show ?case
    by (cases "n < 10") (use 1 in \<open>auto simp: dec_digits.simps [of n] digit_in_base_def\<close>)
qed

lemma dec_digits_not_Nil [simp]: "dec_digits n \<noteq> []"
  by (subst dec_digits.simps) simp

lemma length_dec_digits: "n < 10 ^ Suc k \<Longrightarrow> length (dec_digits n) \<le> Suc k"
proof (induction k arbitrary: n)
  case 0
  then show ?case by (subst dec_digits.simps) simp
next
  case (Suc k)
  show ?case
  proof (cases "n < 10")
    case True
    then show ?thesis by (simp add: dec_digits.simps [of n])
  next
    case False
    from Suc.prems have "n div 10 < 10 ^ Suc k" by (simp add: less_mult_imp_div_less mult.commute)
    with Suc.IH False show ?thesis by (simp add: dec_digits.simps [of n])
  qed
qed

lemma takeWhile_list_all: "list_all P xs \<Longrightarrow> takeWhile P xs = xs"
  by (simp add: list_all_iff takeWhile_eq_all_conv)

lemma minus_not_digit [simp]: "\<not> digit_in_base 10 CHR ''-''"
  by (simp add: digit_in_base_def digit_value_def)

lemma hd_dec_digits: "hd (dec_digits n) \<noteq> CHR ''-''"
proof -
  have "digit_in_base 10 (hd (dec_digits n))"
    using dec_digits_in_base [of n] by (cases "dec_digits n") (auto dest: arg_cong [of _ _ length])
  then show ?thesis by auto
qed

lemma from_chars_dec_int:
  assumes "int_min ty \<le> v" and "v \<le> int_max ty"
  shows "from_chars ty (dec_int v) 10 = (length (dec_int v), NoErr, v)"
proof -
  have "v < 0 \<Longrightarrow> is_signed ty" using assms(1) by (auto simp: int_min_def split: if_splits)
  then show ?thesis
    using assms
    by (auto simp: from_chars_def dec_int_def Let_def takeWhile_list_all [OF dec_digits_in_base]
        hd_dec_digits)
qed

lemma from_string_int_dec_int:
  assumes "int_min ty \<le> v" and "v \<le> int_max ty"
  shows "from_string_int ty (dec_int v) 10 = Some v"
  by (simp add: from_string_int_def from_chars_dec_int [OF assms])

lemma from_string_int_range:
  assumes "from_string_int ty s base = Some v"
  shows "int_min ty \<le> v \<and> v \<le> int_max ty"
  using assms
  by (auto simp: from_string_int_def from_chars_def Let_def split: if_splits prod.splits)

lemma length_dec_int_64:
  assumes "- (2 ^ 63) \<le> v" and "v < 2 ^ 64"
  shows "length (dec_int v) \<le> 20"
proof (cases "v < 0")
  case True
  with assms have "nat (- v) < 10 ^ Suc 18" by simp
  from length_dec_digits [OF this] True show ?thesis by (simp add: dec_int_def)
next
  case False
  with assms have "nat v < 10 ^ Suc 19" by simp
  from length_dec_digits [OF this] False show ?thesis by (simp add: dec_int_def)
qed

subsection \<open>StringConvert: booleans\<close>

definition from_string_bool :: "string \<Rightarrow> int \<Rightarrow> bool option" where
  "from_string_bool str strict =
     (if strict \<noteq> 0 then
        (if str = ''1'' then Some True else if str = ''0'' then Some False else None)
      else if str = ''1'' \<or> string_equal_i str ''y'' \<or> string_equal_i str ''on''
           \<or> string_equal_i str ''yes'' \<or> string_equal_i str ''true'' then Some True
      else if str = ''0'' \<or> string_equal_i str ''n'' \<or> string_equal_i str ''off''
           \<or> string_equal_i str ''no'' \<or> string_equal_i str ''false'' then Some False
      else None)"

definition to_string_bool :: "bool \<Rightarrow> string" where
  "to_string_bool val = (if val then ''1'' else ''0'')"

subsection \<open>Common.cpp\<close>

definition localeNames :: "string list" where
  "localeNames = [''enUS'', ''koKR'', ''frFR'', ''deDE'', ''zhCN'', ''zhTW'', ''esES'', ''esMX'', ''ruRU'']"

primrec locale_scan :: "string \<Rightarrow> nat \<Rightarrow> string list \<Rightarrow> nat" where
  "locale_scan name i [] = 0"
| "locale_scan name i (l # ls) = (if name = l then i else locale_scan name (i + 1) ls)"

definition GetLocaleByName :: "string \<Rightarrow> nat" where
  "GetLocaleByName name = locale_scan name 0 localeNames"

text \<open>\<open>while ((n = str.find(c)) != npos) str.erase(n, 1)\<close>.\<close>

function erase_all :: "char \<Rightarrow> string \<Rightarrow> string" where
  "erase_all c str =
     (case find_char str c 0 of None \<Rightarrow> str | Some n \<Rightarrow> erase_all c (take n str @ drop (n + 1) str))"
  by pat_completeness auto
termination
  by (relation "measure (\<lambda>(c, str). length str)") (auto dest!: find_char_bounds)

declare erase_all.simps [simp del]

definition CleanStringForMysqlQuery :: "string \<Rightarrow> string" where
  "CleanStringForMysqlQuery str =
     erase_all (char_of (39 :: nat)) (erase_all (char_of (34 :: nat)) (erase_all (char_of (92 :: nat)) str))"

lemma erase_all_filter: "erase_all c str = filter (\<lambda>x. x \<noteq> c) str"
proof (induction c str rule: erase_all.induct)
  case (1 c str)
  show ?case
  proof (cases "index_of c str")
    case None
    then have "c \<notin> set str" by simp
    then have "filter (\<lambda>x. x \<noteq> c) str = str" by (auto simp: filter_id_conv)
    with None show ?thesis by (simp add: erase_all.simps [of c str] find_char_def)
  next
    case (Some n)
    then have f: "find_char str c 0 = Some n" by (simp add: find_char_def)
    from index_of_SomeD [OF Some] have "n < length str" "str ! n = c" by auto
    then have "str = take n str @ c # drop (Suc n) str" by (metis id_take_nth_drop)
    then have "filter (\<lambda>x. x \<noteq> c) str = filter (\<lambda>x. x \<noteq> c) (take n str @ c # drop (Suc n) str)"
      by (rule arg_cong)
    with f "1.IH" [OF f] show ?thesis by (subst erase_all.simps) simp
  qed
qed

subsection \<open>Hexadecimal encoding, the reference for decoding\<close>

definition hex_char :: "nat \<Rightarrow> char" where
  "hex_char d = char_of (if d < 10 then d + 48 else d + 55)"

primrec hex_encode :: "bytes \<Rightarrow> string" where
  "hex_encode [] = []"
| "hex_encode (b # bs) = hex_char (unat b div 16) # hex_char (unat b mod 16) # hex_encode bs"

lemma length_hex_encode [simp]: "length (hex_encode bs) = 2 * length bs"
  by (induction bs) auto

lemma hex_char_facts:
  assumes "d < 16"
  shows "digit_value (hex_char d) = Some d" and "\<not> is_space (hex_char d)"
    and "hex_char d \<noteq> CHR ''-''" and "hex_char d \<noteq> CHR ''+''" and "digit_in_base 16 (hex_char d)"
proof -
  have "d = 0 \<or> d = 1 \<or> d = 2 \<or> d = 3 \<or> d = 4 \<or> d = 5 \<or> d = 6 \<or> d = 7 \<or> d = 8 \<or> d = 9 \<or>
      d = 10 \<or> d = 11 \<or> d = 12 \<or> d = 13 \<or> d = 14 \<or> d = 15" using assms by presburger
  then have "digit_value (hex_char d) = Some d \<and> \<not> is_space (hex_char d) \<and>
      hex_char d \<noteq> CHR ''-'' \<and> hex_char d \<noteq> CHR ''+''"
    by (elim disjE; simp add: hex_char_def digit_value_def is_space_def of_char_of char_of_eq_iff)
  then show "digit_value (hex_char d) = Some d" and "\<not> is_space (hex_char d)"
    and "hex_char d \<noteq> CHR ''-''" and "hex_char d \<noteq> CHR ''+''" and "digit_in_base 16 (hex_char d)"
    using assms by (auto simp: digit_in_base_def)
qed

lemma strtoul16_hex_pair:
  assumes "h < 16" and "l < 16"
  shows "strtoul16 [hex_char h, hex_char l] = 16 * h + l"
  using assms
  by (simp add: strtoul16_def Let_def hex_char_facts digits_value_def)

lemma hex_pairs_encode: "hex_pairs (hex_encode bs) (length bs) = bs"
proof (induction bs)
  case (Cons b bs)
  have "unat b div 16 < 16" using unat_byte_less [of b] by simp
  then have "strtoul16 [hex_char (unat b div 16), hex_char (unat b mod 16)] = unat b"
    by (simp add: strtoul16_hex_pair)
  with Cons show ?case by simp
qed simp

lemma string_to_bool_of_bool: "from_string_bool (to_string_bool b) strict = Some b"
  by (cases b) (simp_all add: from_string_bool_def to_string_bool_def to_lower_def)

lemma CleanStringForMysqlQuery_filter:
  "CleanStringForMysqlQuery str =
   filter (\<lambda>c. c \<noteq> char_of (92 :: nat) \<and> c \<noteq> char_of (34 :: nat) \<and> c \<noteq> char_of (39 :: nat)) str"
  by (simp add: CleanStringForMysqlQuery_def erase_all_filter conj_ac)

lemma from_chars_out_of_range:
  assumes "\<not> (int_min ty \<le> v \<and> v \<le> int_max ty)" and "v < 0 \<longrightarrow> is_signed ty"
  shows "from_chars ty (dec_int v) 10 = (length (dec_int v), ResultOutOfRange, 0)"
  using assms
  by (auto simp: from_chars_def dec_int_def Let_def takeWhile_list_all [OF dec_digits_in_base]
      hd_dec_digits)

lemma from_string_int_unsigned_minus:
  assumes "\<not> is_signed ty"
  shows "from_string_int ty (CHR ''-'' # s) 10 = None"
  using assms by (simp add: from_string_int_def from_chars_def)

subsection \<open>Properties\<close>

text \<open>
  Splitting with empty pieces kept loses nothing: joining the pieces with the separator gives
  the input back and no piece contains the separator. Without empty pieces the result is the
  same list with the empty ones left out.
\<close>

theorem tokenize_pieces:
  "join_with sep (tokenize str sep True) = str \<and>
   list_all (\<lambda>t. sep \<notin> set t) (tokenize str sep True) \<and>
   tokenize str sep False = filter (\<lambda>t. t \<noteq> []) (tokenize str sep True)"
  by (simp add: tokenize_split join_with_split_on split_on_pieces)

text \<open>
  Trimming removes white space at both ends and nothing else: the result is the input without
  a prefix and a suffix of white space, it neither begins nor ends with white space, and
  trimming again changes nothing.
\<close>

theorem trim_both_ends:
  "(\<exists>pre post. str = pre @ trim str @ post \<and> list_all is_space pre \<and> list_all is_space post) \<and>
   (trim str = [] \<or> \<not> is_space (hd (trim str)) \<and> \<not> is_space (last (trim str))) \<and>
   trim (trim str) = trim str"
proof (intro conjI)
  obtain ws where "dropWhile is_space str = strip str @ ws" "list_all is_space ws"
    using strip_right_prefix [of "dropWhile is_space str"] by (auto simp: strip_def)
  moreover have "list_all is_space (takeWhile is_space str)"
    by (auto simp: list_all_iff dest: set_takeWhileD)
  ultimately show "\<exists>pre post. str = pre @ trim str @ post \<and> list_all is_space pre \<and> list_all is_space post"
    by (metis takeWhile_dropWhile_id trim_eq_strip)
  show "trim str = [] \<or> \<not> is_space (hd (trim str)) \<and> \<not> is_space (last (trim str))"
    using strip_hd [of str] strip_right_last [of "dropWhile is_space str"]
    by (auto simp: trim_eq_strip strip_def)
  show "trim (trim str) = trim str" by (simp add: trim_eq_strip)
qed

lemma from_string_int_dec_int_eq:
  "from_string_int ty (dec_int v) 10 =
     (if int_min ty \<le> v \<and> v \<le> int_max ty then Some v else None)"
proof (cases "int_min ty \<le> v \<and> v \<le> int_max ty")
  case True
  then show ?thesis by (simp add: from_string_int_dec_int)
next
  case False
  show ?thesis
  proof (cases "v < 0 \<and> \<not> is_signed ty")
    case True
    with False show ?thesis by (simp add: dec_int_def from_string_int_unsigned_minus)
  next
    case signed: False
    with False have "from_chars ty (dec_int v) 10 = (length (dec_int v), ResultOutOfRange, 0)"
      by (intro from_chars_out_of_range) auto
    with False show ?thesis by (simp add: from_string_int_def)
  qed
qed

text \<open>
  Reading the decimal form of a number into an integral type gives the number back when the
  type can hold it, and no value when it cannot: it never wraps or truncates.
\<close>

theorem from_string_int_decimal:
  "from_string_int ty (dec_int v) 10 =
     (if int_min ty \<le> v \<and> v \<le> int_max ty then Some v else None)"
  by (rule from_string_int_dec_int_eq)

text \<open>
  \<open>ToString\<close> of an integer returns the empty string for every value of every integral type
  up to 64 bits: its test of the conversion's error code is the wrong way round, and 20
  characters always suffice, so the branch that keeps the digits is never taken.
\<close>

theorem to_string_int_always_empty:
  assumes "- (2 ^ 63) \<le> v" and "v < 2 ^ 64"
  shows "to_string_int buf v = ''''"
  using length_dec_int_64 [OF assms] by (simp add: to_string_int_def to_chars_def)

theorem to_string_int_always_empty_witness: "to_string_int [] 42 = ''''"
  by (rule to_string_int_always_empty) simp_all

text \<open>
  Decoding a hexadecimal string gives the bytes it encodes, in order or reversed, and a string
  whose length is not twice the buffer's is an assertion failure: nothing is ever read or
  written out of bounds.
\<close>

theorem HexStrToByteArray_decodes:
  "HexStrToByteArray (hex_encode bs) (length bs) reverse = Ret (if reverse then rev bs else bs) \<and>
   (n = length bs \<or> (\<exists>msg. HexStrToByteArray (hex_encode bs) n reverse = Crash (AssertFail msg)))"
  using HexStrToByteArray_eq [of "hex_encode bs" "length bs" reverse]
  by (auto simp: hex_pairs_encode HexStrToByteArray_def)

end
