(* ===== verification/Big_Num.thy ===== *)
theory Big_Num
  imports Text_Util
begin

section \<open>Big numbers and hashes (common/Cryptography/BigNumber, CryptoHash, CryptoRandom)\<close>

text \<open>
  \<open>BigNumber\<close> and \<open>GenericHash\<close> are thin wrappers of OpenSSL. OpenSSL is not part of the
  repository: its functions are the fields of a record that every definition takes as an
  argument, and \<open>ossl_ok\<close> states what the documentation promises of them. A \<open>BIGNUM\<close> is
  represented by the integer it denotes, a digest context by the bytes fed to it.
\<close>

record ossl =
  BN_set_word :: "nat \<Rightarrow> int"
  BN_set_negative :: "int \<Rightarrow> bool \<Rightarrow> int"
  BN_add_word :: "int \<Rightarrow> nat \<Rightarrow> int"
  BN_lshift :: "int \<Rightarrow> nat \<Rightarrow> int"
  BN_bin2bn :: "bytes \<Rightarrow> int"
  BN_lebin2bn :: "bytes \<Rightarrow> int"
  BN_bn2binpad :: "int \<Rightarrow> nat \<Rightarrow> bytes option"
  BN_bn2lebinpad :: "int \<Rightarrow> nat \<Rightarrow> bytes option"
  BN_add :: "int \<Rightarrow> int \<Rightarrow> int"
  BN_sub :: "int \<Rightarrow> int \<Rightarrow> int"
  BN_mul :: "int \<Rightarrow> int \<Rightarrow> int"
  BN_div :: "int \<Rightarrow> int \<Rightarrow> int"
  BN_mod :: "int \<Rightarrow> int \<Rightarrow> int"
  BN_exp :: "int \<Rightarrow> int \<Rightarrow> int"
  BN_mod_exp :: "int \<Rightarrow> int \<Rightarrow> int \<Rightarrow> int"
  BN_cmp :: "int \<Rightarrow> int \<Rightarrow> int"
  BN_num_bytes :: "int \<Rightarrow> nat"
  BN_get_word :: "int \<Rightarrow> nat"
  EVP_sha1 :: "bytes \<Rightarrow> bytes"

text \<open>The documented behaviour the code relies on.\<close>

definition ossl_ok :: "ossl \<Rightarrow> bool" where
  "ossl_ok api \<longleftrightarrow>
     (\<forall>w. BN_set_word api w = int w) \<and>
     (\<forall>a n. BN_set_negative api a n = (if n then - \<bar>a\<bar> else \<bar>a\<bar>)) \<and>
     (\<forall>a w. BN_add_word api a w = a + int w) \<and>
     (\<forall>a n. BN_lshift api a n = a * 2 ^ n) \<and>
     (\<forall>bs. BN_bin2bn api bs = int (le_value (rev bs))) \<and>
     (\<forall>bs. BN_lebin2bn api bs = int (le_value bs)) \<and>
     (\<forall>a n. 0 \<le> a \<longrightarrow> BN_bn2binpad api a n =
        (if a < 256 ^ n then Some (rev (le_bytes n (nat a))) else None)) \<and>
     (\<forall>a n. 0 \<le> a \<longrightarrow> BN_bn2lebinpad api a n =
        (if a < 256 ^ n then Some (le_bytes n (nat a)) else None)) \<and>
     (\<forall>a b. BN_add api a b = a + b) \<and>
     (\<forall>a b. BN_sub api a b = a - b) \<and>
     (\<forall>a b. BN_mul api a b = a * b) \<and>
     (\<forall>a b. 0 \<le> a \<longrightarrow> 0 < b \<longrightarrow> BN_div api a b = a div b) \<and>
     (\<forall>a m. 0 \<le> a \<longrightarrow> 0 < m \<longrightarrow> BN_mod api a m = a mod m) \<and>
     (\<forall>a p. 0 \<le> p \<longrightarrow> BN_exp api a p = a ^ nat p) \<and>
     (\<forall>a p m. 0 \<le> a \<longrightarrow> 0 \<le> p \<longrightarrow> 1 < m \<longrightarrow> BN_mod_exp api a p m = a ^ nat p mod m) \<and>
     (\<forall>a b. BN_cmp api a b = (if a < b then -1 else if a = b then 0 else 1)) \<and>
     (\<forall>a n. \<bar>a\<bar> < 256 ^ n \<longleftrightarrow> BN_num_bytes api a \<le> n) \<and>
     (\<forall>a. BN_get_word api a = (if \<bar>a\<bar> < 2 ^ 64 then nat \<bar>a\<bar> else 2 ^ 64 - 1)) \<and>
     (\<forall>m. length (EVP_sha1 api m) = 20)"

subsection \<open>BigNumber\<close>

definition bn_from_uint32 :: "ossl \<Rightarrow> nat \<Rightarrow> int" where
  "bn_from_uint32 api val = BN_set_word api val"

text \<open>\<open>SetDword(int32)\<close>: the magnitude first, then the sign.\<close>

definition bn_from_int32 :: "ossl \<Rightarrow> int \<Rightarrow> int" where
  "bn_from_int32 api val =
     (let r = BN_set_word api (nat \<bar>val\<bar>) in if val < 0 then BN_set_negative api r True else r)"

definition bn_from_uint64 :: "ossl \<Rightarrow> nat \<Rightarrow> int" where
  "bn_from_uint64 api val =
     BN_add_word api (BN_lshift api (BN_set_word api (val div 2 ^ 32)) 32) (val mod 2 ^ 32)"

definition bn_from_bytes :: "ossl \<Rightarrow> bytes \<Rightarrow> bool \<Rightarrow> int" where
  "bn_from_bytes api bytes littleEndian =
     (if littleEndian then BN_lebin2bn api bytes else BN_bin2bn api bytes)"

definition bn_add :: "ossl \<Rightarrow> int \<Rightarrow> int \<Rightarrow> int" where
  "bn_add api a b = BN_add api a b"

definition bn_sub :: "ossl \<Rightarrow> int \<Rightarrow> int \<Rightarrow> int" where
  "bn_sub api a b = BN_sub api a b"

definition bn_mul :: "ossl \<Rightarrow> int \<Rightarrow> int \<Rightarrow> int" where
  "bn_mul api a b = BN_mul api a b"

definition bn_div :: "ossl \<Rightarrow> int \<Rightarrow> int \<Rightarrow> int" where
  "bn_div api a b = BN_div api a b"

definition bn_mod :: "ossl \<Rightarrow> int \<Rightarrow> int \<Rightarrow> int" where
  "bn_mod api a b = BN_mod api a b"

definition bn_shl :: "ossl \<Rightarrow> int \<Rightarrow> nat \<Rightarrow> int" where
  "bn_shl api a n = BN_lshift api a n"

definition bn_compare :: "ossl \<Rightarrow> int \<Rightarrow> int \<Rightarrow> int" where
  "bn_compare api a b = BN_cmp api a b"

definition bn_le :: "ossl \<Rightarrow> int \<Rightarrow> int \<Rightarrow> bool" where "bn_le api a b \<longleftrightarrow> bn_compare api a b \<le> 0"
definition bn_eq :: "ossl \<Rightarrow> int \<Rightarrow> int \<Rightarrow> bool" where "bn_eq api a b \<longleftrightarrow> bn_compare api a b = 0"
definition bn_ge :: "ossl \<Rightarrow> int \<Rightarrow> int \<Rightarrow> bool" where "bn_ge api a b \<longleftrightarrow> bn_compare api a b \<ge> 0"
definition bn_less :: "ossl \<Rightarrow> int \<Rightarrow> int \<Rightarrow> bool" where "bn_less api a b \<longleftrightarrow> bn_compare api a b < 0"
definition bn_greater :: "ossl \<Rightarrow> int \<Rightarrow> int \<Rightarrow> bool" where "bn_greater api a b \<longleftrightarrow> bn_compare api a b > 0"

definition bn_exp :: "ossl \<Rightarrow> int \<Rightarrow> int \<Rightarrow> int" where
  "bn_exp api a p = BN_exp api a p"

definition bn_mod_exp :: "ossl \<Rightarrow> int \<Rightarrow> int \<Rightarrow> int \<Rightarrow> int" where
  "bn_mod_exp api a p m = BN_mod_exp api a p m"

definition bn_num_bytes :: "ossl \<Rightarrow> int \<Rightarrow> nat" where
  "bn_num_bytes api a = BN_num_bytes api a"

text \<open>\<open>AsDword\<close> truncates the machine word OpenSSL returns.\<close>

definition bn_as_dword :: "ossl \<Rightarrow> int \<Rightarrow> uint32" where
  "bn_as_dword api a = word_of_nat (BN_get_word api a)"

text \<open>\<open>BN_is_zero\<close> and \<open>BN_is_negative\<close> are predicates on the number denoted.\<close>

definition bn_is_zero :: "int \<Rightarrow> bool" where "bn_is_zero a \<longleftrightarrow> a = 0"
definition bn_is_negative :: "int \<Rightarrow> bool" where "bn_is_negative a \<longleftrightarrow> a < 0"

text \<open>
  \<open>GetBytes\<close> (the branch for OpenSSL 1.1 and later): a number that does not fit makes the
  padding function fail, and the assertion ends the process. Both functions return the buffer
  size, so an empty buffer fails the assertion too.
\<close>

definition bn_get_bytes :: "ossl \<Rightarrow> int \<Rightarrow> nat \<Rightarrow> bool \<Rightarrow> bytes outcome" where
  "bn_get_bytes api a bufsize littleEndian =
     (case (if littleEndian then BN_bn2lebinpad api a bufsize else BN_bn2binpad api a bufsize) of
        None \<Rightarrow> Crash (AssertFail ''Buffer Size is too small'')
      | Some bs \<Rightarrow> if 0 < bufsize then Ret bs else Crash (AssertFail ''Buffer Size is too small''))"

definition bn_to_byte_array :: "ossl \<Rightarrow> nat \<Rightarrow> int \<Rightarrow> bytes outcome" where
  "bn_to_byte_array api sz a = bn_get_bytes api a sz True"

definition bn_to_byte_vector :: "ossl \<Rightarrow> int \<Rightarrow> nat \<Rightarrow> bool \<Rightarrow> bytes outcome" where
  "bn_to_byte_vector api a minSize littleEndian =
     bn_get_bytes api a (max (bn_num_bytes api a) minSize) littleEndian"

text \<open>
  The text conversions and random numbers. \<open>hex2bn\<close> is \<open>BN_hex2bn\<close>, which gives the number of digits it
  read and the new value; the string is passed as a C string. \<open>bn2hex\<close> and \<open>bn2dec\<close> give a null pointer
  when they fail, which the string constructor must not be given. \<open>bn_rand\<close> is \<open>BN_rand\<close>, whose
  result is not looked at: the two flags ask for the top bit to be set and the number to be odd.
\<close>

definition bn_set_hex :: "(int \<Rightarrow> string \<Rightarrow> int \<times> int) \<Rightarrow> string \<Rightarrow> int \<Rightarrow> int \<times> bool" where
  "bn_set_hex hex2bn str a = (let (n, r) = hex2bn a (c_str str) in (r, 0 < n))"

definition bn_from_string :: "(int \<Rightarrow> string \<Rightarrow> int \<times> int) \<Rightarrow> string \<Rightarrow> int" where
  "bn_from_string hex2bn v = fst (bn_set_hex hex2bn v 0)"

definition bn_set_rand :: "(int \<Rightarrow> int \<Rightarrow> int \<Rightarrow> int \<Rightarrow> int) \<Rightarrow> int \<Rightarrow> int \<Rightarrow> int" where
  "bn_set_rand bn_rand numbits a = bn_rand a numbits 0 1"

definition bn_as_hex :: "(int \<Rightarrow> string option) \<Rightarrow> int \<Rightarrow> string outcome" where
  "bn_as_hex bn2hex a = (case bn2hex a of None \<Rightarrow> Crash NullDeref | Some ch \<Rightarrow> Ret ch)"

definition bn_as_dec :: "(int \<Rightarrow> string option) \<Rightarrow> int \<Rightarrow> string outcome" where
  "bn_as_dec bn2dec a = (case bn2dec a of None \<Rightarrow> Crash NullDeref | Some ch \<Rightarrow> Ret ch)"

text \<open>
  \<open>GetRandomBytes\<close>: \<open>rand_bytes\<close> is \<open>RAND_bytes\<close>, the result code and what it wrote to the buffer.
\<close>

definition get_random_bytes :: "(nat \<Rightarrow> int \<times> bytes) \<Rightarrow> nat \<Rightarrow> bytes outcome" where
  "get_random_bytes rand_bytes len =
     (case rand_bytes len of (result, buf) \<Rightarrow>
        if result = 1 then Ret buf else Crash (AssertFail ''GetRandomBytes error!''))"

definition random_array :: "(nat \<Rightarrow> int \<times> bytes) \<Rightarrow> nat \<Rightarrow> bytes outcome" where
  "random_array rand_bytes sz = get_random_bytes rand_bytes sz"

text \<open>Facts of a library that behaves as documented.\<close>

lemma ossl_okD:
  assumes "ossl_ok api"
  shows "BN_set_word api w = int w"
    and "BN_set_negative api a n = (if n then - \<bar>a\<bar> else \<bar>a\<bar>)"
    and "BN_add_word api a w = a + int w"
    and "BN_lshift api a k = a * 2 ^ k"
    and "BN_bin2bn api bs = int (le_value (rev bs))"
    and "BN_lebin2bn api bs = int (le_value bs)"
    and "0 \<le> a \<Longrightarrow> BN_bn2lebinpad api a k = (if a < 256 ^ k then Some (le_bytes k (nat a)) else None)"
    and "0 \<le> a \<Longrightarrow> BN_bn2binpad api a k = (if a < 256 ^ k then Some (rev (le_bytes k (nat a))) else None)"
    and "BN_add api a b = a + b"
    and "BN_sub api a b = a - b"
    and "BN_mul api a b = a * b"
    and "0 \<le> a \<Longrightarrow> 0 < m \<Longrightarrow> BN_mod api a m = a mod m"
    and "0 \<le> a \<Longrightarrow> 0 \<le> p \<Longrightarrow> 1 < m \<Longrightarrow> BN_mod_exp api a p m = a ^ nat p mod m"
    and "BN_cmp api a b = (if a < b then -1 else if a = b then 0 else 1)"
    and "\<bar>a\<bar> < 256 ^ k \<longleftrightarrow> BN_num_bytes api a \<le> k"
    and "length (EVP_sha1 api data) = 20"
  using assms by (simp_all add: ossl_ok_def)

lemma bn_from_bytes_True: "ossl_ok api \<Longrightarrow> bn_from_bytes api bs True = int (le_value bs)"
  by (simp add: bn_from_bytes_def ossl_okD(6))

lemma bn_from_int32_val: "ossl_ok api \<Longrightarrow> bn_from_int32 api v = v"
  by (simp add: bn_from_int32_def ossl_okD(1) ossl_okD(2) Let_def)

lemma bn_from_uint64_val: "ossl_ok api \<Longrightarrow> bn_from_uint64 api v = int v"
proof -
  assume ok: "ossl_ok api"
  have "int (v div 2 ^ 32) * 2 ^ 32 + int (v mod 2 ^ 32) = int (v div 2 ^ 32 * 2 ^ 32 + v mod 2 ^ 32)"
    by (simp only: of_nat_add of_nat_mult of_nat_power of_nat_numeral)
  also have "\<dots> = int v" by (simp only: div_mult_mod_eq)
  finally show "bn_from_uint64 api v = int v"
    by (simp only: bn_from_uint64_def ossl_okD(1,3,4) [OF ok])
qed

lemma bn_compare_order:
  assumes "ossl_ok api"
  shows "bn_le api a b \<longleftrightarrow> a \<le> b" and "bn_eq api a b \<longleftrightarrow> a = b" and "bn_ge api a b \<longleftrightarrow> b \<le> a"
    and "bn_less api a b \<longleftrightarrow> a < b" and "bn_greater api a b \<longleftrightarrow> b < a"
  by (auto simp: bn_le_def bn_eq_def bn_ge_def bn_less_def bn_greater_def bn_compare_def
      ossl_okD(14) [OF assms])

lemma bn_to_byte_array_fits:
  assumes "ossl_ok api" and "0 \<le> a" and "a < 256 ^ sz" and "0 < sz"
  shows "bn_to_byte_array api sz a = Ret (le_bytes sz (nat a))"
  using assms by (simp add: bn_to_byte_array_def bn_get_bytes_def ossl_okD(7))

subsection \<open>GenericHash\<close>

text \<open>
  A hash object: the bytes its context has been fed and its digest. \<open>UpdateData\<close> appends,
  \<open>Finalize\<close> writes the digest and asserts its length, and \<open>GetDigestOf\<close> runs a fresh object
  over its arguments in order.
\<close>

record hash_obj =
  ctx :: bytes
  digest :: bytes

definition hash_new :: hash_obj where
  "hash_new = \<lparr>ctx = [], digest = replicate 20 0\<rparr>"

definition hash_update :: "hash_obj \<Rightarrow> bytes \<Rightarrow> hash_obj" where
  "hash_update h data = h\<lparr>ctx := ctx h @ data\<rparr>"

definition hash_finalize :: "ossl \<Rightarrow> hash_obj \<Rightarrow> hash_obj outcome" where
  "hash_finalize api h =
     (let d = EVP_sha1 api (ctx h) in
      if length d \<noteq> 20 then Crash (AssertFail ''length == DIGEST_LENGTH'')
      else Ret (h\<lparr>digest := d\<rparr>))"

definition hash_copy_assign :: "hash_obj \<Rightarrow> hash_obj \<Rightarrow> hash_obj" where
  "hash_copy_assign self right = self\<lparr>ctx := ctx right, digest := digest right\<rparr>"

text \<open>Move assignment leaves the source with a new context and a zero digest.\<close>

definition hash_move_assign :: "hash_obj \<Rightarrow> hash_obj \<Rightarrow> hash_obj \<times> hash_obj" where
  "hash_move_assign self right =
     (self\<lparr>ctx := ctx right, digest := digest right\<rparr>, right\<lparr>ctx := [], digest := replicate 20 0\<rparr>)"

definition sha1_of :: "ossl \<Rightarrow> bytes list \<Rightarrow> bytes outcome" where
  "sha1_of api pack =
     bind_outcome (hash_finalize api (foldl hash_update hash_new pack)) (\<lambda>h. Ret (digest h))"

lemma ctx_foldl_update: "ctx (foldl hash_update h pack) = ctx h @ concat pack"
  by (induction pack arbitrary: h) (simp_all add: hash_update_def)

lemma sha1_of_ok: "ossl_ok api \<Longrightarrow> sha1_of api pack = Ret (EVP_sha1 api (concat pack))"
  by (simp add: sha1_of_def hash_finalize_def Let_def ctx_foldl_update hash_new_def ossl_okD(16))

subsection \<open>A library that behaves as documented\<close>

text \<open>
  A concrete record that satisfies \<open>ossl_ok\<close>, for the witnesses; its hash is a fixed function
  of the right length, since nothing in the proofs depends on which one it is.
\<close>

definition toy_sha1 :: "bytes \<Rightarrow> bytes" where
  "toy_sha1 m = le_bytes 20 (le_value m + 31 * length m)"

definition ossl_ref :: ossl where
  "ossl_ref = \<lparr>
     BN_set_word = int,
     BN_set_negative = (\<lambda>a n. if n then - \<bar>a\<bar> else \<bar>a\<bar>),
     BN_add_word = (\<lambda>a w. a + int w),
     BN_lshift = (\<lambda>a n. a * 2 ^ n),
     BN_bin2bn = (\<lambda>bs. int (le_value (rev bs))),
     BN_lebin2bn = (\<lambda>bs. int (le_value bs)),
     BN_bn2binpad = (\<lambda>a n. if a < 256 ^ n then Some (rev (le_bytes n (nat a))) else None),
     BN_bn2lebinpad = (\<lambda>a n. if a < 256 ^ n then Some (le_bytes n (nat a)) else None),
     BN_add = (+),
     BN_sub = (-),
     BN_mul = (*),
     BN_div = (div),
     BN_mod = (mod),
     BN_exp = (\<lambda>a p. a ^ nat p),
     BN_mod_exp = (\<lambda>a p m. a ^ nat p mod m),
     BN_cmp = (\<lambda>a b. if a < b then -1 else if a = b then 0 else 1),
     BN_num_bytes = (\<lambda>a. LEAST n. \<bar>a\<bar> < 256 ^ n),
     BN_get_word = (\<lambda>a. if \<bar>a\<bar> < 2 ^ 64 then nat \<bar>a\<bar> else 2 ^ 64 - 1),
     EVP_sha1 = toy_sha1\<rparr>"

lemma num_bytes_least: "\<bar>a\<bar> < (256 :: int) ^ n \<longleftrightarrow> (LEAST k. \<bar>a\<bar> < (256 :: int) ^ k) \<le> n"
proof
  assume "\<bar>a\<bar> < 256 ^ n"
  then show "(LEAST k. \<bar>a\<bar> < (256 :: int) ^ k) \<le> n" by (rule Least_le)
next
  assume le: "(LEAST k. \<bar>a\<bar> < (256 :: int) ^ k) \<le> n"
  have "\<bar>a\<bar> < 256 ^ nat (\<bar>a\<bar>)"
  proof -
    have "\<bar>a\<bar> = int (nat \<bar>a\<bar>)" by simp
    also have "\<dots> < int (256 ^ nat \<bar>a\<bar>)"
      by (simp only: of_nat_less_iff) (rule power_gt_expt, simp)
    finally show ?thesis by simp
  qed
  then have "\<bar>a\<bar> < 256 ^ (LEAST k. \<bar>a\<bar> < (256 :: int) ^ k)" by (rule LeastI)
  also have "\<dots> \<le> 256 ^ n" using le by (intro power_increasing) auto
  finally show "\<bar>a\<bar> < 256 ^ n" .
qed

lemma ossl_ref_ok: "ossl_ok ossl_ref"
  unfolding ossl_ok_def ossl_ref_def
  by (simp add: toy_sha1_def) (intro allI num_bytes_least)

end
