(* ===== verification/SRP6.thy ===== *)
theory SRP6
  imports Big_Num
begin

section \<open>The SRP6 server (common/Cryptography/SRP6)\<close>

text \<open>
  \<open>SRP6.h\<close> and \<open>SRP6.cpp\<close>: registration data, the challenge the server sends and the check of
  the client's proof. The random bytes of \<open>GetRandomBytes\<close> are arguments. The last part states
  the client of the protocol, which is another program, as the reference the server must agree
  with.
\<close>

subsection \<open>Group parameters\<close>

definition SRP6_g :: bytes where
  "SRP6_g = [7]"

definition SRP6_N_hex :: string where
  "SRP6_N_hex = ''894B645E89E1535BBDAD5B8B290650530801B18EBFBF5E8FAB3C82872A3E9BB7''"

definition SRP6_N :: bytes where
  "SRP6_N = (case HexStrToByteArray SRP6_N_hex 32 True of Ret bs \<Rightarrow> bs | Crash c \<Rightarrow> [])"

definition bn_g :: "ossl \<Rightarrow> int" where
  "bn_g api = bn_from_bytes api SRP6_g True"

definition bn_N :: "ossl \<Rightarrow> int" where
  "bn_N api = bn_from_bytes api SRP6_N True"

text \<open>The bytes of the modulus, least significant first, and the two values.\<close>

definition N_bytes :: bytes where
  "N_bytes =
     [0xB7, 0x9B, 0x3E, 0x2A, 0x87, 0x82, 0x3C, 0xAB, 0x8F, 0x5E, 0xBF, 0xBF, 0x8E, 0xB1, 0x01, 0x08,
      0x53, 0x50, 0x06, 0x29, 0x8B, 0x5B, 0xAD, 0xBD, 0x5B, 0x53, 0xE1, 0x89, 0x5E, 0x64, 0x4B, 0x89]"

definition N_val :: int where
  "N_val = 0x894B645E89E1535BBDAD5B8B290650530801B18EBFBF5E8FAB3C82872A3E9BB7"

lemma hex_encode_N: "hex_encode (rev N_bytes) = SRP6_N_hex"
  by (simp add: N_bytes_def SRP6_N_hex_def hex_char_def char_of_eq_iff)

lemma length_N_bytes [simp]: "length N_bytes = 32"
  by (simp add: N_bytes_def)

lemma SRP6_N_eq: "SRP6_N = N_bytes"
proof -
  have "length SRP6_N_hex = 2 * 32" by (simp add: SRP6_N_hex_def)
  then have "HexStrToByteArray SRP6_N_hex 32 True = Ret (rev (hex_pairs SRP6_N_hex 32))"
    using HexStrToByteArray_eq [of SRP6_N_hex 32 True] by simp
  moreover have "hex_pairs SRP6_N_hex 32 = rev N_bytes"
    using hex_pairs_encode [of "rev N_bytes"] by (simp only: hex_encode_N length_rev length_N_bytes)
  ultimately show ?thesis by (simp only: SRP6_N_def outcome.case rev_rev_ident)
qed

lemma le_value_N: "int (le_value N_bytes) = N_val"
  by (simp add: N_bytes_def N_val_def)

lemma N_val_bounds: "1 < N_val" "N_val < 256 ^ 32"
  by (simp_all add: N_val_def)

lemma N_mod_bounds: "0 \<le> x mod N_val" "x mod N_val < 256 ^ 32"
  using N_val_bounds pos_mod_bound [of N_val x] pos_mod_sign [of N_val x] by linarith+

lemma bn_N_val: "ossl_ok api \<Longrightarrow> bn_N api = N_val"
  by (simp add: bn_N_def bn_from_bytes_True SRP6_N_eq le_value_N)

lemma bn_g_val: "ossl_ok api \<Longrightarrow> bn_g api = 7"
  by (simp add: bn_g_def bn_from_bytes_True SRP6_g_def)

subsection \<open>Verifier and registration\<close>

definition calculate_verifier :: "ossl \<Rightarrow> string \<Rightarrow> string \<Rightarrow> bytes \<Rightarrow> bytes outcome" where
  "calculate_verifier api username password salt =
     bind_outcome (sha1_of api [bytes_of username, bytes_of '':'', bytes_of password]) (\<lambda>up.
     bind_outcome (sha1_of api [salt, up]) (\<lambda>x.
       bn_to_byte_array api 32 (bn_mod_exp api (bn_g api) (bn_from_bytes api x True) (bn_N api))))"

text \<open>\<open>rnd\<close> is what \<open>GetRandomBytes\<close> writes into the salt.\<close>

definition make_registration_data :: "ossl \<Rightarrow> bytes \<Rightarrow> string \<Rightarrow> string \<Rightarrow> (bytes \<times> bytes) outcome" where
  "make_registration_data api rnd username password =
     bind_outcome (calculate_verifier api username password rnd) (\<lambda>v. Ret (rnd, v))"

definition check_login :: "ossl \<Rightarrow> string \<Rightarrow> string \<Rightarrow> bytes \<Rightarrow> bytes \<Rightarrow> bool outcome" where
  "check_login api username password salt verifier =
     bind_outcome (calculate_verifier api username password salt) (\<lambda>v. Ret (verifier = v))"

definition get_session_verifier :: "ossl \<Rightarrow> bytes \<Rightarrow> bytes \<Rightarrow> bytes \<Rightarrow> bytes outcome" where
  "get_session_verifier api A clientM K = sha1_of api [A, clientM, K]"

subsection \<open>The session key hash\<close>

text \<open>The first loop deals the bytes out alternately; the array has 32 of them.\<close>

primrec interleave_bufs :: "nat \<Rightarrow> bytes \<Rightarrow> bytes \<times> bytes" where
  "interleave_bufs 0 S = ([], [])"
| "interleave_bufs (Suc i) S =
     (let (buf0, buf1) = interleave_bufs i S in (buf0 @ [S ! (2 * i + 0)], buf1 @ [S ! (2 * i + 1)]))"

function skip_zeros :: "bytes \<Rightarrow> nat \<Rightarrow> nat" where
  "skip_zeros S p = (if p < 32 \<and> S ! p = 0 then skip_zeros S (p + 1) else p)"
  by pat_completeness auto
termination by (relation "measure (\<lambda>(S, p). 32 - p)") auto

declare skip_zeros.simps [simp del]

primrec interleave_key :: "nat \<Rightarrow> bytes \<Rightarrow> bytes \<Rightarrow> bytes" where
  "interleave_key 0 h0 h1 = []"
| "interleave_key (Suc i) h0 h1 = interleave_key i h0 h1 @ [h0 ! i, h1 ! i]"

definition SHA1Interleave :: "ossl \<Rightarrow> bytes \<Rightarrow> bytes outcome" where
  "SHA1Interleave api S =
     (let (buf0, buf1) = interleave_bufs 16 S;
          p0 = skip_zeros S 0;
          p1 = (if odd p0 then p0 + 1 else p0);
          p = p1 div 2
      in bind_outcome (sha1_of api [drop p buf0]) (\<lambda>hash0.
         bind_outcome (sha1_of api [drop p buf1]) (\<lambda>hash1.
           Ret (interleave_key 20 hash0 hash1))))"

subsection \<open>The challenge\<close>

record srp6 =
  used :: bool
  srp_I :: bytes
  srp_b :: int
  srp_v :: int
  srp_s :: bytes
  srp_B :: bytes

text \<open>\<open>_B\<close>: the public ephemeral value \<open>(g ^ b + 3 * v) % N\<close>.\<close>

definition srp6_public :: "ossl \<Rightarrow> int \<Rightarrow> int \<Rightarrow> bytes outcome" where
  "srp6_public api b v =
     bn_to_byte_array api 32
       (bn_mod api
         (bn_add api (bn_mod_exp api (bn_g api) b (bn_N api)) (bn_mul api v (bn_from_int32 api 3)))
         (bn_from_bytes api SRP6_N True))"

text \<open>The constructor; \<open>rnd\<close> are the 32 random bytes of the private ephemeral value.\<close>

definition srp6_new :: "ossl \<Rightarrow> bytes \<Rightarrow> string \<Rightarrow> bytes \<Rightarrow> bytes \<Rightarrow> srp6 outcome" where
  "srp6_new api rnd username salt verifier =
     bind_outcome (sha1_of api [bytes_of username]) (\<lambda>I.
       let b = bn_from_bytes api rnd True; v = bn_from_bytes api verifier True in
       bind_outcome (srp6_public api b v) (\<lambda>B.
         Ret \<lparr>used = False, srp_I = I, srp_b = b, srp_v = v, srp_s = salt, srp_B = B\<rparr>))"

subsection \<open>The check of the client's proof\<close>

definition srp6_premaster :: "ossl \<Rightarrow> srp6 \<Rightarrow> int \<Rightarrow> int \<Rightarrow> bytes outcome" where
  "srp6_premaster api srv A u =
     bn_to_byte_array api 32
       (bn_mod_exp api (bn_mul api A (bn_mod_exp api (srp_v srv) u (bn_N api))) (srp_b srv)
         (bn_from_bytes api SRP6_N True))"

definition srp6_proof :: "ossl \<Rightarrow> srp6 \<Rightarrow> bytes \<Rightarrow> bytes \<Rightarrow> bytes outcome" where
  "srp6_proof api srv A K =
     bind_outcome (sha1_of api [SRP6_N]) (\<lambda>NHash.
     bind_outcome (sha1_of api [SRP6_g]) (\<lambda>gHash.
     let NgHash = map2 (XOR) NHash gHash in
     sha1_of api [NgHash, srp_I srv, srp_s srv, A, srp_B srv, K]))"

definition VerifyChallengeResponse ::
  "ossl \<Rightarrow> srp6 \<Rightarrow> bytes \<Rightarrow> bytes \<Rightarrow> (srp6 \<times> bytes option) outcome" where
  "VerifyChallengeResponse api srv A clientM =
     (if used srv then Crash (AssertFail ''used only once'')
      else
        (let srv1 = srv\<lparr>used := True\<rparr>; bnA = bn_from_bytes api A True in
         if bn_is_zero (bn_mod api bnA (bn_N api)) then Ret (srv1, None)
         else
           bind_outcome (sha1_of api [A, srp_B srv]) (\<lambda>uh.
           bind_outcome (srp6_premaster api srv bnA (bn_from_bytes api uh True)) (\<lambda>S.
           bind_outcome (SHA1Interleave api S) (\<lambda>K.
           bind_outcome (srp6_proof api srv A K) (\<lambda>ourM.
             Ret (srv1, if ourM = clientM then Some K else None)))))))"

subsection \<open>Lemmas\<close>

lemma calculate_verifier_ok:
  assumes "ossl_ok api"
  shows "calculate_verifier api username password salt =
    Ret (le_bytes 32 (nat (7 ^ le_value (EVP_sha1 api (salt @
      EVP_sha1 api (bytes_of username @ bytes_of '':'' @ bytes_of password))) mod N_val)))"
proof -
  let ?x = "le_value (EVP_sha1 api (salt @
      EVP_sha1 api (bytes_of username @ bytes_of '':'' @ bytes_of password)))"
  have "bn_mod_exp api (bn_g api) (int ?x) (bn_N api) = 7 ^ ?x mod N_val"
    using assms N_val_bounds by (simp add: bn_mod_exp_def bn_g_val bn_N_val ossl_okD(13))
  then show ?thesis
    using assms N_mod_bounds [of "7 ^ ?x"]
    by (simp add: calculate_verifier_def sha1_of_ok bn_from_bytes_True bn_to_byte_array_fits)
qed

lemma srp6_public_ok:
  assumes "ossl_ok api" and "0 \<le> b" and "0 \<le> v"
  shows "srp6_public api b v = Ret (le_bytes 32 (nat ((7 ^ nat b mod N_val + v * 3) mod N_val)))"
proof -
  let ?s = "7 ^ nat b mod N_val + v * 3"
  have s: "0 \<le> ?s" using assms N_val_bounds by simp
  have "bn_mod_exp api 7 b N_val = 7 ^ nat b mod N_val"
    using assms N_val_bounds by (simp add: bn_mod_exp_def ossl_okD(13))
  then show ?thesis
    using assms s N_val_bounds N_mod_bounds [of ?s]
    by (simp add: srp6_public_def bn_g_val bn_N_val bn_from_bytes_True SRP6_N_eq le_value_N
        bn_from_int32_val bn_add_def bn_mul_def bn_mod_def ossl_okD(9,11,12) bn_to_byte_array_fits)
qed

lemma length_interleave_key [simp]: "length (interleave_key n h0 h1) = 2 * n"
  by (induction n) auto

lemma interleave_bufs_map:
  "interleave_bufs n S = (map (\<lambda>i. S ! (2 * i)) [0..<n], map (\<lambda>i. S ! (2 * i + 1)) [0..<n])"
  by (induction n) auto

definition key_of :: "ossl \<Rightarrow> bytes \<Rightarrow> bytes" where
  "key_of api S =
     (let p = (skip_zeros S 0 + 1) div 2 in
      interleave_key 20 (EVP_sha1 api (drop p (map (\<lambda>i. S ! (2 * i)) [0..<16])))
        (EVP_sha1 api (drop p (map (\<lambda>i. S ! (2 * i + 1)) [0..<16]))))"

lemma SHA1Interleave_ok: "ossl_ok api \<Longrightarrow> SHA1Interleave api S = Ret (key_of api S)"
proof -
  have "(if odd n then n + 1 else n) div 2 = (n + 1) div 2" for n :: nat by presburger
  then show "ossl_ok api \<Longrightarrow> ?thesis"
    by (simp add: SHA1Interleave_def interleave_bufs_map sha1_of_ok key_of_def Let_def
        del: upt_Suc upt_rec_numeral)
qed

lemma length_key_of [simp]: "length (key_of api S) = 40"
  by (simp add: key_of_def Let_def)

lemma skip_zeros_le: "p \<le> 32 \<Longrightarrow> p \<le> skip_zeros S p \<and> skip_zeros S p \<le> 32"
proof (induction S p rule: skip_zeros.induct)
  case (1 S p)
  then show ?case by (cases "p < 32 \<and> S ! p = 0") (auto simp: skip_zeros.simps [of S p])
qed

text \<open>The server's key and proof as values, for a library that behaves as documented.\<close>

definition server_premaster :: "ossl \<Rightarrow> srp6 \<Rightarrow> bytes \<Rightarrow> bytes" where
  "server_premaster api srv A =
     le_bytes 32 (nat ((int (le_value A) *
       (srp_v srv ^ le_value (EVP_sha1 api (A @ srp_B srv)) mod N_val)) ^ nat (srp_b srv) mod N_val))"

definition ng_hash :: "ossl \<Rightarrow> bytes" where
  "ng_hash api = map2 (XOR) (EVP_sha1 api N_bytes) (EVP_sha1 api [7])"

definition server_proof :: "ossl \<Rightarrow> srp6 \<Rightarrow> bytes \<Rightarrow> bytes \<Rightarrow> bytes" where
  "server_proof api srv A K = EVP_sha1 api (ng_hash api @ srp_I srv @ srp_s srv @ A @ srp_B srv @ K)"

lemma srp6_premaster_ok:
  assumes "ossl_ok api" and "0 \<le> srp_b srv" and "0 \<le> srp_v srv"
  shows "srp6_premaster api srv (int (le_value A)) (int (le_value (EVP_sha1 api (A @ srp_B srv)))) =
    Ret (server_premaster api srv A)"
proof -
  let ?u = "le_value (EVP_sha1 api (A @ srp_B srv))"
  let ?s = "int (le_value A) * (srp_v srv ^ ?u mod N_val)"
  have s: "0 \<le> ?s" using N_mod_bounds by simp
  have "BN_mod_exp api (srp_v srv) (int ?u) N_val = srp_v srv ^ ?u mod N_val"
    using assms N_val_bounds by (simp add: ossl_okD(13))
  moreover have "BN_mod_exp api ?s (srp_b srv) N_val = ?s ^ nat (srp_b srv) mod N_val"
    by (rule ossl_okD(13) [OF assms(1) s assms(2) N_val_bounds(1)])
  ultimately show ?thesis
    using assms(1) N_mod_bounds [of "?s ^ nat (srp_b srv)"]
    by (simp add: srp6_premaster_def server_premaster_def bn_mod_exp_def bn_mul_def bn_N_val
        bn_from_bytes_True SRP6_N_eq le_value_N ossl_okD(11) bn_to_byte_array_fits)
qed

lemma srp6_proof_ok: "ossl_ok api \<Longrightarrow> srp6_proof api srv A K = Ret (server_proof api srv A K)"
  by (simp add: srp6_proof_def sha1_of_ok server_proof_def ng_hash_def SRP6_N_eq SRP6_g_def Let_def)

lemma bn_A_zero:
  "ossl_ok api \<Longrightarrow> bn_is_zero (bn_mod api (int (le_value A)) (bn_N api)) \<longleftrightarrow>
   int (le_value A) mod N_val = 0"
  using N_val_bounds by (simp add: bn_is_zero_def bn_mod_def bn_N_val ossl_okD(12))

lemma VerifyChallengeResponse_eq:
  assumes "ossl_ok api" and "0 \<le> srp_b srv" and "0 \<le> srp_v srv"
  shows "VerifyChallengeResponse api srv A clientM =
    (if used srv then Crash (AssertFail ''used only once'')
     else if int (le_value A) mod N_val = 0 then Ret (srv\<lparr>used := True\<rparr>, None)
     else let K = key_of api (server_premaster api srv A) in
       Ret (srv\<lparr>used := True\<rparr>, if server_proof api srv A K = clientM then Some K else None))"
  using srp6_premaster_ok [OF assms]
  by (simp add: VerifyChallengeResponse_def bn_A_zero [OF assms(1)] sha1_of_ok [OF assms(1)]
      srp6_proof_ok [OF assms(1)] SHA1Interleave_ok [OF assms(1)] bn_from_bytes_True [OF assms(1)] Let_def)

lemma srp6_new_ok:
  assumes "ossl_ok api"
  shows "srp6_new api rnd username salt verifier = Ret \<lparr>used = False,
      srp_I = EVP_sha1 api (bytes_of username), srp_b = int (le_value rnd),
      srp_v = int (le_value verifier), srp_s = salt,
      srp_B = le_bytes 32 (nat ((7 ^ le_value rnd mod N_val + int (le_value verifier) * 3) mod N_val))\<rparr>"
  using srp6_public_ok [OF assms, of "int (le_value rnd)" "int (le_value verifier)"]
  by (simp add: srp6_new_def sha1_of_ok [OF assms] bn_from_bytes_True [OF assms] Let_def)

subsection \<open>The client of the protocol\<close>

text \<open>
  What a client that knows the password computes from the salt, the server's public value \<open>B\<close>
  and its own secret exponent \<open>a\<close>.
\<close>

definition client_x :: "ossl \<Rightarrow> string \<Rightarrow> string \<Rightarrow> bytes \<Rightarrow> nat" where
  "client_x api username password salt =
     le_value (EVP_sha1 api (salt @ EVP_sha1 api (bytes_of username @ bytes_of '':'' @ bytes_of password)))"

definition client_A :: "nat \<Rightarrow> bytes" where
  "client_A a = le_bytes 32 (nat (7 ^ a mod N_val))"

definition client_key :: "ossl \<Rightarrow> string \<Rightarrow> string \<Rightarrow> bytes \<Rightarrow> bytes \<Rightarrow> nat \<Rightarrow> bytes" where
  "client_key api username password salt B a =
     (let x = client_x api username password salt;
          u = le_value (EVP_sha1 api (client_A a @ B))
      in key_of api (le_bytes 32 (nat
           ((int (le_value B) - 3 * (7 ^ x mod N_val)) ^ (a + u * x) mod N_val))))"

definition client_proof :: "ossl \<Rightarrow> string \<Rightarrow> string \<Rightarrow> bytes \<Rightarrow> bytes \<Rightarrow> nat \<Rightarrow> bytes" where
  "client_proof api username password salt B a =
     EVP_sha1 api (ng_hash api @ EVP_sha1 api (bytes_of username) @ salt @ client_A a @ B @
       client_key api username password salt B a)"

text \<open>The two sides compute the same secret.\<close>

lemma srp6_secret:
  fixes N g :: int
  assumes "v = g ^ x mod N" and "B = (g ^ b mod N + v * 3) mod N" and "A = g ^ a mod N"
  shows "(A * (v ^ u mod N)) ^ b mod N = (B - 3 * (g ^ x mod N)) ^ (a + u * x) mod N"
proof -
  have "(B - 3 * (g ^ x mod N)) mod N = g ^ b mod N"
    using assms(1,2) by (simp add: mod_diff_left_eq)
  then have "(B - 3 * (g ^ x mod N)) ^ (a + u * x) mod N = (g ^ b) ^ (a + u * x) mod N"
    by (metis power_mod)
  moreover have "A * (v ^ u mod N) mod N = g ^ a * (g ^ x) ^ u mod N"
    by (simp only: assms power_mod mod_mult_eq)
  then have "(A * (v ^ u mod N)) ^ b mod N = (g ^ a * (g ^ x) ^ u) ^ b mod N"
    by (metis power_mod)
  moreover have "(g ^ a * (g ^ x) ^ u) ^ b = (g ^ b) ^ (a + u * x)"
    by (simp only: power_mult [symmetric] power_add [symmetric] ac_simps)
  ultimately show ?thesis by simp
qed

lemma le_value_mod_N: "int (le_value (le_bytes 32 (nat (x mod N_val)))) = x mod N_val"
proof -
  have "nat (x mod N_val) < nat (256 ^ 32)"
    using N_mod_bounds [of x] by (simp only: nat_less_eq_zless)
  then have "nat (x mod N_val) < 256 ^ 32" by (simp add: nat_power_eq)
  then show ?thesis using N_mod_bounds [of x] by (simp only: le_value_le_bytes int_nat_eq if_True)
qed

lemma power_7_mod_N: "7 ^ a mod N_val \<noteq> 0"
proof
  assume "7 ^ a mod N_val = 0"
  then have dvd: "N_val dvd 7 ^ a" by (simp only: mod_eq_0_iff_dvd)
  have "coprime N_val 7"
  proof (rule coprimeI)
    fix c assume "c dvd N_val" and c7: "c dvd (7 :: int)"
    then have "c dvd 2 * N_val mod 7" by (intro dvd_mod dvd_mult) auto
    then show "is_unit c" by (simp add: N_val_def)
  qed
  then have "coprime N_val (7 ^ a)" by simp
  with dvd have "is_unit N_val" by (simp only: coprime_absorb_left)
  then show False by (simp add: N_val_def)
qed

lemma srp6_agree:
  assumes "ossl_ok api"
  shows "\<exists>verifier srv. calculate_verifier api username password salt = Ret verifier \<and>
    srp6_new api rnd username salt verifier = Ret srv \<and>
    VerifyChallengeResponse api srv (client_A a) (client_proof api username password salt (srp_B srv) a) =
      Ret (srv\<lparr>used := True\<rparr>, Some (client_key api username password salt (srp_B srv) a))"
proof -
  let ?x = "client_x api username password salt"
  let ?ver = "le_bytes 32 (nat (7 ^ ?x mod N_val))"
  have ver: "calculate_verifier api username password salt = Ret ?ver"
    by (simp add: calculate_verifier_ok [OF assms] client_x_def)
  define srv where "srv = \<lparr>used = False, srp_I = EVP_sha1 api (bytes_of username),
      srp_b = int (le_value rnd), srp_v = int (le_value ?ver), srp_s = salt,
      srp_B = le_bytes 32 (nat ((7 ^ le_value rnd mod N_val + int (le_value ?ver) * 3) mod N_val))\<rparr>"
  have srv: "srp6_new api rnd username salt ?ver = Ret srv"
    by (simp only: srp6_new_ok [OF assms] srv_def)
  have I: "srp_I srv = EVP_sha1 api (bytes_of username)" and s: "srp_s srv = salt"
    and b: "srp_b srv = int (le_value rnd)" and v: "srp_v srv = 7 ^ ?x mod N_val"
    and B: "srp_B srv = le_bytes 32 (nat ((7 ^ le_value rnd mod N_val + srp_v srv * 3) mod N_val))"
    and unused: "\<not> used srv"
    by (simp_all add: srv_def le_value_mod_N)
  let ?u = "le_value (EVP_sha1 api (client_A a @ srp_B srv))"
  have A: "int (le_value (client_A a)) = 7 ^ a mod N_val"
    by (simp only: client_A_def le_value_mod_N)
  have Bv: "int (le_value (srp_B srv)) = (7 ^ le_value rnd mod N_val + srp_v srv * 3) mod N_val"
    by (subst B) (rule le_value_mod_N)
  have "server_premaster api srv (client_A a) = le_bytes 32 (nat
      ((int (le_value (srp_B srv)) - 3 * (7 ^ ?x mod N_val)) ^ (a + ?u * ?x) mod N_val))"
    unfolding server_premaster_def b nat_int
    by (simp only: srp6_secret [OF v Bv A])
  then have key: "key_of api (server_premaster api srv (client_A a)) =
      client_key api username password salt (srp_B srv) a"
    by (simp only: client_key_def Let_def)
  have "0 \<le> srp_b srv" "0 \<le> srp_v srv" using b v N_mod_bounds by simp_all
  then have "VerifyChallengeResponse api srv (client_A a)
      (client_proof api username password salt (srp_B srv) a) =
      Ret (srv\<lparr>used := True\<rparr>, Some (client_key api username password salt (srp_B srv) a))"
    using unused power_7_mod_N [of a]
    by (simp add: VerifyChallengeResponse_eq [OF assms] A key server_proof_def client_proof_def I s Let_def)
  with ver srv show ?thesis by blast
qed

subsection \<open>Properties\<close>

text \<open>
  C1. Agreement: for a verifier the server computed at registration, any secret of either side
  and any salt, a client that knows the password and follows the protocol is accepted, and the
  key the server returns is the client's key. In particular the client's public value is never
  mistaken for a multiple of the modulus.
\<close>

theorem srp6_agreement:
  assumes "ossl_ok api"
  shows "\<exists>verifier srv. calculate_verifier api username password salt = Ret verifier \<and>
    srp6_new api rnd username salt verifier = Ret srv \<and>
    VerifyChallengeResponse api srv (client_A a) (client_proof api username password salt (srp_B srv) a) =
      Ret (srv\<lparr>used := True\<rparr>, Some (client_key api username password salt (srp_B srv) a))"
  by (rule srp6_agree [OF assms])

theorem srp6_agreement_witness:
  "\<exists>verifier srv. calculate_verifier ossl_ref ''TEST'' ''PW'' [1, 0, 2] = Ret verifier \<and>
    srp6_new ossl_ref [5, 6] ''TEST'' [1, 0, 2] verifier = Ret srv \<and>
    VerifyChallengeResponse ossl_ref srv (client_A 9)
        (client_proof ossl_ref ''TEST'' ''PW'' [1, 0, 2] (srp_B srv) 9) =
      Ret (srv\<lparr>used := True\<rparr>, Some (client_key ossl_ref ''TEST'' ''PW'' [1, 0, 2] (srp_B srv) 9))"
  by (rule srp6_agreement [OF ossl_ref_ok])

text \<open>
  C2. Soundness of acceptance: a session key comes out of the check only for a challenge not used
  before, a public value that is not a multiple of the modulus and the one proof that belongs to
  the key; the key has 40 bytes and the challenge is marked as used.
\<close>

theorem srp6_accepts_only_proof:
  assumes "ossl_ok api" and "srp6_new api rnd username salt verifier = Ret srv0"
    and "srv = srv0\<lparr>used := w\<rparr>"
    and "VerifyChallengeResponse api srv A clientM = Ret (srv', Some K)"
  shows "\<not> w \<and> int (le_value A) mod N_val \<noteq> 0 \<and> clientM = server_proof api srv A K \<and>
    K = key_of api (server_premaster api srv A) \<and> length K = 40 \<and> srv' = srv\<lparr>used := True\<rparr>"
proof -
  have "0 \<le> srp_b srv" "0 \<le> srp_v srv"
    using assms(2,3) by (auto simp: srp6_new_ok [OF assms(1)])
  with assms show ?thesis
    by (auto simp: VerifyChallengeResponse_eq Let_def split: if_splits)
qed

theorem srp6_accepts_only_proof_witness:
  "\<exists>srv K. K = key_of ossl_ref (server_premaster ossl_ref srv (client_A 9)) \<and> length K = 40 \<and>
    client_proof ossl_ref ''TEST'' ''PW'' [1, 0, 2] (srp_B srv) 9 = server_proof ossl_ref srv (client_A 9) K"
proof -
  obtain verifier srv where new: "srp6_new ossl_ref [5, 6] ''TEST'' [1, 0, 2] verifier = Ret srv"
    and ver: "VerifyChallengeResponse ossl_ref srv (client_A 9)
        (client_proof ossl_ref ''TEST'' ''PW'' [1, 0, 2] (srp_B srv) 9) =
      Ret (srv\<lparr>used := True\<rparr>, Some (client_key ossl_ref ''TEST'' ''PW'' [1, 0, 2] (srp_B srv) 9))"
    using srp6_agree [OF ossl_ref_ok] by blast
  have "srv = srv\<lparr>used := used srv\<rparr>" by simp
  from srp6_accepts_only_proof [OF ossl_ref_ok new this ver] show ?thesis by blast
qed

text \<open>
  A challenge answers one proof only: whatever the first check returned, a second check on the
  same challenge is an assertion failure, which takes the process down.
\<close>

theorem srp6_second_check_crashes:
  assumes "VerifyChallengeResponse api srv A clientM = Ret (srv', r)"
  shows "VerifyChallengeResponse api srv' A' clientM' = Crash (AssertFail ''used only once'')"
proof -
  from assms have "used srv'"
    by (auto simp: VerifyChallengeResponse_def Let_def split: if_splits)
  then show ?thesis by (simp add: VerifyChallengeResponse_def)
qed

theorem srp6_second_check_crashes_witness:
  "VerifyChallengeResponse ossl_ref
     \<lparr>used = True, srp_I = [], srp_b = 0, srp_v = 0, srp_s = [], srp_B = []\<rparr> [1] [2] =
   Crash (AssertFail ''used only once'')"
proof (rule srp6_second_check_crashes)
  show "VerifyChallengeResponse ossl_ref
      \<lparr>used = False, srp_I = [], srp_b = 0, srp_v = 0, srp_s = [], srp_B = []\<rparr> [] [] =
    Ret (\<lparr>used = True, srp_I = [], srp_b = 0, srp_v = 0, srp_s = [], srp_B = []\<rparr>, None)"
    by (simp add: VerifyChallengeResponse_eq [OF ossl_ref_ok])
qed

text \<open>
  Registration and login: the verifier made at registration passes the login check with the
  same name and password, and the verifier always has 32 bytes, so it fits its database column.
\<close>

theorem srp6_registration_checks:
  assumes "ossl_ok api"
  shows "\<exists>verifier. make_registration_data api rnd username password = Ret (rnd, verifier) \<and>
    length verifier = 32 \<and> check_login api username password rnd verifier = Ret True"
  by (simp add: make_registration_data_def check_login_def calculate_verifier_ok [OF assms])

theorem srp6_registration_checks_witness:
  "\<exists>verifier. make_registration_data ossl_ref [9, 9] ''TEST'' ''PW'' = Ret ([9, 9], verifier) \<and>
    length verifier = 32 \<and> check_login ossl_ref ''TEST'' ''PW'' [9, 9] verifier = Ret True"
  by (rule srp6_registration_checks [OF ossl_ref_ok])

end
