(* ===== verification/Logon.thy ===== *)
theory Logon
  imports SRP6
begin

section \<open>The logon server (server/apps/logon/types.h, NetWork.h, NetWork.cpp)\<close>

text \<open>
  The packed packet structures of \<open>types.h\<close>, the connection object with its two handlers (logon
  challenge and logon proof) and the listening service. A connection is a record; a handler runs
  to completion on one network thread, so one completed read is one step. The socket, the account
  table and the random source are outside: what a step reads from them is in its arguments, and
  what it does to them is a list of events.
\<close>

subsection \<open>Packets (types.h)\<close>

datatype cmd = AUTH_LOGON_CHALLENGE | AUTH_LOGON_PROOF | AUTH_RECONNECT_CHALLENGE | AUTH_RECONNECT_PROOF
  | REALM_LIST | XFER_INITIATE | XFER_DATA | XFER_ACCEPT | XFER_RESUME | XFER_CANCEL

primrec cmd_code :: "cmd \<Rightarrow> byte" where
  "cmd_code AUTH_LOGON_CHALLENGE = 0x00"
| "cmd_code AUTH_LOGON_PROOF = 0x01"
| "cmd_code AUTH_RECONNECT_CHALLENGE = 0x02"
| "cmd_code AUTH_RECONNECT_PROOF = 0x03"
| "cmd_code REALM_LIST = 0x10"
| "cmd_code XFER_INITIATE = 0x30"
| "cmd_code XFER_DATA = 0x31"
| "cmd_code XFER_ACCEPT = 0x32"
| "cmd_code XFER_RESUME = 0x33"
| "cmd_code XFER_CANCEL = 0x34"

text \<open>The results the handlers send.\<close>

definition WOW_SUCCESS where "WOW_SUCCESS = (0x00 :: byte)"
definition WOW_FAIL_UNKNOWN_ACCOUNT where "WOW_FAIL_UNKNOWN_ACCOUNT = (0x04 :: byte)"
definition WOW_FAIL_VERSION_INVALID where "WOW_FAIL_VERSION_INVALID = (0x09 :: byte)"

definition AUTH_LOGON_CHALLENGE_INITIAL_SIZE where "AUTH_LOGON_CHALLENGE_INITIAL_SIZE = (4 :: nat)"

text \<open>
  The structures are packed, so a field sits at the sum of the sizes before it. The handlers
  reinterpret the receive buffer; reading a structure is reading its fields at their offsets.
\<close>

record challenge_c =
  cc_cmd :: byte
  cc_error :: byte
  cc_size :: uint16
  cc_gamename :: bytes
  cc_version :: bytes
  cc_build :: uint16
  cc_platform :: bytes
  cc_os :: bytes
  cc_country :: bytes
  cc_timezone_bias :: uint32
  cc_ip :: uint32
  cc_I_len :: byte
  cc_I :: bytes

definition sizeof_challenge_c where "sizeof_challenge_c = (35 :: nat)"

definition le16 :: "bytes \<Rightarrow> uint16" where
  "le16 bs = word_of_nat (le_value bs)"

definition le32 :: "bytes \<Rightarrow> uint32" where
  "le32 bs = word_of_nat (le_value bs)"

text \<open>\<open>cc_I\<close> is the buffer from the first character of the name on: the name runs past the struct.\<close>

definition read_challenge_c :: "bytes \<Rightarrow> challenge_c" where
  "read_challenge_c buf = \<lparr>
     cc_cmd = buf ! 0, cc_error = buf ! 1, cc_size = le16 (substr buf 2 2),
     cc_gamename = substr buf 4 4, cc_version = substr buf 8 3, cc_build = le16 (substr buf 11 2),
     cc_platform = substr buf 13 4, cc_os = substr buf 17 4, cc_country = substr buf 21 4,
     cc_timezone_bias = le32 (substr buf 25 4), cc_ip = le32 (substr buf 29 4),
     cc_I_len = buf ! 33, cc_I = drop 34 buf\<rparr>"

record challenge_s =
  cs_cmd :: byte
  cs_unk2 :: byte
  cs_error :: byte
  cs_B :: bytes
  cs_g_len :: byte
  cs_g :: bytes
  cs_N_len :: byte
  cs_N :: bytes
  cs_s :: bytes
  cs_unk3 :: bytes
  cs_securityFlags :: byte

definition encode_challenge_s :: "challenge_s \<Rightarrow> bytes" where
  "encode_challenge_s p =
     [cs_cmd p, cs_unk2 p, cs_error p] @ cs_B p @ [cs_g_len p] @ cs_g p @ [cs_N_len p] @ cs_N p @
     cs_s p @ cs_unk3 p @ [cs_securityFlags p]"

definition sizeof_challenge_s where "sizeof_challenge_s = (1 + 1 + 1 + 32 + 1 + 1 + 1 + 32 + 32 + 16 + 1 :: nat)"

record proof_c =
  pc_cmd :: byte
  pc_A :: bytes
  pc_M1 :: bytes
  pc_crc_hash :: bytes
  pc_num_of_keys :: byte
  pc_security_flags :: byte

definition read_proof_c :: "bytes \<Rightarrow> proof_c" where
  "read_proof_c buf = \<lparr>
     pc_cmd = buf ! 0, pc_A = substr buf 1 32, pc_M1 = substr buf 33 20,
     pc_crc_hash = substr buf 53 20, pc_num_of_keys = buf ! 73, pc_security_flags = buf ! 74\<rparr>"

record proof_s =
  ps_cmd :: byte
  ps_error :: byte
  ps_M2 :: bytes
  ps_accountFlags :: uint32
  ps_surveyId :: uint32
  ps_unkFlags :: uint16

definition encode_proof_s :: "proof_s \<Rightarrow> bytes" where
  "encode_proof_s p =
     [ps_cmd p, ps_error p] @ ps_M2 p @ le_bytes 4 (unat (ps_accountFlags p)) @
     le_bytes 4 (unat (ps_surveyId p)) @ le_bytes 2 (unat (ps_unkFlags p))"

definition sizeof_proof_s where "sizeof_proof_s = (1 + 1 + 20 + 4 + 4 + 2 :: nat)"

subsection \<open>The connection object (NetWork.h)\<close>

text \<open>
  An account row as the challenge query selects it, and what a step does to the outside:
  \<open>Sent\<close> is the range given to \<open>async_write\<close>, \<open>DbUpdate\<close> the five parameters of the update
  statement. \<open>pending_reads\<close> counts the \<open>AsyncRead\<close> calls whose handler has not run: the object
  lives as long as one is outstanding.
\<close>

record account_row =
  row_username :: string
  row_last_ip :: string
  row_salt :: bytes
  row_verifier :: bytes

datatype event = Sent bytes
  | DbUpdate (upd_key: bytes) (upd_ip: string) (upd_locale: string) (upd_os: string) (upd_user: string)
  | SocketClosed

record tcp_conn =
  buff :: bytes
  data_len :: nat
  srp :: "srp6 option"
  sessionKey :: bytes
  conn_os :: string
  windowsHash :: bytes
  macHash :: bytes
  localizationName :: string
  userName :: string
  pending_reads :: nat
  events :: "event list"

definition buff_len where "buff_len = (1024 :: nat)"

text \<open>\<open>mem\<close>: the uninitialised members' contents (receive buffer and the two hash arrays).\<close>

definition conn_new :: "bytes \<Rightarrow> bytes \<Rightarrow> bytes \<Rightarrow> tcp_conn" where
  "conn_new mem wh mh = \<lparr>buff = mem, data_len = 0, srp = None, sessionKey = replicate 40 0,
     conn_os = [], windowsHash = wh, macHash = mh, localizationName = [], userName = [],
     pending_reads = 0, events = []\<rparr>"

definition async_read :: "tcp_conn \<Rightarrow> tcp_conn" where
  "async_read c = c\<lparr>pending_reads := pending_reads c + 1\<rparr>"

definition conn_start :: "tcp_conn \<Rightarrow> tcp_conn" where
  "conn_start c = async_read c"

text \<open>\<open>handle_write\<close> gives the whole buffer to \<open>async_write\<close>, whatever \<open>data_len\<close> is, and reads on.\<close>

definition handle_write :: "tcp_conn \<Rightarrow> tcp_conn" where
  "handle_write c = async_read (c\<lparr>events := events c @ [Sent (take buff_len (buff c))]\<rparr>)"

text \<open>\<open>data_len = n; memcpy(buff, src, data_len)\<close>.\<close>

definition fill_reply :: "bytes \<Rightarrow> nat \<Rightarrow> tcp_conn \<Rightarrow> tcp_conn" where
  "fill_reply src n c = c\<lparr>data_len := n, buff := take n src @ drop n (buff c)\<rparr>"

definition winCheckSumSeed :: string where
  "winCheckSumSeed = ''CDCBBD5188315E6B4D19449D492DBCFAF156A347''"

definition macCheckSumSeed :: string where
  "macCheckSumSeed = ''B706D13FF2F4018839729461E3F8A0E2B5FDC034''"

text \<open>
  \<open>VerifyVersion\<close>: for an operating system other than the two known ones \<open>versionHash\<close> stays a
  null pointer and the comparison with \<open>zeros\<close> dereferences it.
\<close>

definition VerifyVersion ::
  "ossl \<Rightarrow> bytes \<Rightarrow> bytes \<Rightarrow> bool \<Rightarrow> tcp_conn \<Rightarrow> (tcp_conn \<times> bool) outcome" where
  "VerifyVersion api a versionProof isReconnect c =
     (let zeros = replicate 20 0;
          check = (\<lambda>c1 h. bind_outcome (sha1_of api [a, h]) (\<lambda>d. Ret (c1, versionProof = d)))
      in if isReconnect then check c zeros
         else if conn_os c = ''Win'' then
           bind_outcome (HexStrToByteArray winCheckSumSeed 20 False) (\<lambda>h.
             let c1 = c\<lparr>windowsHash := h\<rparr> in if zeros = h then Ret (c1, True) else check c1 h)
         else if conn_os c = ''OSX'' then
           bind_outcome (HexStrToByteArray macCheckSumSeed 20 False) (\<lambda>h.
             let c1 = c\<lparr>macHash := h\<rparr> in if zeros = h then Ret (c1, True) else check c1 h)
         else Crash NullDeref)"

subsection \<open>The challenge handler\<close>

text \<open>\<open>strncpy(dst, src, n)\<close>: up to the first zero byte, then zeros.\<close>

definition strncpy :: "bytes \<Rightarrow> nat \<Rightarrow> bytes" where
  "strncpy src n =
     (let s = takeWhile (\<lambda>b. b \<noteq> 0) (take n src) in s @ replicate (n - length s) 0)"

text \<open>\<open>GetBinarySizeChecked\<close>, as \<open>fields[i].Get<Binary, 32>()\<close> reaches it.\<close>

definition get_binary_32 :: "bytes \<Rightarrow> bytes outcome" where
  "get_binary_32 v =
     (if length v = 32 then Ret v else Crash (AssertFail ''Expected 32-byte binary blob''))"

definition VersionChallenge :: bytes where
  "VersionChallenge = [0xBA, 0xA3, 0x1E, 0x99, 0xA0, 0x0B, 0x21, 0x57,
     0xFC, 0x37, 0x3F, 0xB3, 0x69, 0xCD, 0xD2, 0xF1]"

text \<open>
  What a step reads from outside: the library, the account table, the peer's address, the random
  bytes and the contents of the uninitialised reply structure. \<open>peer_gone\<close>: the socket is no longer
  connected, as after a reset by the peer, and asking it for the address throws.
\<close>

record logon_env =
  lib :: ossl
  select_account :: "string \<Rightarrow> account_row option"
  remote_ip :: string
  peer_gone :: bool
  random32 :: bytes
  stack_reply :: challenge_s

text \<open>
  The successful reply: \<open>N_len\<close> is set to 32 and later overwritten with the security flags, the
  flags themselves are never written, and the copies of \<open>g\<close>, \<open>N\<close>, the salt and the version
  challenge stop at a zero byte.
\<close>

definition challenge_reply :: "challenge_s \<Rightarrow> srp6 \<Rightarrow> challenge_s" where
  "challenge_reply fb0 srv =
     (let fb1 = fb0\<lparr>cs_cmd := cmd_code AUTH_LOGON_CHALLENGE, cs_unk2 := 0, cs_error := WOW_SUCCESS,
            cs_B := take 32 (srp_B srv), cs_g_len := 1, cs_g := strncpy SRP6_g 1, cs_N_len := 32,
            cs_N := strncpy SRP6_N 32, cs_s := strncpy (srp_s srv) 32,
            cs_unk3 := strncpy VersionChallenge 16\<rparr>
      in fb1\<lparr>cs_N_len := 0\<rparr>)"

definition size_matches :: "challenge_c \<Rightarrow> bool" where
  "size_matches p \<longleftrightarrow>
     (ucast (cc_size p) :: uint64) - (of_nat sizeof_challenge_c - of_nat AUTH_LOGON_CHALLENGE_INITIAL_SIZE - 1)
     = ucast (cc_I_len p)"

text \<open>The handler up to its \<open>break\<close>; the flag says whether the code after the switch runs.\<close>

definition handle_challenge :: "logon_env \<Rightarrow> tcp_conn \<Rightarrow> (tcp_conn \<times> bool) outcome" where
  "handle_challenge env c =
     (let p = read_challenge_c (buff c) in
      if \<not> size_matches p then Ret (c, False)
      else
        (let login = chars (take (unat (cc_I_len p)) (cc_I p));
             c1 = c\<lparr>conn_os := rev (chars (takeWhile (\<lambda>b. b \<noteq> 0) (cc_os p))),
                    localizationName := chars (map (\<lambda>i. cc_country p ! (4 - i - 1)) [0..<4])\<rparr>
         in case select_account env login of
              None \<Rightarrow>
                Ret (handle_write (fill_reply
                  [cmd_code AUTH_LOGON_CHALLENGE, 0, WOW_FAIL_UNKNOWN_ACCOUNT] 3 c1), False)
            | Some row \<Rightarrow>
                bind_outcome (get_binary_32 (row_salt row)) (\<lambda>salt.
                bind_outcome (get_binary_32 (row_verifier row)) (\<lambda>verifier.
                bind_outcome (srp6_new (lib env) (random32 env) (row_username row) salt verifier) (\<lambda>srv.
                  Ret (handle_write (fill_reply
                    (encode_challenge_s (challenge_reply (stack_reply env) srv)) sizeof_challenge_s
                    (c1\<lparr>userName := row_username row, srp := Some srv\<rparr>)), True))))))"

subsection \<open>The proof handler\<close>

text \<open>\<open>remote_endpoint()\<close> throws when the peer is gone, and nothing in the thread catches it.\<close>

definition GetRemoteIpAddress :: "logon_env \<Rightarrow> string outcome" where
  "GetRemoteIpAddress env =
     (if peer_gone env then Crash (Thrown ''boost::system::system_error'') else Ret (remote_ip env))"

definition handle_proof :: "logon_env \<Rightarrow> tcp_conn \<Rightarrow> (tcp_conn \<times> bool) outcome" where
  "handle_proof env c =
     (let p = read_proof_c (buff c); A = pc_A p; M1 = pc_M1 p in
      case srp c of
        None \<Rightarrow> Crash NullDeref
      | Some srv \<Rightarrow>
          bind_outcome (VerifyChallengeResponse (lib env) srv A M1) (\<lambda>(srv', res).
          let c1 = c\<lparr>srp := Some srv'\<rparr> in
          case res of
            None \<Rightarrow>
              Ret (handle_write (fill_reply
                [cmd_code AUTH_LOGON_PROOF, WOW_FAIL_UNKNOWN_ACCOUNT] 2 c1), False)
          | Some K \<Rightarrow>
              bind_outcome (VerifyVersion (lib env) A (pc_crc_hash p) False (c1\<lparr>sessionKey := K\<rparr>))
                (\<lambda>(c2, versionOk).
              if \<not> versionOk then
                Ret (handle_write (fill_reply
                  [cmd_code AUTH_LOGON_PROOF, WOW_FAIL_VERSION_INVALID] 2 c2), False)
              else bind_outcome (GetRemoteIpAddress env) (\<lambda>address.
                (let c3 = c2\<lparr>events := events c2 @
                       [DbUpdate (sessionKey c2) address (localizationName c2) (conn_os c2) (userName c2)]\<rparr>
                 in bind_outcome (get_session_verifier (lib env) A M1 (sessionKey c3)) (\<lambda>M2.
                   Ret (handle_write (fill_reply
                     (encode_proof_s \<lparr>ps_cmd = cmd_code AUTH_LOGON_PROOF, ps_error = 0, ps_M2 = M2,
                        ps_accountFlags = 0x00800000, ps_surveyId = 0, ps_unkFlags = 0\<rparr>)
                     sizeof_proof_s c3), True)))))))"

lemma GetRemoteIpAddress_Ret [simp]: "GetRemoteIpAddress env = Ret ip \<longleftrightarrow> \<not> peer_gone env \<and> ip = remote_ip env"
  by (auto simp: GetRemoteIpAddress_def)

subsection \<open>handle\_read\<close>

text \<open>
  The completion of a read: an error closes the socket; otherwise the bytes received are at the
  front of the buffer, the rest of it is what earlier packets left, and the first byte selects
  the handler. The count of bytes received is not looked at.
\<close>

datatype read_result = ReadError | ReadOk bytes

definition handle_read :: "logon_env \<Rightarrow> tcp_conn \<Rightarrow> read_result \<Rightarrow> tcp_conn outcome" where
  "handle_read env c0 r =
     (let c = c0\<lparr>pending_reads := pending_reads c0 - 1\<rparr> in
      case r of
        ReadError \<Rightarrow> Ret (c\<lparr>events := events c @ [SocketClosed]\<rparr>)
      | ReadOk bytes \<Rightarrow>
          (let c1 = c\<lparr>buff := take buff_len bytes @ drop (length bytes) (buff c)\<rparr> in
           bind_outcome
             (if buff c1 ! 0 = cmd_code AUTH_LOGON_CHALLENGE then handle_challenge env c1
              else if buff c1 ! 0 = cmd_code AUTH_LOGON_PROOF then handle_proof env c1
              else Ret (c1, True))
             (\<lambda>(c2, go_on). Ret (if go_on then async_read c2 else c2))))"

text \<open>A run: the results of the reads of one connection in their order.\<close>

primrec conn_run :: "(logon_env \<times> read_result) list \<Rightarrow> tcp_conn \<Rightarrow> tcp_conn outcome" where
  "conn_run [] c = Ret c"
| "conn_run (r # rs) c = bind_outcome (handle_read (fst r) c (snd r)) (conn_run rs)"

subsection \<open>Layout lemmas\<close>

lemma substr_append_skip: "length xs \<le> i \<Longrightarrow> substr (xs @ ys) i n = substr ys (i - length xs) n"
  by (simp add: substr_def)

lemma substr_append_take: "length xs = n \<Longrightarrow> substr (xs @ ys) 0 n = xs"
  by (simp add: substr_def)

lemma substr_0: "substr xs 0 n = take n xs"
  by (simp add: substr_def)

lemma length_strncpy [simp]: "length (strncpy src n) = n"
proof -
  have "length (takeWhile (\<lambda>b. b \<noteq> 0) (take n src)) \<le> n"
    by (metis length_take length_takeWhile_le le_trans min.cobounded2)
  then show ?thesis by (simp add: strncpy_def Let_def)
qed

lemma replicate_length_eq_iff: "replicate (length xs) z = xs \<longleftrightarrow> list_all (\<lambda>b. b = z) xs"
  by (induction xs) auto

lemma takeWhile_append_replicate_iff:
  assumes "length s = n"
  shows "takeWhile P s @ replicate (n - length (takeWhile P s)) z = s \<longleftrightarrow>
    list_all (\<lambda>b. b = z) (dropWhile P s)"
proof -
  have len: "n - length (takeWhile P s) = length (dropWhile P s)"
    using assms by (metis add_diff_cancel_left' length_append takeWhile_dropWhile_id)
  have "takeWhile P s @ replicate (n - length (takeWhile P s)) z = s \<longleftrightarrow>
      replicate (length (dropWhile P s)) z = dropWhile P s"
    unfolding len by (subst (3) takeWhile_dropWhile_id [of P s, symmetric]) (rule same_append_eq)
  also have "\<dots> \<longleftrightarrow> list_all (\<lambda>b. b = z) (dropWhile P s)"
    by (rule replicate_length_eq_iff)
  finally show ?thesis .
qed

lemma strncpy_exact:
  "length s = n \<Longrightarrow> strncpy s n = s \<longleftrightarrow> list_all (\<lambda>b. b = 0) (dropWhile (\<lambda>b. b \<noteq> 0) s)"
  using takeWhile_append_replicate_iff [of s n "\<lambda>b. b \<noteq> 0" 0] by (simp add: strncpy_def Let_def)

lemma strncpy_no_zero:
  assumes "length s = n" and "0 \<notin> set s"
  shows "strncpy s n = s"
proof -
  have t: "takeWhile (\<lambda>b. b \<noteq> 0) s = s" using assms(2) by (auto simp: takeWhile_eq_all_conv)
  show ?thesis using assms(1) by (simp add: strncpy_def t)
qed

lemma strncpy_N: "strncpy SRP6_N 32 = N_bytes"
  by (simp only: SRP6_N_eq, rule strncpy_no_zero) (simp_all add: N_bytes_def)

lemma strncpy_version: "strncpy VersionChallenge 16 = VersionChallenge"
  by (rule strncpy_no_zero) (simp_all add: VersionChallenge_def)

lemma strncpy_g: "strncpy SRP6_g 1 = [7]"
  by (simp add: SRP6_g_def strncpy_def)

text \<open>The reply as it leaves: every field of the structure in its place.\<close>

lemma encode_challenge_reply:
  assumes "length (srp_B srv) = 32"
  shows "encode_challenge_s (challenge_reply fb0 srv) =
    [0, 0, 0] @ srp_B srv @ [1, 7, 0] @ N_bytes @ strncpy (srp_s srv) 32 @ VersionChallenge @
    [cs_securityFlags fb0]"
  using assms
  by (simp add: encode_challenge_s_def challenge_reply_def Let_def strncpy_N strncpy_version strncpy_g
      WOW_SUCCESS_def del: take_all_iff One_nat_def)

lemma length_encode_challenge_reply:
  "length (srp_B srv) = 32 \<Longrightarrow> length (encode_challenge_s (challenge_reply fb0 srv)) = sizeof_challenge_s"
  by (simp add: encode_challenge_reply sizeof_challenge_s_def VersionChallenge_def)

lemma length_encode_proof_s: "length (ps_M2 p) = 20 \<Longrightarrow> length (encode_proof_s p) = sizeof_proof_s"
  by (simp add: encode_proof_s_def sizeof_proof_s_def)

subsection \<open>Step lemmas\<close>

lemma fill_reply_simps [simp]:
  "srp (fill_reply s n c) = srp c" "sessionKey (fill_reply s n c) = sessionKey c"
  "conn_os (fill_reply s n c) = conn_os c" "localizationName (fill_reply s n c) = localizationName c"
  "userName (fill_reply s n c) = userName c" "pending_reads (fill_reply s n c) = pending_reads c"
  "events (fill_reply s n c) = events c" "data_len (fill_reply s n c) = n"
  "buff (fill_reply s n c) = take n s @ drop n (buff c)"
  by (simp_all add: fill_reply_def)

lemma async_read_simps [simp]:
  "buff (async_read c) = buff c" "srp (async_read c) = srp c" "sessionKey (async_read c) = sessionKey c"
  "conn_os (async_read c) = conn_os c" "localizationName (async_read c) = localizationName c"
  "userName (async_read c) = userName c" "events (async_read c) = events c"
  "data_len (async_read c) = data_len c" "pending_reads (async_read c) = pending_reads c + 1"
  by (simp_all add: async_read_def)

lemma handle_write_simps [simp]:
  "buff (handle_write c) = buff c" "srp (handle_write c) = srp c"
  "sessionKey (handle_write c) = sessionKey c" "conn_os (handle_write c) = conn_os c"
  "localizationName (handle_write c) = localizationName c" "userName (handle_write c) = userName c"
  "events (handle_write c) = events c @ [Sent (take buff_len (buff c))]"
  "data_len (handle_write c) = data_len c" "pending_reads (handle_write c) = pending_reads c + 1"
  by (simp_all add: handle_write_def)

lemma VerifyVersion_frame:
  assumes "VerifyVersion api a prf rc c = Ret (c', b)"
  shows "events c' = events c \<and> srp c' = srp c \<and> buff c' = buff c \<and> sessionKey c' = sessionKey c \<and>
    conn_os c' = conn_os c \<and> userName c' = userName c \<and> localizationName c' = localizationName c \<and>
    pending_reads c' = pending_reads c"
  using assms by (auto simp: VerifyVersion_def Let_def split: if_splits)

lemma VerifyVersion_known_os:
  assumes "VerifyVersion api a prf False c = Ret r"
  shows "conn_os c = ''Win'' \<or> conn_os c = ''OSX''"
  using assms by (auto simp: VerifyVersion_def Let_def split: if_splits)

lemma length_le_N [simp]: "length (le_bytes 32 x) = 32"
  by simp

lemma srp6_new_B: "ossl_ok api \<Longrightarrow> srp6_new api rnd u s v = Ret srv \<Longrightarrow>
    length (srp_B srv) = 32 \<and> srp_s srv = s \<and> \<not> used srv"
  by (auto simp: srp6_new_ok)

lemma srp6_new_pos:
  "ossl_ok api \<Longrightarrow> srp6_new api rnd u s v = Ret srv \<Longrightarrow> 0 \<le> srp_b srv \<and> 0 \<le> srp_v srv"
  by (auto simp: srp6_new_ok)

subsection \<open>What a client sends\<close>

definition encode_challenge_c :: "challenge_c \<Rightarrow> bytes" where
  "encode_challenge_c p =
     [cc_cmd p, cc_error p] @ le_bytes 2 (unat (cc_size p)) @ cc_gamename p @ cc_version p @
     le_bytes 2 (unat (cc_build p)) @ cc_platform p @ cc_os p @ cc_country p @
     le_bytes 4 (unat (cc_timezone_bias p)) @ le_bytes 4 (unat (cc_ip p)) @ [cc_I_len p] @ cc_I p"

definition encode_proof_c :: "proof_c \<Rightarrow> bytes" where
  "encode_proof_c p =
     [pc_cmd p] @ pc_A p @ pc_M1 p @ pc_crc_hash p @ [pc_num_of_keys p, pc_security_flags p]"

text \<open>A packet whose fixed-width fields have their widths and whose name fits.\<close>

definition wf_challenge_c :: "challenge_c \<Rightarrow> bool" where
  "wf_challenge_c p \<longleftrightarrow> length (cc_gamename p) = 4 \<and> length (cc_version p) = 3 \<and>
     length (cc_platform p) = 4 \<and> length (cc_os p) = 4 \<and> length (cc_country p) = 4 \<and>
     length (cc_I p) = unat (cc_I_len p) \<and> cc_cmd p = cmd_code AUTH_LOGON_CHALLENGE \<and>
     unat (cc_size p) = 30 + unat (cc_I_len p)"

lemma le16_le_bytes [simp]: "le16 (le_bytes 2 (unat w)) = w"
proof -
  have "unat w < 2 ^ LENGTH(16)" by (rule unsigned_less)
  then show ?thesis by (simp add: le16_def le_value_le_bytes)
qed

lemma le32_le_bytes [simp]: "le32 (le_bytes 4 (unat w)) = w"
proof -
  have "unat w < 2 ^ LENGTH(32)" by (rule unsigned_less)
  then show ?thesis by (simp add: le32_def le_value_le_bytes)
qed

lemma length_4E:
  assumes "length xs = 4"
  obtains a b c d where "xs = [a, b, c, d]"
  using assms by (auto simp: numeral_eq_Suc length_Suc_conv)

lemma length_3E:
  assumes "length xs = 3"
  obtains a b c where "xs = [a, b, c]"
  using assms by (auto simp: numeral_eq_Suc length_Suc_conv)

lemma length_2E:
  assumes "length xs = 2"
  obtains a b where "xs = [a, b]"
  using assms by (auto simp: numeral_eq_Suc length_Suc_conv)

lemma read_encode_challenge_c:
  assumes "wf_challenge_c p"
  shows "read_challenge_c (encode_challenge_c p @ rest) = p\<lparr>cc_I := cc_I p @ rest\<rparr>"
proof -
  note l = assms [unfolded wf_challenge_c_def]
  obtain g1 g2 g3 g4 where g: "cc_gamename p = [g1, g2, g3, g4]" using l by (blast elim: length_4E)
  obtain v1 v2 v3 where v: "cc_version p = [v1, v2, v3]" using l by (blast elim: length_3E)
  obtain p1 p2 p3 p4 where pl: "cc_platform p = [p1, p2, p3, p4]" using l by (blast elim: length_4E)
  obtain o1 o2 o3 o4 where os: "cc_os p = [o1, o2, o3, o4]" using l by (blast elim: length_4E)
  obtain c1 c2 c3 c4 where cn: "cc_country p = [c1, c2, c3, c4]" using l by (blast elim: length_4E)
  obtain s1 s2 where s: "le_bytes 2 (unat (cc_size p)) = [s1, s2]"
    by (rule length_2E [of "le_bytes 2 (unat (cc_size p))"]) simp_all
  obtain b1 b2 where b: "le_bytes 2 (unat (cc_build p)) = [b1, b2]"
    by (rule length_2E [of "le_bytes 2 (unat (cc_build p))"]) simp_all
  obtain t1 t2 t3 t4 where t: "le_bytes 4 (unat (cc_timezone_bias p)) = [t1, t2, t3, t4]"
    by (rule length_4E [of "le_bytes 4 (unat (cc_timezone_bias p))"]) simp_all
  obtain i1 i2 i3 i4 where i: "le_bytes 4 (unat (cc_ip p)) = [i1, i2, i3, i4]"
    by (rule length_4E [of "le_bytes 4 (unat (cc_ip p))"]) simp_all
  have r: "le16 [s1, s2] = cc_size p" "le16 [b1, b2] = cc_build p"
    "le32 [t1, t2, t3, t4] = cc_timezone_bias p" "le32 [i1, i2, i3, i4] = cc_ip p"
    using le16_le_bytes [of "cc_size p"] le16_le_bytes [of "cc_build p"]
      le32_le_bytes [of "cc_timezone_bias p"] le32_le_bytes [of "cc_ip p"] s b t i by simp_all
  show ?thesis
    by (rule challenge_c.equality)
      (simp_all add: read_challenge_c_def encode_challenge_c_def g v pl os cn s b t i substr_def r
        del: le_bytes.simps)
qed


lemma size_matches_wf:
  assumes "wf_challenge_c p"
  shows "size_matches (p\<lparr>cc_I := x\<rparr>)"
proof -
  have "unat (cc_size p) = 30 + unat (cc_I_len p)" using assms by (simp add: wf_challenge_c_def)
  then have "(ucast (cc_size p) :: uint64) = 30 + ucast (cc_I_len p)"
    by (metis of_nat_add of_nat_numeral of_nat_unat)
  then show ?thesis
    by (simp add: size_matches_def sizeof_challenge_c_def AUTH_LOGON_CHALLENGE_INITIAL_SIZE_def)
qed

lemma read_encode_proof_c:
  assumes "length (pc_A p) = 32" and "length (pc_M1 p) = 20" and "length (pc_crc_hash p) = 20"
  shows "read_proof_c (encode_proof_c p @ rest) = p"
  by (rule proof_c.equality)
    (simp_all add: read_proof_c_def encode_proof_c_def substr_def assms nth_append nth_Cons')

lemma encode_c_not_Nil [simp]: "encode_challenge_c p \<noteq> []" "encode_proof_c q \<noteq> []"
  by (simp_all add: encode_challenge_c_def encode_proof_c_def)

lemma encode_c_first [simp]:
  "(encode_challenge_c p @ rest) ! 0 = cc_cmd p" "(encode_proof_c q @ rest) ! 0 = pc_cmd q"
  by (simp_all add: encode_challenge_c_def encode_proof_c_def)

lemma length_encode_challenge_c:
  "wf_challenge_c p \<Longrightarrow> length (encode_challenge_c p) = 34 + unat (cc_I_len p)"
  by (simp add: encode_challenge_c_def wf_challenge_c_def)

lemma length_encode_proof_c:
  "length (pc_A p) = 32 \<Longrightarrow> length (pc_M1 p) = 20 \<Longrightarrow> length (pc_crc_hash p) = 20 \<Longrightarrow>
   length (encode_proof_c p) = 75"
  by (simp add: encode_proof_c_def)

lemma cmd_codes_differ [simp]: "cmd_code AUTH_LOGON_CHALLENGE \<noteq> cmd_code AUTH_LOGON_PROOF"
  by simp

text \<open>The bytes of the version seed for Windows.\<close>

definition windows_seed :: bytes where
  "windows_seed = [0xCD, 0xCB, 0xBD, 0x51, 0x88, 0x31, 0x5E, 0x6B, 0x4D, 0x19,
     0x44, 0x9D, 0x49, 0x2D, 0xBC, 0xFA, 0xF1, 0x56, 0xA3, 0x47]"

lemma winCheckSumSeed_eq: "HexStrToByteArray winCheckSumSeed 20 False = Ret windows_seed"
proof -
  have "hex_encode windows_seed = winCheckSumSeed"
    by (simp add: windows_seed_def winCheckSumSeed_def hex_char_def char_of_eq_iff)
  moreover have "length winCheckSumSeed = 2 * 20" by (simp add: winCheckSumSeed_def)
  moreover have "length windows_seed = 20" by (simp add: windows_seed_def)
  ultimately show ?thesis
    using HexStrToByteArray_eq [of winCheckSumSeed 20 False] hex_pairs_encode [of windows_seed] by simp
qed

lemma windows_seed_nonzero: "replicate 20 0 \<noteq> windows_seed"
proof
  assume "replicate 20 0 = windows_seed"
  then have "hd (replicate 20 0) = hd windows_seed" by simp
  then show False by (simp add: windows_seed_def)
qed

lemma VerifyVersion_Win:
  assumes "ossl_ok api" and "conn_os c = ''Win''"
  shows "VerifyVersion api a prf False c =
    Ret (c\<lparr>windowsHash := windows_seed\<rparr>, prf = EVP_sha1 api (a @ windows_seed))"
  using assms windows_seed_nonzero
  by (simp add: VerifyVersion_def winCheckSumSeed_eq sha1_of_ok Let_def)


subsection \<open>A whole login\<close>

lemma handle_challenge_found:
  assumes "wf_challenge_c p" and "buff c = encode_challenge_c p @ rest"
    and "select_account env (chars (cc_I p)) = Some row"
    and "length (row_salt row) = 32" and "length (row_verifier row) = 32"
    and "srp6_new (lib env) (random32 env) (row_username row) (row_salt row) (row_verifier row) = Ret srv"
  shows "handle_challenge env c = Ret (handle_write (fill_reply
      (encode_challenge_s (challenge_reply (stack_reply env) srv)) sizeof_challenge_s
      (c\<lparr>conn_os := rev (chars (takeWhile (\<lambda>b. b \<noteq> 0) (cc_os p))),
         localizationName := chars (rev (cc_country p)),
         userName := row_username row, srp := Some srv\<rparr>)), True)"
proof -
  have "length (cc_I p) = unat (cc_I_len p)" "length (cc_country p) = 4"
    using assms(1) by (simp_all add: wf_challenge_c_def)
  then have *: "take (unat (cc_I_len p)) (cc_I p @ rest) = cc_I p"
    and country: "map (\<lambda>i. cc_country p ! (4 - i - 1)) [0..<4] = rev (cc_country p)"
    by (simp_all add: list_eq_iff_nth_eq rev_nth)
  show ?thesis
    using assms size_matches_wf [OF assms(1)] * country
    by (simp add: handle_challenge_def read_encode_challenge_c get_binary_32_def Let_def
        del: upt_rec_numeral)
qed

lemma handle_proof_accepted:
  assumes "ossl_ok (lib env)"
    and "length (pc_A p) = 32" and "length (pc_M1 p) = 20" and "length (pc_crc_hash p) = 20"
    and "buff c = encode_proof_c p @ rest" and "srp c = Some srv" and "conn_os c = ''Win''"
    and "VerifyChallengeResponse (lib env) srv (pc_A p) (pc_M1 p) = Ret (srv', Some K)"
    and "pc_crc_hash p = EVP_sha1 (lib env) (pc_A p @ windows_seed)" and "\<not> peer_gone env"
  shows "\<exists>c'. handle_proof env c = Ret (c', True) \<and> srp c' = Some srv' \<and> events c' = events c @
      [DbUpdate K (remote_ip env) (localizationName c) ''Win'' (userName c),
       Sent (take buff_len (encode_proof_s \<lparr>ps_cmd = cmd_code AUTH_LOGON_PROOF, ps_error = 0,
          ps_M2 = EVP_sha1 (lib env) (pc_A p @ pc_M1 p @ K),
          ps_accountFlags = 0x00800000, ps_surveyId = 0, ps_unkFlags = 0\<rparr> @
          drop sizeof_proof_s (buff c)))]"
  using assms
  by (simp add: handle_proof_def read_encode_proof_c Let_def VerifyVersion_Win
      get_session_verifier_def sha1_of_ok length_encode_proof_s ossl_okD(16) GetRemoteIpAddress_def)


text \<open>The reply as the client reads it: \<open>B\<close> and the salt at their offsets.\<close>

lemma challenge_reply_B_salt:
  assumes "length (srp_B srv) = 32"
  shows "substr (take buff_len (encode_challenge_s (challenge_reply fb0 srv) @ rest)) 3 32 = srp_B srv"
    and "substr (take buff_len (encode_challenge_s (challenge_reply fb0 srv) @ rest)) 70 32 =
      strncpy (srp_s srv) 32"
proof -
  have t: "take 1024 (encode_challenge_s (challenge_reply fb0 srv) @ rest) =
      [0, 0, 0] @ srp_B srv @ [1, 7, 0] @ N_bytes @ strncpy (srp_s srv) 32 @
      take 922 (VersionChallenge @ [cs_securityFlags fb0] @ rest)"
    using assms by (simp add: encode_challenge_reply)
  show "substr (take buff_len (encode_challenge_s (challenge_reply fb0 srv) @ rest)) 3 32 = srp_B srv"
    unfolding buff_len_def t using assms by (simp add: substr_def)
  show "substr (take buff_len (encode_challenge_s (challenge_reply fb0 srv) @ rest)) 70 32 =
      strncpy (srp_s srv) 32"
    unfolding buff_len_def t using assms by (simp add: substr_def)
qed

definition client_packet :: "ossl \<Rightarrow> string \<Rightarrow> string \<Rightarrow> nat \<Rightarrow> bytes \<Rightarrow> proof_c" where
  "client_packet api username password a reply =
     (let B = substr reply 3 32; salt = substr reply 70 32 in
      \<lparr>pc_cmd = cmd_code AUTH_LOGON_PROOF, pc_A = client_A a,
       pc_M1 = client_proof api username password salt B a,
       pc_crc_hash = EVP_sha1 api (client_A a @ windows_seed), pc_num_of_keys = 0,
       pc_security_flags = 0\<rparr>)"

lemma client_packet_lengths:
  assumes "ossl_ok api"
  shows "length (pc_A (client_packet api u pw a r)) = 32"
    and "length (pc_M1 (client_packet api u pw a r)) = 20"
    and "length (pc_crc_hash (client_packet api u pw a r)) = 20"
  using assms by (simp_all add: client_packet_def client_A_def client_proof_def Let_def ossl_okD(16)
      del: le_bytes.simps)

lemma handle_read_challenge:
  assumes "buff c = mem" and "length bs \<le> buff_len" and "bs \<noteq> []" and "hd bs = cmd_code AUTH_LOGON_CHALLENGE"
    and "handle_challenge env (c\<lparr>pending_reads := pending_reads c - 1, buff := bs @ drop (length bs) mem\<rparr>)
      = Ret (c', go_on)"
  shows "handle_read env c (ReadOk bs) = Ret (if go_on then async_read c' else c')"
  using assms by (simp add: handle_read_def Let_def nth_append hd_conv_nth)

lemma handle_read_proof:
  assumes "buff c = mem" and "length bs \<le> buff_len" and "bs \<noteq> []" and "hd bs = cmd_code AUTH_LOGON_PROOF"
    and "handle_proof env (c\<lparr>pending_reads := pending_reads c - 1, buff := bs @ drop (length bs) mem\<rparr>)
      = Ret (c', go_on)"
  shows "handle_read env c (ReadOk bs) = Ret (if go_on then async_read c' else c')"
  using assms by (simp add: handle_read_def Let_def nth_append hd_conv_nth)

lemma hd_encode_c [simp]:
  "hd (encode_challenge_c p) = cc_cmd p" "hd (encode_proof_c q) = pc_cmd q"
  by (simp_all add: encode_challenge_c_def encode_proof_c_def)

lemma login_challenge_step:
  assumes "wf_challenge_c p" and "cc_os p = [0x6E, 0x69, 0x57, 0]"
    and "select_account env (chars (cc_I p)) = Some row"
    and "length (row_salt row) = 32" and "length (row_verifier row) = 32"
    and "srp6_new (lib env) (random32 env) (row_username row) (row_salt row) (row_verifier row) = Ret srv"
    and "length (srp_B srv) = 32"
  shows "\<exists>c' reply. handle_read env c (ReadOk (encode_challenge_c p)) = Ret c' \<and>
    events c' = events c @ [Sent reply] \<and> substr reply 3 32 = srp_B srv \<and>
    substr reply 70 32 = strncpy (srp_s srv) 32 \<and>
    srp c' = Some srv \<and> conn_os c' = ''Win'' \<and> localizationName c' = chars (rev (cc_country p)) \<and>
    userName c' = row_username row"
proof -
  have len: "length (encode_challenge_c p) \<le> buff_len"
    using unat_byte_less [of "cc_I_len p"] by (simp add: length_encode_challenge_c assms(1) buff_len_def)
  have cmd: "cc_cmd p = cmd_code AUTH_LOGON_CHALLENGE" using assms(1) by (simp add: wf_challenge_c_def)
  let ?c = "c\<lparr>pending_reads := pending_reads c - 1,
    buff := encode_challenge_c p @ drop (length (encode_challenge_c p)) (buff c)\<rparr>"
  have os: "rev (chars (takeWhile (\<lambda>b. b \<noteq> 0) (cc_os p))) = ''Win''"
    by (simp add: assms(2) chars_def char_of_eq_iff)
  have "handle_challenge env ?c = Ret (handle_write (fill_reply
      (encode_challenge_s (challenge_reply (stack_reply env) srv)) sizeof_challenge_s
      (?c\<lparr>conn_os := rev (chars (takeWhile (\<lambda>b. b \<noteq> 0) (cc_os p))),
         localizationName := chars (rev (cc_country p)),
         userName := row_username row, srp := Some srv\<rparr>)), True)"
    by (rule handle_challenge_found) (use assms in simp_all)
  note step = handle_read_challenge [OF refl len _ _ this]
  show ?thesis
    using step assms(7) cmd
    by (simp add: os length_encode_challenge_reply challenge_reply_B_salt
        del: cmd_code.simps take_append drop_append)
qed


lemma strncpy_salt_ok: "length s = 32 \<Longrightarrow> list_all (\<lambda>b. b = 0) (dropWhile (\<lambda>b. b \<noteq> 0) s) \<Longrightarrow> strncpy s 32 = s"
  by (simp add: strncpy_exact)

lemma login_proof_step:
  assumes "ossl_ok (lib env)" and "srp c = Some srv" and "conn_os c = ''Win''"
    and "p = client_packet (lib env) username password a reply"
    and "VerifyChallengeResponse (lib env) srv (pc_A p) (pc_M1 p) = Ret (srv', Some K)" and "\<not> peer_gone env"
  shows "\<exists>c' rest. handle_read env c (ReadOk (encode_proof_c p)) = Ret c' \<and> srp c' = Some srv' \<and>
    events c' = events c @
      [DbUpdate K (remote_ip env) (localizationName c) ''Win'' (userName c),
       Sent (take buff_len (encode_proof_s \<lparr>ps_cmd = cmd_code AUTH_LOGON_PROOF, ps_error = 0,
          ps_M2 = EVP_sha1 (lib env) (pc_A p @ pc_M1 p @ K),
          ps_accountFlags = 0x00800000, ps_surveyId = 0, ps_unkFlags = 0\<rparr> @ rest))]"
proof -
  note l = client_packet_lengths [OF assms(1), of username password a reply, folded assms(4)]
  have len: "length (encode_proof_c p) \<le> buff_len" by (simp add: length_encode_proof_c l buff_len_def)
  have cmd: "hd (encode_proof_c p) = cmd_code AUTH_LOGON_PROOF"
    by (simp add: assms(4) client_packet_def Let_def)
  have crc: "pc_crc_hash p = EVP_sha1 (lib env) (pc_A p @ windows_seed)"
    by (simp add: assms(4) client_packet_def Let_def)
  define c1 where "c1 = c\<lparr>pending_reads := pending_reads c - 1,
    buff := encode_proof_c p @ drop (length (encode_proof_c p)) (buff c)\<rparr>"
  have c1: "buff c1 = encode_proof_c p @ drop (length (encode_proof_c p)) (buff c)"
    "srp c1 = Some srv" "conn_os c1 = ''Win''" "events c1 = events c"
    "localizationName c1 = localizationName c" "userName c1 = userName c"
    by (simp_all add: c1_def assms(2,3))
  obtain c' where c': "handle_proof env c1 = Ret (c', True)" "srp c' = Some srv'"
    "events c' = events c @
      [DbUpdate K (remote_ip env) (localizationName c) ''Win'' (userName c),
       Sent (take buff_len (encode_proof_s \<lparr>ps_cmd = cmd_code AUTH_LOGON_PROOF, ps_error = 0,
          ps_M2 = EVP_sha1 (lib env) (pc_A p @ pc_M1 p @ K),
          ps_accountFlags = 0x00800000, ps_surveyId = 0, ps_unkFlags = 0\<rparr> @
          drop sizeof_proof_s (buff c1)))]"
    using handle_proof_accepted [OF assms(1) l c1(1,2,3) assms(5) crc assms(6)] unfolding c1(4,5,6) by blast
  have "handle_read env c (ReadOk (encode_proof_c p)) = Ret (async_read c')"
    using handle_read_proof [OF refl len _ cmd c'(1) [unfolded c1_def]] by simp
  with c' show ?thesis by (intro exI [of _ "async_read c'"]) auto
qed

lemma calculate_verifier_length: "ossl_ok api \<Longrightarrow> calculate_verifier api u p s = Ret v \<Longrightarrow> length v = 32"
  by (auto simp: calculate_verifier_ok)

lemma logon_session_run:
  assumes "ossl_ok api" and "lib env1 = api" and "lib env2 = api"
    and "wf_challenge_c p" and "cc_os p = [0x6E, 0x69, 0x57, 0]"
    and "select_account env1 (chars (cc_I p)) = Some row" and "length (row_salt row) = 32"
    and "list_all (\<lambda>b. b = 0) (dropWhile (\<lambda>b. b \<noteq> 0) (row_salt row))"
    and "calculate_verifier api (row_username row) password (row_salt row) = Ret (row_verifier row)"
    and "\<not> peer_gone env2"
  shows "\<exists>c1 c2 reply q K rest.
    handle_read env1 (conn_start (conn_new mem wh mh)) (ReadOk (encode_challenge_c p)) = Ret c1 \<and>
    events c1 = [Sent reply] \<and>
    q = client_packet api (row_username row) password a reply \<and>
    K = client_key api (row_username row) password (row_salt row) (substr reply 3 32) a \<and>
    handle_read env2 c1 (ReadOk (encode_proof_c q)) = Ret c2 \<and>
    events c2 = [Sent reply,
      DbUpdate K (remote_ip env2) (chars (rev (cc_country p))) ''Win'' (row_username row),
      Sent (take buff_len (encode_proof_s \<lparr>ps_cmd = cmd_code AUTH_LOGON_PROOF, ps_error = 0,
          ps_M2 = EVP_sha1 api (pc_A q @ pc_M1 q @ K),
          ps_accountFlags = 0x00800000, ps_surveyId = 0, ps_unkFlags = 0\<rparr> @ rest))]"
proof -
  let ?u = "row_username row" and ?s = "row_salt row"
  obtain srv where srv: "srp6_new api (random32 env1) ?u ?s (row_verifier row) = Ret srv"
    and ver: "VerifyChallengeResponse api srv (client_A a) (client_proof api ?u password ?s (srp_B srv) a) =
      Ret (srv\<lparr>used := True\<rparr>, Some (client_key api ?u password ?s (srp_B srv) a))"
    using srp6_agree [OF assms(1), of ?u password ?s "random32 env1" a] assms(9) by auto
  have B: "length (srp_B srv) = 32" and salt: "strncpy (srp_s srv) 32 = ?s"
    using srp6_new_B [OF assms(1) srv] strncpy_salt_ok [OF assms(7,8)] by simp_all
  obtain c1 reply where c1: "handle_read env1 (conn_start (conn_new mem wh mh)) (ReadOk (encode_challenge_c p)) = Ret c1"
    "events c1 = [Sent reply]" "substr reply 3 32 = srp_B srv" "substr reply 70 32 = ?s"
    "srp c1 = Some srv" "conn_os c1 = ''Win''" "localizationName c1 = chars (rev (cc_country p))"
    "userName c1 = ?u"
    using login_challenge_step [OF assms(4,5,6,7) calculate_verifier_length [OF assms(1,9)]
        srv [folded assms(2)] B, of "conn_start (conn_new mem wh mh)"]
    by (auto simp: conn_start_def conn_new_def salt)
  define q where "q = client_packet api ?u password a reply"
  have "VerifyChallengeResponse (lib env2) srv (pc_A q) (pc_M1 q) =
      Ret (srv\<lparr>used := True\<rparr>, Some (client_key api ?u password ?s (srp_B srv) a))"
    using ver by (simp add: q_def client_packet_def Let_def c1 assms(3))
  from login_proof_step [OF _ c1(5,6) _ this assms(10), of ?u password a reply] c1 q_def assms(1,3)
  show ?thesis by auto
qed

text \<open>
  C4. A whole login: an account whose salt survives the copy into the reply and whose verifier is
  the one computed at registration, a well-formed challenge packet from a Windows client for its
  name, and a proof packet made by a client that knows the password from what the reply holds and
  that is still connected when it is handled. Both handlers run to completion; the server sends the challenge reply, stores the client's
  session key with the peer's address, locale, system and account name, and answers with the
  proof of that key.
\<close>

theorem logon_session:
  assumes "ossl_ok api" and "lib env1 = api" and "lib env2 = api"
    and "wf_challenge_c p" and "cc_os p = [0x6E, 0x69, 0x57, 0]"
    and "select_account env1 (chars (cc_I p)) = Some row" and "length (row_salt row) = 32"
    and "list_all (\<lambda>b. b = 0) (dropWhile (\<lambda>b. b \<noteq> 0) (row_salt row))"
    and "calculate_verifier api (row_username row) password (row_salt row) = Ret (row_verifier row)"
    and "\<not> peer_gone env2"
  shows "\<exists>c1 c2 reply q K rest.
    handle_read env1 (conn_start (conn_new mem wh mh)) (ReadOk (encode_challenge_c p)) = Ret c1 \<and>
    events c1 = [Sent reply] \<and>
    q = client_packet api (row_username row) password a reply \<and>
    K = client_key api (row_username row) password (row_salt row) (substr reply 3 32) a \<and>
    handle_read env2 c1 (ReadOk (encode_proof_c q)) = Ret c2 \<and>
    events c2 = [Sent reply,
      DbUpdate K (remote_ip env2) (chars (rev (cc_country p))) ''Win'' (row_username row),
      Sent (take buff_len (encode_proof_s \<lparr>ps_cmd = cmd_code AUTH_LOGON_PROOF, ps_error = 0,
          ps_M2 = EVP_sha1 api (pc_A q @ pc_M1 q @ K),
          ps_accountFlags = 0x00800000, ps_surveyId = 0, ps_unkFlags = 0\<rparr> @ rest))]"
  by (rule logon_session_run [OF assms])


text \<open>Concrete inputs for the witnesses.\<close>

definition sample_challenge :: challenge_c where
  "sample_challenge = \<lparr>cc_cmd = 0, cc_error = 8, cc_size = 34, cc_gamename = [0x57, 0x6F, 0x57, 0],
     cc_version = [3, 3, 5], cc_build = 12340, cc_platform = [0x36, 0x38, 0x78, 0],
     cc_os = [0x6E, 0x69, 0x57, 0], cc_country = [0x4E, 0x43, 0x68, 0x7A],
     cc_timezone_bias = 60, cc_ip = 0x0100007F, cc_I_len = 4, cc_I = bytes_of ''TEST''\<rparr>"

definition sample_row :: account_row where
  "sample_row = \<lparr>row_username = ''TEST'', row_last_ip = ''127.0.0.1'', row_salt = replicate 32 1,
     row_verifier = (case calculate_verifier ossl_ref ''TEST'' ''PW'' (replicate 32 1) of
        Ret v \<Rightarrow> v | Crash c \<Rightarrow> [])\<rparr>"

definition sample_env :: logon_env where
  "sample_env = \<lparr>lib = ossl_ref, select_account = (\<lambda>n. if n = ''TEST'' then Some sample_row else None),
     remote_ip = ''10.0.0.7'', peer_gone = False, random32 = replicate 32 5,
     stack_reply = \<lparr>cs_cmd = 0, cs_unk2 = 0, cs_error = 0, cs_B = [], cs_g_len = 0, cs_g = [],
        cs_N_len = 0, cs_N = [], cs_s = [], cs_unk3 = [], cs_securityFlags = 9\<rparr>\<rparr>"

lemma sample_facts:
  "wf_challenge_c sample_challenge" "cc_os sample_challenge = [0x6E, 0x69, 0x57, 0]"
  "lib sample_env = ossl_ref" "select_account sample_env ''TEST'' = Some sample_row"
  "cc_I sample_challenge = bytes_of ''TEST''" "\<not> peer_gone sample_env"
  "row_salt sample_row = replicate 32 1" "row_username sample_row = ''TEST''"
  by (simp_all add: wf_challenge_c_def sample_challenge_def sample_env_def sample_row_def)

lemma sample_row_verifier:
  "calculate_verifier ossl_ref (row_username sample_row) ''PW'' (row_salt sample_row) =
    Ret (row_verifier sample_row)"
  by (simp add: sample_row_def calculate_verifier_ok [OF ossl_ref_ok] del: le_bytes.simps)

lemma sample_salt: "list_all (\<lambda>b. b = 0) (dropWhile (\<lambda>b. b \<noteq> (0 :: byte)) (replicate 32 1))"
  by simp

theorem logon_session_witness:
  "\<exists>c1 c2 reply K.
    handle_read sample_env (conn_start (conn_new (replicate 1024 0) [] []))
      (ReadOk (encode_challenge_c sample_challenge)) = Ret c1 \<and>
    handle_read sample_env c1
      (ReadOk (encode_proof_c (client_packet ossl_ref ''TEST'' ''PW'' 9 reply))) = Ret c2 \<and>
    events c2 ! 1 = DbUpdate K ''10.0.0.7'' (chars (rev (cc_country sample_challenge))) ''Win'' ''TEST''"
proof -
  have row: "select_account sample_env (chars (cc_I sample_challenge)) = Some sample_row"
    by (simp add: sample_facts)
  have "length (row_salt sample_row) = 32"
    "list_all (\<lambda>b. b = 0) (dropWhile (\<lambda>b. b \<noteq> 0) (row_salt sample_row))"
    using sample_salt by (simp_all add: sample_facts)
  note s = logon_session [OF ossl_ref_ok sample_facts(3) sample_facts(3) sample_facts(1,2) row this
      sample_row_verifier sample_facts(6), of "replicate 1024 0" "[]" "[]" 9]
  have "remote_ip sample_env = ''10.0.0.7''" by (simp add: sample_env_def)
  with s show ?thesis by (fastforce simp: sample_facts)
qed


subsection \<open>What one step does\<close>

lemma VerifyVersion_accepts:
  assumes "ossl_ok api" and "VerifyVersion api a prf False c = Ret (c', True)"
  shows "prf = EVP_sha1 api (a @ windowsHash c') \<or> prf = EVP_sha1 api (a @ macHash c') \<or>
    windowsHash c' = replicate 20 0 \<or> macHash c' = replicate 20 0"
  using assms by (auto simp: VerifyVersion_def Let_def sha1_of_ok split: if_splits)

lemma handle_challenge_events:
  assumes "handle_challenge env c = Ret (c', b)"
  shows "(events c' = events c \<and> srp c' = srp c \<and> buff c' = buff c \<and> pending_reads c' = pending_reads c \<and> \<not> b) \<or>
    (events c' = events c @ [Sent (take buff_len (buff c'))] \<and> pending_reads c' = pending_reads c + 1 \<and>
     (srp c' = srp c \<or> b))"
  using assms by (auto simp: handle_challenge_def Let_def split: if_splits option.splits)

lemma VerifyVersion_frame_os:
  assumes "VerifyVersion api a prf False c = Ret (c', b)"
  shows "events c' = events c" "srp c' = srp c" "buff c' = buff c" "sessionKey c' = sessionKey c"
    "conn_os c' = conn_os c" "userName c' = userName c" "localizationName c' = localizationName c"
    "pending_reads c' = pending_reads c" "conn_os c \<noteq> ''Win'' \<Longrightarrow> conn_os c = ''OSX''"
  using VerifyVersion_frame [OF assms] VerifyVersion_known_os [OF assms] by simp_all

lemma handle_proof_events:
  assumes "handle_proof env c = Ret (c', b)"
  shows "\<exists>srv srv' res. srp c = Some srv \<and> srp c' = Some srv' \<and>
    VerifyChallengeResponse (lib env) srv (pc_A (read_proof_c (buff c))) (pc_M1 (read_proof_c (buff c))) =
      Ret (srv', res) \<and> pending_reads c' = pending_reads c + 1 \<and>
    (if b then \<exists>K. res = Some K \<and> (conn_os c = ''Win'' \<or> conn_os c = ''OSX'') \<and>
        (\<exists>c2. VerifyVersion (lib env) (pc_A (read_proof_c (buff c))) (pc_crc_hash (read_proof_c (buff c)))
          False (c\<lparr>srp := Some srv', sessionKey := K\<rparr>) = Ret (c2, True)) \<and>
        events c' = events c @ [DbUpdate K (remote_ip env) (localizationName c) (conn_os c) (userName c),
          Sent (take buff_len (buff c'))]
     else events c' = events c @ [Sent (take buff_len (buff c'))])"
proof -
  let ?p = "read_proof_c (buff c)"
  obtain srv srv' res where srv: "srp c = Some srv"
    and ver: "VerifyChallengeResponse (lib env) srv (pc_A ?p) (pc_M1 ?p) = Ret (srv', res)"
    using assms by (auto simp: handle_proof_def Let_def split: option.splits)
  show ?thesis
  proof (cases res)
    case None
    with assms srv ver show ?thesis by (auto simp: handle_proof_def)
  next
    case (Some K)
    obtain c2 ok where vv: "VerifyVersion (lib env) (pc_A ?p) (pc_crc_hash ?p) False
        (c\<lparr>srp := Some srv', sessionKey := K\<rparr>) = Ret (c2, ok)"
      using assms srv ver Some by (auto simp: handle_proof_def Let_def)
    note frame = VerifyVersion_frame_os [OF this]
    show ?thesis
      using assms srv ver Some vv frame by (auto simp: handle_proof_def Let_def split: if_splits)
  qed
qed

text \<open>The connection as the read completion leaves it to the handler.\<close>

definition received :: "tcp_conn \<Rightarrow> bytes \<Rightarrow> tcp_conn" where
  "received c bs = c\<lparr>pending_reads := pending_reads c - 1,
     buff := take buff_len bs @ drop (length bs) (buff c)\<rparr>"

lemma received_simps [simp]:
  "srp (received c bs) = srp c" "events (received c bs) = events c" "conn_os (received c bs) = conn_os c"
  "userName (received c bs) = userName c" "localizationName (received c bs) = localizationName c"
  "pending_reads (received c bs) = pending_reads c - 1"
  "buff (received c bs) = take buff_len bs @ drop (length bs) (buff c)"
  by (simp_all add: received_def)

lemma handle_read_cases:
  "handle_read env c r =
    (case r of ReadError \<Rightarrow> Ret (c\<lparr>pending_reads := pending_reads c - 1, events := events c @ [SocketClosed]\<rparr>)
     | ReadOk bs \<Rightarrow>
         bind_outcome
           (if buff (received c bs) ! 0 = cmd_code AUTH_LOGON_CHALLENGE then handle_challenge env (received c bs)
            else if buff (received c bs) ! 0 = cmd_code AUTH_LOGON_PROOF then handle_proof env (received c bs)
            else Ret (received c bs, True))
           (\<lambda>(c2, go_on). Ret (if go_on then async_read c2 else c2)))"
  by (simp add: handle_read_def received_def Let_def split: read_result.splits)

definition is_update :: "event \<Rightarrow> bool" where
  "is_update e = (case e of DbUpdate _ _ _ _ _ \<Rightarrow> True | _ \<Rightarrow> False)"

lemma is_update_simps [simp]:
  "is_update (DbUpdate a b d e f)" "\<not> is_update (Sent x)" "\<not> is_update SocketClosed"
  by (simp_all add: is_update_def)

text \<open>
  The state machine of one connection: \<open>fresh\<close> says that a challenge is waiting for a proof; a
  proof consumes it and is the only step that records a login.
\<close>

definition fresh :: "tcp_conn \<Rightarrow> bool" where
  "fresh c = (case srp c of None \<Rightarrow> False | Some srv \<Rightarrow> \<not> used srv)"

lemma verify_uses: "VerifyChallengeResponse api srv A m = Ret (srv', r) \<Longrightarrow> \<not> used srv \<and> used srv'"
  by (auto simp: VerifyChallengeResponse_def Let_def split: if_splits)

datatype step_kind = StepOther | StepChallenge | StepProof | StepLogin

definition step_kind_of :: "logon_env \<Rightarrow> tcp_conn \<Rightarrow> read_result \<Rightarrow> step_kind" where
  "step_kind_of env c r =
     (case r of ReadError \<Rightarrow> StepOther
      | ReadOk bs \<Rightarrow>
          let c1 = received c bs in
          if buff c1 ! 0 = cmd_code AUTH_LOGON_CHALLENGE then StepChallenge
          else if buff c1 ! 0 = cmd_code AUTH_LOGON_PROOF then
            (case handle_proof env c1 of Ret (c2, b) \<Rightarrow> if b then StepLogin else StepProof
             | Crash x \<Rightarrow> StepProof)
          else StepOther)"

lemma handle_read_kind:
  assumes "handle_read env c r = Ret c'"
  shows "case step_kind_of env c r of
      StepOther \<Rightarrow> srp c' = srp c \<and> (\<exists>es. events c' = events c @ es \<and> set es \<subseteq> {SocketClosed})
    | StepChallenge \<Rightarrow> \<exists>es. events c' = events c @ es \<and> list_all (\<lambda>e. \<not> is_update e) es
    | StepProof \<Rightarrow> fresh c \<and> \<not> fresh c' \<and> (\<exists>x. events c' = events c @ [Sent x])
    | StepLogin \<Rightarrow> fresh c \<and> \<not> fresh c' \<and> (\<exists>u x. events c' = events c @ [u, Sent x] \<and> is_update u)"
proof (cases r)
  case ReadError
  then show ?thesis using assms by (auto simp: handle_read_cases step_kind_of_def)
next
  case (ReadOk bs)
  let ?c = "received c bs"
  consider (ch) "buff ?c ! 0 = cmd_code AUTH_LOGON_CHALLENGE"
    | (pr) "buff ?c ! 0 \<noteq> cmd_code AUTH_LOGON_CHALLENGE" "buff ?c ! 0 = cmd_code AUTH_LOGON_PROOF"
    | (ot) "buff ?c ! 0 \<noteq> cmd_code AUTH_LOGON_CHALLENGE" "buff ?c ! 0 \<noteq> cmd_code AUTH_LOGON_PROOF"
    by blast
  then show ?thesis
  proof cases
    case ch
    then show ?thesis using assms ReadOk
      by (auto simp: handle_read_cases step_kind_of_def Let_def simp del: cmd_code.simps received_simps(7)
          dest!: handle_challenge_events split: if_splits)
  next
    case pr
    then obtain c2 b where hp: "handle_proof env ?c = Ret (c2, b)"
      and c': "c' = (if b then async_read c2 else c2)"
      using assms ReadOk by (auto simp: handle_read_cases simp del: cmd_code.simps received_simps(7))
    have kind: "step_kind_of env c r = (if b then StepLogin else StepProof)"
      using pr by (simp add: step_kind_of_def ReadOk hp Let_def del: cmd_code.simps received_simps(7))
    show ?thesis
      unfolding kind c' using handle_proof_events [OF hp]
      by (auto simp: fresh_def dest: verify_uses split: if_splits)
  next
    case ot
    then show ?thesis using assms ReadOk
      by (auto simp: handle_read_cases step_kind_of_def Let_def
          simp del: cmd_code.simps received_simps(7))
  qed
qed


subsection \<open>Properties of every run\<close>

text \<open>The steps of a run with their kinds, for a run that does not crash.\<close>

primrec run_kinds :: "(logon_env \<times> read_result) list \<Rightarrow> tcp_conn \<Rightarrow> step_kind list" where
  "run_kinds [] c = []"
| "run_kinds (r # rs) c = step_kind_of (fst r) c (snd r) #
     (case handle_read (fst r) c (snd r) of Ret c' \<Rightarrow> run_kinds rs c' | Crash x \<Rightarrow> [])"

lemma run_accounting:
  assumes "conn_run rs c = Ret c'"
  shows "length (filter is_update (events c')) =
      length (filter is_update (events c)) + count_list (run_kinds rs c) StepLogin \<and>
    count_list (run_kinds rs c) StepLogin + count_list (run_kinds rs c) StepProof + (if fresh c' then 1 else 0)
      \<le> count_list (run_kinds rs c) StepChallenge + (if fresh c then 1 else 0)"
  using assms
proof (induction rs arbitrary: c)
  case (Cons r rs)
  then obtain c1 where c1: "handle_read (fst r) c (snd r) = Ret c1" and run: "conn_run rs c1 = Ret c'"
    by auto
  have no_upd: "list_all (\<lambda>e. \<not> is_update e) es \<Longrightarrow> filter is_update es = []" for es
    by (simp add: list_all_iff filter_empty_conv)
  have closed: "set es \<subseteq> {SocketClosed} \<Longrightarrow> filter is_update es = []" for es
    by (auto simp: filter_empty_conv)
  show ?case
    using Cons.IH [OF run] handle_read_kind [OF c1] c1
    by (cases "step_kind_of (fst r) c (snd r)") (auto simp: no_upd closed fresh_def split: if_splits)
qed simp

text \<open>
  C6. Logins are bounded by challenges: along every run of a connection that does not crash, each
  recorded login is one accepted proof, and the proofs that were checked, accepted or not, are at
  most as many as the challenge packets that came before. A challenge can be tried once.
\<close>

theorem logon_one_proof_per_challenge:
  assumes "conn_run rs (conn_start (conn_new mem wh mh)) = Ret c"
  shows "length (filter is_update (events c)) =
      count_list (run_kinds rs (conn_start (conn_new mem wh mh))) StepLogin \<and>
    count_list (run_kinds rs (conn_start (conn_new mem wh mh))) StepLogin +
    count_list (run_kinds rs (conn_start (conn_new mem wh mh))) StepProof
      \<le> count_list (run_kinds rs (conn_start (conn_new mem wh mh))) StepChallenge"
  using run_accounting [OF assms] by (simp add: fresh_def conn_start_def conn_new_def split: if_splits)

text \<open>A whole login: one challenge, one accepted proof, one update.\<close>

theorem logon_one_proof_per_challenge_witness:
  "\<exists>c q rs. rs = [(sample_env, ReadOk (encode_challenge_c sample_challenge)), (sample_env, ReadOk (encode_proof_c q))] \<and>
    conn_run rs (conn_start (conn_new (replicate 1024 0) [] [])) = Ret c \<and>
    count_list (run_kinds rs (conn_start (conn_new (replicate 1024 0) [] []))) StepLogin = 1"
proof -
  let ?c = "conn_start (conn_new (replicate 1024 0) [] [])"
  have row: "select_account sample_env (chars (cc_I sample_challenge)) = Some sample_row"
    by (simp add: sample_facts)
  have salt: "length (row_salt sample_row) = 32"
    "list_all (\<lambda>b. b = 0) (dropWhile (\<lambda>b. b \<noteq> 0) (row_salt sample_row))"
    using sample_salt by (simp_all add: sample_facts)
  from logon_session_run [OF ossl_ref_ok sample_facts(3) sample_facts(3) sample_facts(1,2) row salt
      sample_row_verifier sample_facts(6), of "replicate 1024 0" "[]" "[]" 9]
  obtain c1 c2 reply q K answer where
    c: "handle_read sample_env ?c (ReadOk (encode_challenge_c sample_challenge)) = Ret c1"
      "handle_read sample_env c1 (ReadOk (encode_proof_c q)) = Ret c2"
    and ev: "events c2 = [Sent reply,
      DbUpdate K (remote_ip sample_env) (chars (rev (cc_country sample_challenge))) ''Win'' (row_username sample_row), Sent answer]"
    by blast
  let ?rs = "[(sample_env, ReadOk (encode_challenge_c sample_challenge)), (sample_env, ReadOk (encode_proof_c q))]"
  have run: "conn_run ?rs ?c = Ret c2" using c by simp
  have "length (filter is_update (events c2)) = 1" by (simp add: ev)
  with logon_one_proof_per_challenge [OF run] have "count_list (run_kinds ?rs ?c) StepLogin = 1" by presburger
  with run show ?thesis by blast
qed

text \<open>
  C5. No login without proof: whenever a step records a login, a challenge was waiting on the
  connection, the proof in the packet is the one proof of the stored key, the client's public
  value is not a multiple of the modulus, and the operating system is one of the two with a
  version seed. The name, locale and system are the ones the challenge stored.
\<close>

theorem logon_update_justified:
  assumes "ossl_ok (lib env)" and "handle_read env c (ReadOk bs) = Ret c'"
    and "events c' = events c @ es" and "DbUpdate K ip loc os user \<in> set es"
    and "srp c = Some srv" and "0 \<le> srp_b srv" and "0 \<le> srp_v srv"
  shows "\<exists>p. p = read_proof_c (buff (received c bs)) \<and> \<not> used srv \<and>
    int (le_value (pc_A p)) mod N_val \<noteq> 0 \<and>
    K = key_of (lib env) (server_premaster (lib env) srv (pc_A p)) \<and>
    pc_M1 p = server_proof (lib env) srv (pc_A p) K \<and> ip = remote_ip env \<and> user = userName c \<and>
    loc = localizationName c \<and> os = conn_os c \<and> (os = ''Win'' \<or> os = ''OSX'')"
proof -
  let ?p = "read_proof_c (buff (received c bs))"
  have upd: "is_update (DbUpdate K ip loc os user)" by simp
  have login: "step_kind_of env c (ReadOk bs) = StepLogin"
    using handle_read_kind [OF assms(2)] assms(3,4) upd
    by (cases "step_kind_of env c (ReadOk bs)") (auto simp: list_all_iff simp del: is_update_simps(1))
  then obtain c2 where hp: "handle_proof env (received c bs) = Ret (c2, True)"
    by (auto simp: step_kind_of_def Let_def split: if_splits outcome.splits prod.splits)
  have c': "c' = async_read c2"
    using assms(2) login hp
    by (auto simp: handle_read_cases step_kind_of_def Let_def simp del: cmd_code.simps received_simps(7)
        split: if_splits)
  obtain srv' K' where v: "VerifyChallengeResponse (lib env) srv (pc_A ?p) (pc_M1 ?p) = Ret (srv', Some K')"
    and os: "conn_os c = ''Win'' \<or> conn_os c = ''OSX''"
    and ev: "events c2 = events c @ [DbUpdate K' (remote_ip env) (localizationName c) (conn_os c) (userName c),
          Sent (take buff_len (buff c2))]"
    using handle_proof_events [OF hp] assms(5) by auto
  have eq: "K = K'" "ip = remote_ip env" "loc = localizationName c" "os = conn_os c" "user = userName c"
    using ev assms(3,4) c' by auto
  show ?thesis
    using v os by (auto simp: eq VerifyChallengeResponse_eq [OF assms(1,6,7)] Let_def split: if_splits)
qed


theorem logon_update_justified_witness:
  "\<exists>(srv :: srp6) K (c :: tcp_conn) (p :: proof_c). srp c = Some srv \<and> K = key_of ossl_ref (server_premaster ossl_ref srv (pc_A p)) \<and>
    pc_M1 p = server_proof ossl_ref srv (pc_A p) K"
proof -
  obtain srv ver where srv: "srp6_new ossl_ref [5, 6] ''TEST'' (replicate 32 1) ver = Ret srv"
    and v: "VerifyChallengeResponse ossl_ref srv (client_A 9)
        (client_proof ossl_ref ''TEST'' ''PW'' (replicate 32 1) (srp_B srv) 9) =
      Ret (srv\<lparr>used := True\<rparr>, Some (client_key ossl_ref ''TEST'' ''PW'' (replicate 32 1) (srp_B srv) 9))"
    using srp6_agree [OF ossl_ref_ok] by blast
  have pos: "0 \<le> srp_b srv" "0 \<le> srp_v srv" using srp6_new_pos [OF ossl_ref_ok srv] by simp_all
  have B: "length (srp_B srv) = 32" using srp6_new_B [OF ossl_ref_ok srv] by simp
  define c where "c = (conn_new [] [] [])\<lparr>srp := Some srv, conn_os := ''Win''\<rparr>"
  define reply where "reply = replicate 3 0 @ srp_B srv @ replicate 35 0 @ replicate 32 (1 :: byte)"
  have r: "substr reply 3 32 = srp_B srv" "substr reply 70 32 = replicate 32 1"
    by (simp_all add: reply_def substr_def B)
  define p where "p = client_packet ossl_ref ''TEST'' ''PW'' 9 reply"
  have "VerifyChallengeResponse (lib sample_env) srv (pc_A p) (pc_M1 p) =
      Ret (srv\<lparr>used := True\<rparr>, Some (client_key ossl_ref ''TEST'' ''PW'' (replicate 32 1) (srp_B srv) 9))"
    using v by (simp add: p_def client_packet_def Let_def r sample_facts)
  from login_proof_step [OF _ _ _ _ this sample_facts(6), of c "''TEST''" "''PW''" 9 reply]
  obtain c' rest where c': "handle_read sample_env c (ReadOk (encode_proof_c p)) = Ret c'"
    "events c' = events c @ [DbUpdate (client_key ossl_ref ''TEST'' ''PW'' (replicate 32 1) (srp_B srv) 9)
        (remote_ip sample_env) (localizationName c) ''Win'' (userName c), Sent rest]"
    by (auto simp: sample_facts ossl_ref_ok p_def c_def)
  have ok: "ossl_ok (lib sample_env)" and some: "srp c = Some srv"
    by (simp_all add: sample_facts ossl_ref_ok c_def)
  from logon_update_justified [OF ok c' _ some pos, OF list.set_intros(1)]
  obtain pa :: proof_c where pa: "client_key ossl_ref ''TEST'' ''PW'' (replicate 32 1) (srp_B srv) 9 =
      key_of ossl_ref (server_premaster ossl_ref srv (pc_A pa))"
    "pc_M1 pa = server_proof ossl_ref srv (pc_A pa)
      (client_key ossl_ref ''TEST'' ''PW'' (replicate 32 1) (srp_B srv) 9)"
    unfolding sample_facts(3) by (elim exE conjE) (rule that, assumption+)
  show ?thesis by (intro exI conjI) (rule some pa)+
qed

lemma VerifyVersion_known_os_Ret:
  assumes "ossl_ok api"
  shows "(\<exists>r. VerifyVersion api a prf False c = Ret r) \<longleftrightarrow> conn_os c = ''Win'' \<or> conn_os c = ''OSX''"
proof -
  have "length macCheckSumSeed = 2 * 20" by (simp add: macCheckSumSeed_def)
  then show ?thesis
    using HexStrToByteArray_eq [of macCheckSumSeed 20 False]
    by (auto simp: VerifyVersion_def winCheckSumSeed_eq sha1_of_ok [OF assms] Let_def)
qed

lemma VerifyVersion_other_os:
  "conn_os c \<noteq> ''Win'' \<Longrightarrow> conn_os c \<noteq> ''OSX'' \<Longrightarrow> VerifyVersion api a prf False c = Crash NullDeref"
  by (simp add: VerifyVersion_def Let_def)

text \<open>The version check looks at the operating system only.\<close>

lemma VerifyVersion_by_os:
  assumes "conn_os c = conn_os c'"
  shows "(\<exists>c2. VerifyVersion api a prf False c = Ret (c2, b)) = (\<exists>c2. VerifyVersion api a prf False c' = Ret (c2, b))"
  using assms by (auto simp: VerifyVersion_def Let_def)

lemma handle_proof_crash:
  assumes "ossl_ok (lib env)" and "srp c = Some srv" and "\<not> used srv" and "p = read_proof_c (buff c)"
    and "VerifyChallengeResponse (lib env) srv (pc_A p) (pc_M1 p) = Ret (srv', res)"
  shows "handle_proof env c = Crash x \<longleftrightarrow> res \<noteq> None \<and>
    (x = NullDeref \<and> conn_os c \<noteq> ''Win'' \<and> conn_os c \<noteq> ''OSX'' \<or>
     x = Thrown ''boost::system::system_error'' \<and> peer_gone env \<and>
       (\<exists>c2. VerifyVersion (lib env) (pc_A p) (pc_crc_hash p) False c = Ret (c2, True)))"
proof (cases res)
  case None
  then show ?thesis using assms(2,5) by (simp add: handle_proof_def Let_def assms(4))
next
  case (Some K)
  let ?c = "c\<lparr>srp := Some srv', sessionKey := K\<rparr>"
  have p: "read_proof_c (buff c) = p" by (simp only: assms(4))
  show ?thesis
  proof (cases "conn_os c = ''Win'' \<or> conn_os c = ''OSX''")
    case True
    then obtain c2 ok where vv: "VerifyVersion (lib env) (pc_A p) (pc_crc_hash p) False ?c = Ret (c2, ok)"
      using VerifyVersion_known_os_Ret [OF assms(1), of "pc_A p" "pc_crc_hash p" ?c] by auto
    then have ok: "(\<exists>c2. VerifyVersion (lib env) (pc_A p) (pc_crc_hash p) False c = Ret (c2, True)) = ok"
      using VerifyVersion_by_os [of c ?c "lib env" "pc_A p" "pc_crc_hash p" True] by auto
    have "handle_proof env c = Crash x \<longleftrightarrow> ok \<and> peer_gone env \<and> x = Thrown ''boost::system::system_error''"
      using vv by (auto simp: handle_proof_def Let_def p assms(2,5) Some get_session_verifier_def
          sha1_of_ok [OF assms(1)] GetRemoteIpAddress_def)
    with True Some ok show ?thesis by auto
  next
    case False
    then have "handle_proof env c = Crash NullDeref"
      by (simp add: handle_proof_def Let_def p assms(2,5) Some VerifyVersion_other_os)
    with False Some show ?thesis by (auto simp: VerifyVersion_other_os)
  qed
qed

text \<open>
  C25. A remote client can take the server down with a proof packet, in exactly four ways: one before
  any challenge dereferences an empty optional; a second one for the same challenge fails the
  assertion that a challenge is used once; a right one after a challenge that named another operating
  system dereferences the null version hash; and a right one with the right version, from a client
  that has closed its connection before the packet is handled, makes \<open>remote_endpoint\<close> throw, which
  nothing catches. Every other proof packet is answered.
\<close>

theorem logon_remote_crashes:
  assumes "ossl_ok (lib env)" and "buff (received c bs) ! 0 = cmd_code AUTH_LOGON_PROOF"
    and "p = read_proof_c (buff (received c bs))"
    and "pred_option (\<lambda>srv. 0 \<le> srp_b srv \<and> 0 \<le> srp_v srv) (srp c)"
  shows "handle_read env c (ReadOk bs) = Crash x \<longleftrightarrow>
    (case srp c of
       None \<Rightarrow> x = NullDeref
     | Some srv \<Rightarrow>
         if used srv then x = AssertFail ''used only once''
         else (\<exists>srv' K. VerifyChallengeResponse (lib env) srv (pc_A p) (pc_M1 p) = Ret (srv', Some K)) \<and>
           (x = NullDeref \<and> conn_os c \<noteq> ''Win'' \<and> conn_os c \<noteq> ''OSX'' \<or>
            x = Thrown ''boost::system::system_error'' \<and> peer_gone env \<and>
              (\<exists>c2. VerifyVersion (lib env) (pc_A p) (pc_crc_hash p) False c = Ret (c2, True))))"
proof -
  have step: "handle_read env c (ReadOk bs) = bind_outcome (handle_proof env (received c bs))
      (\<lambda>(c2, go_on). Ret (if go_on then async_read c2 else c2))"
    using assms(2) by (simp add: handle_read_cases del: received_simps(7))
  have crash: "handle_read env c (ReadOk bs) = Crash x \<longleftrightarrow> handle_proof env (received c bs) = Crash x"
    unfolding step by (cases "handle_proof env (received c bs)") auto
  show ?thesis
  proof (cases "srp c")
    case None
    then show ?thesis by (auto simp: crash handle_proof_def Let_def)
  next
    case (Some srv)
    show ?thesis
    proof (cases "used srv")
      case True
      then show ?thesis using Some by (auto simp: crash handle_proof_def VerifyChallengeResponse_def Let_def)
    next
      case False
      obtain srv' res where v: "VerifyChallengeResponse (lib env) srv (pc_A p) (pc_M1 p) = Ret (srv', res)"
        using VerifyChallengeResponse_eq [OF assms(1), of srv "pc_A p" "pc_M1 p"] assms(4) Some False
        by (auto simp: Let_def split: if_splits)
      note os = VerifyVersion_by_os [of "received c bs" c "lib env" "pc_A p" "pc_crc_hash p" True, simplified]
      show ?thesis
        using handle_proof_crash [OF assms(1) _ False assms(3) v, of x] Some False v os
        by (auto simp: crash simp del: received_simps(7))
    qed
  qed
qed

theorem logon_remote_crashes_witness:
  "handle_read sample_env (conn_start (conn_new (replicate 1024 0) [] [])) (ReadOk [1]) = Crash NullDeref"
proof -
  let ?c = "conn_start (conn_new (replicate 1024 0) [] [])"
  have "ossl_ok (lib sample_env)" "buff (received ?c [1]) ! 0 = cmd_code AUTH_LOGON_PROOF"
    "pred_option (\<lambda>srv. 0 \<le> srp_b srv \<and> 0 \<le> srp_v srv) (srp ?c)"
    by (simp_all add: sample_facts ossl_ref_ok conn_start_def conn_new_def buff_len_def)
  from logon_remote_crashes [OF this(1,2) refl this(3), of NullDeref] show ?thesis
    by (simp add: conn_start_def conn_new_def)
qed

text \<open>
  C28. The layout of the successful challenge reply, whatever the structure held before: the
  announced length of the modulus is 0 although 32 bytes follow, the security flags are the byte
  that was on the stack, and the salt on the wire is the salt of the account exactly when no
  other byte follows a zero byte in it. With any other salt the client's proof is computed from
  the wrong salt.
\<close>

theorem logon_challenge_reply_layout:
  assumes "length (srp_B srv) = 32" and "length (srp_s srv) = 32"
    and "reply = encode_challenge_s (challenge_reply fb srv)"
  shows "length reply = sizeof_challenge_s \<and> sizeof_challenge_s = 119 \<and>
    substr reply 3 32 = srp_B srv \<and> reply ! 37 = 0 \<and> substr reply 38 32 = SRP6_N \<and>
    (substr reply 70 32 = srp_s srv \<longleftrightarrow> list_all (\<lambda>b. b = 0) (dropWhile (\<lambda>b. b \<noteq> 0) (srp_s srv))) \<and>
    reply ! 118 = cs_securityFlags fb"
proof -
  have len: "length VersionChallenge = 16" by (simp add: VersionChallenge_def)
  note e = encode_challenge_reply [OF assms(1), of fb, folded assms(3)]
  have r: "reply = ([0, 0, 0] @ srp_B srv @ [1, 7]) @ 0 # N_bytes @ strncpy (srp_s srv) 32 @
      VersionChallenge @ [cs_securityFlags fb]"
    "reply = ([0, 0, 0] @ srp_B srv @ [1, 7, 0] @ N_bytes @ strncpy (srp_s srv) 32 @ VersionChallenge) @
      cs_securityFlags fb # []"
    by (simp_all add: e)
  have "length ([0, 0, 0] @ srp_B srv @ [1, 7 :: byte]) = 37" using assms(1) by simp
  then have n1: "reply ! 37 = 0" by (metis r(1) nth_append_length)
  have "length ([0, 0, 0] @ srp_B srv @ [1, 7, 0] @ N_bytes @ strncpy (srp_s srv) 32 @ VersionChallenge) = 118"
    using assms(1) len by simp
  then have n2: "reply ! 118 = cs_securityFlags fb" by (metis r(2) nth_append_length)
  have "substr reply 70 32 = strncpy (srp_s srv) 32" "substr reply 3 32 = srp_B srv"
    "substr reply 38 32 = SRP6_N"
    unfolding e using assms(1) by (simp_all add: substr_def SRP6_N_eq)
  note n1 n2 this
  then show ?thesis
    using length_encode_challenge_reply [OF assms(1), of fb] assms(2,3)
    by (simp add: strncpy_exact sizeof_challenge_s_def)
qed

theorem logon_challenge_reply_layout_witness:
  "\<exists>srv. srp_s srv = replicate 31 0 @ [1] \<and>
    substr (encode_challenge_s (challenge_reply (stack_reply sample_env) srv)) 70 32 \<noteq> srp_s srv"
proof -
  define srv where "srv = \<lparr>used = False, srp_I = [], srp_b = 0, srp_v = 0, srp_s = replicate 31 0 @ [1],
    srp_B = replicate 32 (7 :: byte)\<rparr>"
  have "length (srp_B srv) = 32" "length (srp_s srv) = 32" by (simp_all add: srv_def)
  note l = logon_challenge_reply_layout [OF this refl, of "stack_reply sample_env"]
  have "\<not> list_all (\<lambda>b. b = 0) (dropWhile (\<lambda>b. b \<noteq> (0 :: byte)) (srp_s srv))"
    by (simp add: srv_def)
  with l have "substr (encode_challenge_s (challenge_reply (stack_reply sample_env) srv)) 70 32 \<noteq> srp_s srv"
    by blast
  then show ?thesis by (intro exI [of _ srv]) (simp add: srv_def)
qed


text \<open>Buffers keep their size, and what leaves is the whole buffer.\<close>

definition io_inv :: "tcp_conn \<Rightarrow> bool" where
  "io_inv c \<longleftrightarrow> length (buff c) = buff_len \<and> data_len c \<le> sizeof_challenge_s \<and>
     list_all (\<lambda>e. case e of Sent x \<Rightarrow> length x = buff_len | _ \<Rightarrow> True) (events c)"

lemma io_inv_send:
  assumes "io_inv c" and "n \<le> length src" and "n \<le> sizeof_challenge_s"
  shows "io_inv (handle_write (fill_reply src n c))"
proof -
  have "n \<le> buff_len" using assms(3) by (simp add: sizeof_challenge_s_def buff_len_def)
  then have "length (take n src @ drop n (buff c)) = buff_len"
    using assms(1,2) by (simp add: io_inv_def)
  then show ?thesis using assms(1,3) by (simp add: io_inv_def)
qed

lemma io_inv_upd [simp]:
  "io_inv (c\<lparr>pending_reads := n\<rparr>) = io_inv c" "io_inv (c\<lparr>srp := s\<rparr>) = io_inv c"
  "io_inv (c\<lparr>conn_os := v\<rparr>) = io_inv c" "io_inv (c\<lparr>userName := v\<rparr>) = io_inv c"
  "io_inv (c\<lparr>localizationName := v\<rparr>) = io_inv c" "io_inv (c\<lparr>sessionKey := k\<rparr>) = io_inv c"
  "io_inv (c\<lparr>windowsHash := k\<rparr>) = io_inv c" "io_inv (c\<lparr>macHash := k\<rparr>) = io_inv c"
  "io_inv (async_read c) = io_inv c"
  by (simp_all add: io_inv_def)

lemma io_inv_received: "io_inv c \<Longrightarrow> io_inv (received c bs)"
  by (simp add: io_inv_def received_def min_def)

lemma io_inv_event: "io_inv c \<Longrightarrow> is_update e \<Longrightarrow> io_inv (c\<lparr>events := events c @ [e]\<rparr>)"
  by (cases e) (simp_all add: io_inv_def)

lemma VerifyVersion_io_inv:
  assumes "VerifyVersion api a prf rc c = Ret (c', b)"
  shows "io_inv c' = io_inv c"
  using assms by (auto simp: VerifyVersion_def Let_def split: if_splits)

lemma handle_challenge_io_inv:
  assumes "ossl_ok (lib env)" and "handle_challenge env c = Ret (c', b)" and "io_inv c"
  shows "io_inv c'"
  using assms
  by (auto simp: handle_challenge_def Let_def srp6_new_B length_encode_challenge_reply sizeof_challenge_s_def
      intro!: io_inv_send split: if_splits option.splits)

lemma handle_proof_io_inv:
  assumes "ossl_ok (lib env)" and "handle_proof env c = Ret (c', b)" and "io_inv c"
  shows "io_inv c'"
proof -
  have M2: "length (encode_proof_s \<lparr>ps_cmd = x, ps_error = y, ps_M2 = M2, ps_accountFlags = f, ps_surveyId = s,
      ps_unkFlags = u\<rparr>) = sizeof_proof_s" if "get_session_verifier (lib env) A M K = Ret M2" for x y f s u A M K M2
    using that assms(1)
    by (intro length_encode_proof_s) (auto simp: get_session_verifier_def sha1_of_ok ossl_okD(16))
  show ?thesis
    using assms
    by (auto simp: handle_proof_def Let_def M2 sizeof_challenge_s_def sizeof_proof_s_def VerifyVersion_io_inv
        intro!: io_inv_send io_inv_event split: if_splits option.splits)
qed

lemma handle_read_io_inv:
  assumes "ossl_ok (lib env)" and "handle_read env c r = Ret c'" and "io_inv c"
  shows "io_inv c'"
proof (cases r)
  case ReadError
  then show ?thesis using assms(2,3) by (auto simp: handle_read_cases io_inv_def)
next
  case (ReadOk bs)
  then show ?thesis
    using assms(2) io_inv_received [OF assms(3)] handle_challenge_io_inv [OF assms(1)]
      handle_proof_io_inv [OF assms(1)]
    by (auto simp: handle_read_cases simp del: received_simps(7) cmd_code.simps split: if_splits)
qed

lemma conn_run_io_inv:
  "list_all (\<lambda>r. ossl_ok (lib (fst r))) rs \<Longrightarrow> conn_run rs c = Ret c' \<Longrightarrow> io_inv c \<Longrightarrow> io_inv c'"
  by (induction rs arbitrary: c) (auto dest: handle_read_io_inv)

text \<open>
  C30. Whatever a client sends, every packet the server sends is the whole receive buffer of 1024
  bytes, although the reply it just put into the buffer is never longer than 119 bytes: the rest
  is what the client sent before, or what the memory held when the connection was made.
\<close>

theorem logon_sends_whole_buffer:
  assumes "length mem = buff_len" and "list_all (\<lambda>r. ossl_ok (lib (fst r))) rs"
    and "conn_run rs (conn_start (conn_new mem wh mh)) = Ret c" and "Sent x \<in> set (events c)"
  shows "length x = 1024 \<and> data_len c \<le> 119"
proof -
  have "io_inv (conn_start (conn_new mem wh mh))"
    using assms(1) by (simp add: io_inv_def conn_start_def conn_new_def)
  from conn_run_io_inv [OF assms(2,3) this] assms(4) show ?thesis
    by (auto simp: io_inv_def list_all_iff buff_len_def sizeof_challenge_s_def)
qed

lemma sample_unknown_account:
  "\<exists>c x. conn_run [(sample_env\<lparr>select_account := \<lambda>_. None\<rparr>, ReadOk (encode_challenge_c sample_challenge))]
     (conn_start (conn_new (replicate 1024 2) [] [])) = Ret c \<and> Sent x \<in> set (events c)"
proof -
  let ?env = "sample_env\<lparr>select_account := \<lambda>_. None\<rparr>" and ?c = "conn_start (conn_new (replicate 1024 2) [] [])"
  let ?e = "encode_challenge_c sample_challenge"
  have len: "length ?e = 38"
    using length_encode_challenge_c [OF sample_facts(1)] by (simp add: sample_challenge_def)
  have b: "buff (received ?c ?e) = ?e @ drop 38 (buff ?c)" by (simp add: len buff_len_def)
  have first: "cc_cmd sample_challenge = cmd_code AUTH_LOGON_CHALLENGE" by (simp add: sample_challenge_def)
  have name: "[char_of 87, char_of 105, char_of 110] = ''Win''"
    "[char_of 122, char_of 104, char_of 67, char_of 78] = ''zhCN''"
    by (simp_all add: char_of_eq_iff)
  have "handle_challenge ?env (received ?c ?e) = Ret (handle_write (fill_reply
      [cmd_code AUTH_LOGON_CHALLENGE, 0, WOW_FAIL_UNKNOWN_ACCOUNT] 3 ((received ?c ?e)
        \<lparr>conn_os := ''Win'', localizationName := ''zhCN''\<rparr>)), False)"
    using size_matches_wf [OF sample_facts(1)]
    by (simp add: handle_challenge_def b read_encode_challenge_c [OF sample_facts(1)] Let_def
        del: cmd_code.simps received_simps(7))
      (simp add: sample_challenge_def chars_def name upt_rec)
  then have "handle_read ?env ?c (ReadOk ?e) = Ret (handle_write (fill_reply
      [cmd_code AUTH_LOGON_CHALLENGE, 0, WOW_FAIL_UNKNOWN_ACCOUNT] 3 ((received ?c ?e)
        \<lparr>conn_os := ''Win'', localizationName := ''zhCN''\<rparr>)))"
    by (simp add: handle_read_cases b first del: received_simps(7) cmd_code.simps)
  then show ?thesis by (simp, blast)
qed

theorem logon_sends_whole_buffer_witness:
  "\<exists>c x. conn_run [(sample_env\<lparr>select_account := \<lambda>_. None\<rparr>, ReadOk (encode_challenge_c sample_challenge))]
     (conn_start (conn_new (replicate 1024 2) [] [])) = Ret c \<and> Sent x \<in> set (events c) \<and> length x = 1024"
proof -
  obtain c x where c: "conn_run [(sample_env\<lparr>select_account := \<lambda>_. None\<rparr>,
      ReadOk (encode_challenge_c sample_challenge))] (conn_start (conn_new (replicate 1024 2) [] [])) = Ret c"
    and x: "Sent x \<in> set (events c)"
    using sample_unknown_account by blast
  have "length (replicate 1024 2 :: bytes) = buff_len"
    "list_all (\<lambda>r. ossl_ok (lib (fst r))) [(sample_env\<lparr>select_account := \<lambda>_. None\<rparr>,
      ReadOk (encode_challenge_c sample_challenge))]"
    by (simp_all add: buff_len_def sample_facts ossl_ref_ok)
  from logon_sends_whole_buffer [OF this c x] c x show ?thesis by blast
qed


subsection \<open>The service (CMyService)\<close>

text \<open>
  The acceptor and its threads. \<open>accepts\<close> counts the outstanding \<open>async_accept\<close> calls,
  \<open>connections\<close> the connections that were started. A thread that was joined is no longer
  joinable, and joining it again throws.
\<close>

datatype thread_state = Running | Joined

record service =
  listen_addr :: string
  listen_port :: int
  io_stopped :: bool
  accepts :: nat
  thread_count :: nat
  threads :: "thread_state list"
  connections :: "tcp_conn list"

definition start_accept :: "service \<Rightarrow> service" where
  "start_accept s = s\<lparr>accepts := accepts s + 1\<rparr>"

text \<open>
  The endpoint is made from the protocol and the port: \<open>strIP\<close> is not used. \<open>listens\<close>: the acceptor can be
  opened, bound to the port and set to listen; otherwise, as with a port that is in use, one of these
  calls throws.
\<close>

definition service_new :: "bool \<Rightarrow> string \<Rightarrow> int \<Rightarrow> nat \<Rightarrow> service outcome" where
  "service_new listens strIP port nThreads =
     (if \<not> listens then Crash (Thrown ''boost::system::system_error'')
      else Ret (start_accept
        \<lparr>listen_addr = ''0.0.0.0'', listen_port = port, io_stopped = False, accepts = 0,
         thread_count = nThreads, threads = [], connections = []\<rparr>))"

primrec spawn :: "nat \<Rightarrow> thread_state list \<Rightarrow> thread_state list" where
  "spawn 0 ts = ts"
| "spawn (Suc n) ts = spawn n (ts @ [Running])"

definition service_start :: "service \<Rightarrow> service" where
  "service_start s = s\<lparr>threads := spawn (thread_count s) (threads s)\<rparr>"

fun join_all :: "thread_state list \<Rightarrow> thread_state list outcome" where
  "join_all [] = Ret []"
| "join_all (Running # ts) = bind_outcome (join_all ts) (\<lambda>ts'. Ret (Joined # ts'))"
| "join_all (Joined # ts) = Crash (Thrown ''std::system_error'')"

definition service_stop :: "service \<Rightarrow> service outcome" where
  "service_stop s =
     bind_outcome (join_all (threads s)) (\<lambda>ts. Ret (s\<lparr>io_stopped := True, threads := ts\<rparr>))"

definition service_destroy :: "service \<Rightarrow> unit outcome" where
  "service_destroy s = bind_outcome (service_stop s) (\<lambda>_. Ret ())"

definition handle_accept :: "bool \<Rightarrow> tcp_conn \<Rightarrow> service \<Rightarrow> service" where
  "handle_accept ok newConnect s =
     (let s1 = start_accept (s\<lparr>accepts := accepts s - 1\<rparr>) in
      if ok then s1\<lparr>connections := connections s1 @ [conn_start newConnect]\<rparr> else s1)"

lemma spawn_eq: "spawn n ts = ts @ replicate n Running"
  by (induction n arbitrary: ts) (simp_all add: replicate_app_Cons_same)

fun_cases join_all_RetE: "join_all ts = Ret ts'"

text \<open>Joining succeeds only when no thread was joined before.\<close>

lemma join_all_Ret: "join_all ts = Ret ts' \<Longrightarrow> list_all (\<lambda>t. t = Running) ts \<and> ts' = replicate (length ts) Joined"
proof (induction ts arbitrary: ts')
  case (Cons t ts)
  from Cons.prems show ?case
    by (rule join_all_RetE) (auto dest: Cons.IH dest!: sym [of "Ret ts'"])
qed simp

lemma join_all_running: "join_all (replicate n Running) = Ret (replicate n Joined)"
  by (induction n) auto

lemma service_stop_once:
  assumes "service_stop s = Ret s'" and "threads s \<noteq> []"
  shows "service_stop s' = Crash (Thrown ''std::system_error'')"
proof -
  obtain n where "length (threads s) = Suc n" using assms(2) by (cases "threads s") auto
  with assms(1) have "threads s' = Joined # replicate n Joined"
    by (auto simp: service_stop_def dest!: join_all_Ret)
  then show ?thesis by (simp add: service_stop_def)
qed

fun accept_all :: "(bool \<times> tcp_conn) list \<Rightarrow> service \<Rightarrow> service" where
  "accept_all [] s = s"
| "accept_all ((ok, c) # as) s = accept_all as (handle_accept ok c s)"

lemma accept_all_frame:
  "0 < accepts s \<Longrightarrow> accepts (accept_all as s) = accepts s \<and> threads (accept_all as s) = threads s \<and>
   thread_count (accept_all as s) = thread_count s \<and> listen_addr (accept_all as s) = listen_addr s \<and>
   length (connections (accept_all as s)) = length (connections s) + length (filter fst as)"
  by (induction as s rule: accept_all.induct)
    (auto simp: handle_accept_def start_accept_def Let_def)

lemma service_life:
  "\<exists>s0 s. service_new True ip port (Suc n) = Ret s0 \<and> service_stop (accept_all as (service_start s0)) = Ret s \<and>
     listen_addr s = ''0.0.0.0'' \<and> accepts s = 1 \<and>
     length (connections s) = length (filter fst as) \<and>
     threads s = replicate (Suc n) Joined \<and>
     service_destroy s = Crash (Thrown ''std::system_error'')"
proof -
  obtain s0 where s0: "service_new True ip port (Suc n) = Ret s0" by (simp add: service_new_def)
  let ?s = "service_start s0"
  have s: "threads ?s = replicate (Suc n) Running" "accepts ?s = 1" "listen_addr ?s = ''0.0.0.0''"
    "connections ?s = []"
    using s0 by (auto simp: service_start_def service_new_def start_accept_def spawn_eq simp del: spawn.simps)
  then have a: "threads (accept_all as ?s) = replicate (Suc n) Running"
    using accept_all_frame [of ?s as] by simp
  have "service_stop (accept_all as ?s) =
      Ret ((accept_all as ?s)\<lparr>io_stopped := True, threads := replicate (Suc n) Joined\<rparr>)"
    unfolding service_stop_def a join_all_running by simp
  moreover from this have "service_destroy ((accept_all as ?s)\<lparr>io_stopped := True, threads := replicate (Suc n) Joined\<rparr>)
      = Crash (Thrown ''std::system_error'')"
    by (simp add: service_destroy_def service_stop_once a)
  moreover have "accepts (accept_all as ?s) = 1" "listen_addr (accept_all as ?s) = ''0.0.0.0''"
    "length (connections (accept_all as ?s)) = length (filter fst as)"
    using accept_all_frame [of ?s as] s by simp_all
  ultimately show ?thesis using s0 by (intro exI conjI) (assumption | simp)+
qed

text \<open>
  The life of the service, once it listens, as \<open>main\<close> runs it: start, any number of accepts, stop, destructor.
  It listens on every address whatever address was configured, keeps exactly one accept
  outstanding, the stop joins every thread, and the destructor's second stop then throws out of a
  destructor: the process never ends normally.
\<close>

theorem service_shutdown_throws:
  "\<exists>s0 s. service_new True ip port (Suc n) = Ret s0 \<and> service_stop (accept_all as (service_start s0)) = Ret s \<and>
     listen_addr s = ''0.0.0.0'' \<and> accepts s = 1 \<and>
     length (connections s) = length (filter fst as) \<and>
     threads s = replicate (Suc n) Joined \<and>
     service_destroy s = Crash (Thrown ''std::system_error'')"
  by (rule service_life)

end
