(* ===== verification/Prepared.thy ===== *)
theory Prepared
  imports Text_Util
begin

section \<open>Prepared statements (PreparedStatement.h/.cpp, MySQLPreparedStatement.h/.cpp)\<close>

text \<open>
  The parameters a caller sets, the statement object that carries them, and the client-side
  statement that lays them out for the MySQL library. A number is laid out least significant
  byte first. Floating point values are their bytes; how \<open>fmt\<close> prints one is a parameter.
\<close>

subsection \<open>Parameters\<close>

datatype param = PBool bool
  | PU8 uint8 | PU16 uint16 | PU32 uint32 | PU64 uint64
  | PI8 uint8 | PI16 uint16 | PI32 uint32 | PI64 uint64
  | PFloat bytes | PDouble bytes
  | PString string | PBinary bytes | PNull

text \<open>\<open>PreparedStatementData::ToString\<close>.\<close>

definition param_ToString :: "(bytes \<Rightarrow> string) \<Rightarrow> param \<Rightarrow> string" where
  "param_ToString fmt_float p =
     (case p of
        PBool b \<Rightarrow> (if b then ''true'' else ''false'')
      | PU8 w \<Rightarrow> dec_digits (unat w) | PU16 w \<Rightarrow> dec_digits (unat w)
      | PU32 w \<Rightarrow> dec_digits (unat w) | PU64 w \<Rightarrow> dec_digits (unat w)
      | PI8 w \<Rightarrow> dec_int (sint w) | PI16 w \<Rightarrow> dec_int (sint w)
      | PI32 w \<Rightarrow> dec_int (sint w) | PI64 w \<Rightarrow> dec_int (sint w)
      | PFloat bs \<Rightarrow> fmt_float bs | PDouble bs \<Rightarrow> fmt_float bs
      | PString s \<Rightarrow> s
      | PBinary bs \<Rightarrow> ''BINARY''
      | PNull \<Rightarrow> ''NULL'')"

text \<open>
  The library's column types, the ones the sources name and one for the rest, and its bind
  structure, of which only the members the program writes are kept.
\<close>

datatype field_type = MYSQL_TYPE_DECIMAL | MYSQL_TYPE_TINY | MYSQL_TYPE_SHORT | MYSQL_TYPE_LONG | MYSQL_TYPE_LONGLONG
  | MYSQL_TYPE_FLOAT | MYSQL_TYPE_DOUBLE | MYSQL_TYPE_NULL | MYSQL_TYPE_VAR_STRING | MYSQL_TYPE_BLOB
  | MYSQL_TYPE_YEAR | MYSQL_TYPE_INT24 | MYSQL_TYPE_BIT | MYSQL_TYPE_TIMESTAMP | MYSQL_TYPE_DATE
  | MYSQL_TYPE_TIME | MYSQL_TYPE_DATETIME | MYSQL_TYPE_NEWDATE | MYSQL_TYPE_TINY_BLOB
  | MYSQL_TYPE_MEDIUM_BLOB | MYSQL_TYPE_LONG_BLOB | MYSQL_TYPE_STRING | MYSQL_TYPE_NEWDECIMAL
  | MYSQL_TYPE_GEOMETRY | MYSQL_TYPE_ENUM | MYSQL_TYPE_SET | MYSQL_TYPE_OTHER

record mysql_bind =
  buffer_type :: field_type
  bind_buffer :: "bytes option"
  buffer_length :: nat
  is_null_value :: bool
  bind_length :: "nat option"
  is_unsigned :: bool

text \<open>The bind after \<open>memset\<close> to 0; type 0 is \<open>MYSQL_TYPE_DECIMAL\<close>.\<close>

definition bind_zero :: mysql_bind where
  "bind_zero = \<lparr>buffer_type = MYSQL_TYPE_DECIMAL, bind_buffer = None, buffer_length = 0, is_null_value = False,
     bind_length = None, is_unsigned = False\<rparr>"

record my_stmt =
  ms_paramCount :: nat
  ms_paramsSet :: "bool list"
  ms_bind :: "mysql_bind list"
  ms_queryString :: string

definition my_stmt_new :: "nat \<Rightarrow> string \<Rightarrow> my_stmt" where
  "my_stmt_new paramCount queryString = \<lparr>ms_paramCount = paramCount, ms_paramsSet = replicate paramCount False,
     ms_bind = replicate paramCount bind_zero, ms_queryString = queryString\<rparr>"

text \<open>\<open>PreparedStatementBase\<close>; a fresh one has the default of the variant, false, in every place.\<close>

record stmt =
  st_index :: nat
  statement_data :: "param list"
  st_isPrepared :: bool
  st_sql :: string
  st_prepared :: "my_stmt option"

definition stmt_new :: "nat \<Rightarrow> uint8 \<Rightarrow> stmt" where
  "stmt_new index capacity = \<lparr>st_index = index, statement_data = replicate (unat capacity) (PBool False),
     st_isPrepared = False, st_sql = [], st_prepared = None\<rparr>"

definition stmt_new_prepared :: "my_stmt option \<Rightarrow> uint8 \<Rightarrow> stmt" where
  "stmt_new_prepared prepared capacity = \<lparr>st_index = 0, statement_data = replicate (unat capacity) (PBool False),
     st_isPrepared = False, st_sql = [], st_prepared = prepared\<rparr>"

definition SetValidData :: "uint8 \<Rightarrow> param \<Rightarrow> stmt \<Rightarrow> stmt outcome" where
  "SetValidData index value st =
     (if unat index < length (statement_data st)
      then Ret (st\<lparr>statement_data := (statement_data st)[unat index := value]\<rparr>)
      else Crash (AssertFail ''index < statement_data.size()''))"

text \<open>
  The overloads of \<open>SetData\<close>: values and texts are passed on, no value is a null, an array becomes a
  binary value. A duration is converted by a conditional expression between a \<open>uint32\<close> and its own
  64-bit count, whose common type is the 64-bit one, so the flag only cuts the value.
\<close>

definition SetData :: "uint8 \<Rightarrow> param \<Rightarrow> stmt \<Rightarrow> stmt outcome" where
  "SetData index value st = SetValidData index value st"

definition SetData_null :: "uint8 \<Rightarrow> stmt \<Rightarrow> stmt outcome" where
  "SetData_null index st = SetValidData index PNull st"

definition SetData_array :: "uint8 \<Rightarrow> bytes \<Rightarrow> stmt \<Rightarrow> stmt outcome" where
  "SetData_array index value st = SetValidData index (PBinary value) st"

definition SetData_duration :: "uint8 \<Rightarrow> uint64 \<Rightarrow> bool \<Rightarrow> stmt \<Rightarrow> stmt outcome" where
  "SetData_duration index ticks convertToUin32 st =
     SetValidData index (PI64 (if convertToUin32 then ucast (ucast ticks :: uint32) else ticks)) st"

text \<open>\<open>SetDataTuple\<close>: the arguments at 0, 1 and so on; the index is a \<open>uint8\<close>.\<close>

primrec set_data_from :: "uint8 \<Rightarrow> param list \<Rightarrow> stmt \<Rightarrow> stmt outcome" where
  "set_data_from index [] st = Ret st"
| "set_data_from index (p # ps) st = bind_outcome (SetValidData index p st) (set_data_from (index + 1) ps)"

definition SetArguments :: "param list \<Rightarrow> stmt \<Rightarrow> stmt outcome" where
  "SetArguments args st = set_data_from 0 args st"

definition SetParameters :: "param list \<Rightarrow> stmt \<Rightarrow> stmt" where
  "SetParameters a st = st\<lparr>statement_data := a\<rparr>"

subsection \<open>Binding\<close>

text \<open>\<open>SetParameter\<close> on the bind of one index, per overload.\<close>

definition fixed_param :: "field_type \<Rightarrow> bool \<Rightarrow> bytes \<Rightarrow> mysql_bind \<Rightarrow> mysql_bind" where
  "fixed_param ty unsgn bs b = b\<lparr>buffer_type := ty, bind_buffer := Some bs, buffer_length := 0,
     is_null_value := False, bind_length := None, is_unsigned := unsgn\<rparr>"

definition sized_param :: "field_type \<Rightarrow> bytes \<Rightarrow> mysql_bind \<Rightarrow> mysql_bind" where
  "sized_param ty bs b = b\<lparr>buffer_type := ty, bind_buffer := Some bs, buffer_length := length bs,
     is_null_value := False, bind_length := Some (length bs)\<rparr>"

definition null_param :: "mysql_bind \<Rightarrow> mysql_bind" where
  "null_param b = b\<lparr>buffer_type := MYSQL_TYPE_NULL, bind_buffer := None, buffer_length := 0,
     is_null_value := True, bind_length := None\<rparr>"

definition bind_param :: "param \<Rightarrow> mysql_bind \<Rightarrow> mysql_bind" where
  "bind_param p =
     (case p of
        PBool b \<Rightarrow> fixed_param MYSQL_TYPE_TINY True [if b then 1 else 0]
      | PU8 w \<Rightarrow> fixed_param MYSQL_TYPE_TINY True (le_bytes 1 (unat w))
      | PU16 w \<Rightarrow> fixed_param MYSQL_TYPE_SHORT True (le_bytes 2 (unat w))
      | PU32 w \<Rightarrow> fixed_param MYSQL_TYPE_LONG True (le_bytes 4 (unat w))
      | PU64 w \<Rightarrow> fixed_param MYSQL_TYPE_LONGLONG True (le_bytes 8 (unat w))
      | PI8 w \<Rightarrow> fixed_param MYSQL_TYPE_TINY False (le_bytes 1 (unat w))
      | PI16 w \<Rightarrow> fixed_param MYSQL_TYPE_SHORT False (le_bytes 2 (unat w))
      | PI32 w \<Rightarrow> fixed_param MYSQL_TYPE_LONG False (le_bytes 4 (unat w))
      | PI64 w \<Rightarrow> fixed_param MYSQL_TYPE_LONGLONG False (le_bytes 8 (unat w))
      | PFloat bs \<Rightarrow> fixed_param MYSQL_TYPE_FLOAT False bs
      | PDouble bs \<Rightarrow> fixed_param MYSQL_TYPE_DOUBLE False bs
      | PString s \<Rightarrow> sized_param MYSQL_TYPE_VAR_STRING (bytes_of s)
      | PBinary bs \<Rightarrow> sized_param MYSQL_TYPE_BLOB bs
      | PNull \<Rightarrow> null_param)"

definition SetParameter :: "uint8 \<Rightarrow> param \<Rightarrow> my_stmt \<Rightarrow> my_stmt outcome" where
  "SetParameter index p m =
     (if unat index < ms_paramCount m
      then Ret (m\<lparr>ms_paramsSet := (ms_paramsSet m)[unat index := True],
                  ms_bind := (ms_bind m)[unat index := bind_param p (ms_bind m ! unat index)]\<rparr>)
      else Crash (AssertFail ''index < m_paramCount''))"

primrec bind_from :: "uint8 \<Rightarrow> param list \<Rightarrow> my_stmt \<Rightarrow> my_stmt outcome" where
  "bind_from pos [] m = Ret m"
| "bind_from pos (p # ps) m = bind_outcome (SetParameter pos p m) (bind_from (pos + 1) ps)"

definition BindParameters :: "stmt \<Rightarrow> my_stmt \<Rightarrow> my_stmt outcome" where
  "BindParameters st m = bind_from 0 (statement_data st) m"

definition ClearParameters :: "my_stmt \<Rightarrow> my_stmt" where
  "ClearParameters m = m\<lparr>ms_bind := map (\<lambda>b. b\<lparr>bind_length := None, bind_buffer := None\<rparr>) (ms_bind m),
     ms_paramsSet := replicate (ms_paramCount m) False\<rparr>"

subsection \<open>The query text for the log\<close>

text \<open>
  \<open>replace\<close> at \<open>npos\<close>, when the text has no question mark left, throws.
\<close>

primrec query_string_loop :: "string list \<Rightarrow> string \<Rightarrow> nat \<Rightarrow> string outcome" where
  "query_string_loop [] q pos = Ret q"
| "query_string_loop (t # ts) q pos =
     (case find_char q (CHR ''?'') pos of
        None \<Rightarrow> Crash (Thrown ''std::out_of_range'')
      | Some p \<Rightarrow> query_string_loop ts (take p q @ t @ drop (p + 1) q) (p + length t))"

definition getQueryString :: "(bytes \<Rightarrow> string) \<Rightarrow> stmt \<Rightarrow> my_stmt \<Rightarrow> string outcome" where
  "getQueryString fmt_float st m =
     query_string_loop (map (param_ToString fmt_float) (statement_data st)) (ms_queryString m) 0"

subsection \<open>Lemmas\<close>

definition my_stmt_ok :: "my_stmt \<Rightarrow> bool" where
  "my_stmt_ok m \<longleftrightarrow> length (ms_bind m) = ms_paramCount m \<and> length (ms_paramsSet m) = ms_paramCount m"

lemma my_stmt_ok_new [simp]: "my_stmt_ok (my_stmt_new n q)"
  by (simp add: my_stmt_ok_def my_stmt_new_def)

lemma my_stmt_ok_clear [simp]: "my_stmt_ok m \<Longrightarrow> my_stmt_ok (ClearParameters m)"
  by (simp add: my_stmt_ok_def ClearParameters_def)

lemma bind_from_eq:
  assumes "my_stmt_ok m" and "unat pos + length ps < 256"
  shows "bind_from pos ps m =
    (if unat pos + length ps \<le> ms_paramCount m \<or> ps = []
     then Ret (m\<lparr>ms_paramsSet := take (unat pos) (ms_paramsSet m) @ replicate (length ps) True @
              drop (unat pos + length ps) (ms_paramsSet m),
            ms_bind := take (unat pos) (ms_bind m) @
              map2 bind_param ps (drop (unat pos) (ms_bind m)) @ drop (unat pos + length ps) (ms_bind m)\<rparr>)
     else Crash (AssertFail ''index < m_paramCount''))"
  using assms
proof (induction ps arbitrary: pos m)
  case (Cons p ps)
  have pos: "unat (pos + 1) = Suc (unat pos)"
    using Cons.prems(2) by (simp add: unat_word_ariths)
  show ?case
  proof (cases "unat pos < ms_paramCount m")
    case True
    let ?m = "m\<lparr>ms_paramsSet := (ms_paramsSet m)[unat pos := True],
      ms_bind := (ms_bind m)[unat pos := bind_param p (ms_bind m ! unat pos)]\<rparr>"
    have ok: "my_stmt_ok ?m" using Cons.prems(1) by (simp add: my_stmt_ok_def)
    have len: "unat pos < length (ms_bind m)" "unat pos < length (ms_paramsSet m)"
      using True Cons.prems(1) by (simp_all add: my_stmt_ok_def)
    have "bind_from pos (p # ps) m = bind_from (pos + 1) ps ?m" using True by (simp add: SetParameter_def)
    also have "\<dots> = (if Suc (unat pos) + length ps \<le> ms_paramCount ?m \<or> ps = []
     then Ret (?m\<lparr>ms_paramsSet := take (Suc (unat pos)) (ms_paramsSet ?m) @ replicate (length ps) True @
              drop (Suc (unat pos) + length ps) (ms_paramsSet ?m),
            ms_bind := take (Suc (unat pos)) (ms_bind ?m) @
              map2 bind_param ps (drop (Suc (unat pos)) (ms_bind ?m)) @ drop (Suc (unat pos) + length ps) (ms_bind ?m)\<rparr>)
     else Crash (AssertFail ''index < m_paramCount''))"
      using Cons.IH [OF ok, of "pos + 1"] Cons.prems(2) by (simp only: pos) simp
    also have "take (Suc (unat pos)) (ms_paramsSet ?m) = take (unat pos) (ms_paramsSet m) @ [True]"
      using len by (simp add: take_Suc_conv_app_nth)
    also have "take (Suc (unat pos)) (ms_bind ?m) =
        take (unat pos) (ms_bind m) @ [bind_param p (ms_bind m ! unat pos)]"
      using len by (simp add: take_Suc_conv_app_nth)
    also have "drop (Suc (unat pos)) (ms_bind ?m) = drop (Suc (unat pos)) (ms_bind m)" by simp
    finally show ?thesis
      using True len Cons.prems(1)
      by (auto simp: Cons_nth_drop_Suc [symmetric] my_stmt_ok_def)
  next
    case False
    then show ?thesis by (simp add: SetParameter_def)
  qed
qed simp


lemma BindParameters_eq:
  assumes "my_stmt_ok m" and "length (statement_data st) < 256"
  shows "BindParameters st m =
    (if length (statement_data st) \<le> ms_paramCount m
     then Ret (m\<lparr>ms_paramsSet := replicate (length (statement_data st)) True @
              drop (length (statement_data st)) (ms_paramsSet m),
            ms_bind := map2 bind_param (statement_data st) (ms_bind m) @
              drop (length (statement_data st)) (ms_bind m)\<rparr>)
     else Crash (AssertFail ''index < m_paramCount''))"
  using bind_from_eq [OF assms(1), of 0 "statement_data st"] assms
  by (auto simp: BindParameters_def)

lemma set_data_from_eq:
  assumes "unat index + length ps < 256" and "length (statement_data st) < 256"
  shows "set_data_from index ps st =
    (if unat index + length ps \<le> length (statement_data st) \<or> ps = []
     then Ret (st\<lparr>statement_data := take (unat index) (statement_data st) @ ps @
        drop (unat index + length ps) (statement_data st)\<rparr>)
     else Crash (AssertFail ''index < statement_data.size()''))"
  using assms
proof (induction ps arbitrary: index st)
  case (Cons p ps)
  have pos: "unat (index + 1) = Suc (unat index)"
    using Cons.prems(1) by (simp add: unat_word_ariths)
  show ?case
  proof (cases "unat index < length (statement_data st)")
    case True
    let ?st = "st\<lparr>statement_data := (statement_data st)[unat index := p]\<rparr>"
    have "set_data_from index (p # ps) st = set_data_from (index + 1) ps ?st"
      using True by (simp add: SetValidData_def)
    then show ?thesis
      using Cons.IH [of "index + 1" ?st] Cons.prems True
      by (auto simp: pos take_Suc_conv_app_nth)
  next
    case False
    then show ?thesis by (simp add: SetValidData_def)
  qed
qed simp

text \<open>
  Reference for the log text: the pieces of the query between the question marks, with the texts in
  the gaps; \<open>None\<close> when there are more texts than gaps.
\<close>

fun fill_gaps :: "string list \<Rightarrow> string list \<Rightarrow> string option" where
  "fill_gaps ps [] = Some (join_with (CHR ''?'') ps)"
| "fill_gaps (p # p' # ps) (t # ts) = map_option (\<lambda>s. p @ t @ s) (fill_gaps (p' # ps) ts)"
| "fill_gaps _ (t # ts) = None"

lemma find_char_append: "find_char (xs @ ys) c (length xs) = map_option (\<lambda>i. i + length xs) (index_of c ys)"
  by (simp add: find_char_def)

lemma query_string_loop_eq:
  "query_string_loop ts (done @ q) (length done) =
    (case fill_gaps (split_on (CHR ''?'') q) ts of
       None \<Rightarrow> Crash (Thrown ''std::out_of_range'') | Some s \<Rightarrow> Ret (done @ s))"
proof (induction ts arbitrary: "done" q)
  case Nil
  then show ?case by (simp add: join_with_split_on)
next
  case (Cons t ts)
  show ?case
  proof (cases "index_of (CHR ''?'') q")
    case None
    then show ?thesis by (simp add: find_char_append split_on_no_sep)
  next
    case (Some i)
    obtain p' ps where s: "split_on (CHR ''?'') (drop (Suc i) q) = p' # ps"
      by (cases "split_on (CHR ''?'') (drop (Suc i) q)") auto
    have split: "split_on (CHR ''?'') q = take i q # p' # ps"
      using split_on_index [OF Some] s by simp
    have i: "i < length q" using index_of_SomeD [OF Some] by simp
    have "query_string_loop (t # ts) (done @ q) (length done) =
        query_string_loop ts ((done @ take i q @ t) @ drop (Suc i) q) (length (done @ take i q @ t))"
      using Some i by (simp add: find_char_append add.commute min_def add.left_commute)
    also have "\<dots> = (case fill_gaps (p' # ps) ts of
       None \<Rightarrow> Crash (Thrown ''std::out_of_range'') | Some s \<Rightarrow> Ret ((done @ take i q @ t) @ s))"
      by (simp only: Cons.IH s)
    also have "\<dots> = (case fill_gaps (split_on (CHR ''?'') q) (t # ts) of
       None \<Rightarrow> Crash (Thrown ''std::out_of_range'') | Some s \<Rightarrow> Ret (done @ s))"
      by (simp only: split fill_gaps.simps, cases "fill_gaps (p' # ps) ts") simp_all
    finally show ?thesis .
  qed
qed

lemma getQueryString_eq:
  "getQueryString fmt_float st m =
    (case fill_gaps (split_on (CHR ''?'') (ms_queryString m)) (map (param_ToString fmt_float) (statement_data st)) of
       None \<Rightarrow> Crash (Thrown ''std::out_of_range'') | Some s \<Rightarrow> Ret s)"
  using query_string_loop_eq [of _ "[]"] by (simp add: getQueryString_def split: option.splits)

lemma fill_gaps_Some_iff: "ps \<noteq> [] \<Longrightarrow> fill_gaps ps ts \<noteq> None \<longleftrightarrow> length ts < length ps"
proof (induction ps ts rule: fill_gaps.induct)
  case (2 p p' ps t ts)
  then show ?case by simp
qed auto

lemma length_split_on: "length (split_on c xs) = Suc (count_list xs c)"
proof (induction xs)
  case (Cons x xs)
  then show ?case by (cases "split_on c xs") auto
qed simp

lemma getQueryString_Ret:
  "(\<exists>s. getQueryString fmt_float st m = Ret s) \<longleftrightarrow>
    length (statement_data st) \<le> count_list (ms_queryString m) (CHR ''?'')"
  using fill_gaps_Some_iff [of "split_on (CHR ''?'') (ms_queryString m)"
      "map (param_ToString fmt_float) (statement_data st)"]
  by (auto simp: getQueryString_eq length_split_on less_Suc_eq_le split: option.splits)

subsection \<open>Properties\<close>

text \<open>
  From the caller's arguments to the library's binds: setting the arguments of a new statement
  and binding them to a freshly prepared one gives each parameter the layout of its argument; a
  parameter that was not set is bound as the number 0, not as null. Too many arguments, or more
  places than the prepared statement has parameters, are assertion failures.
\<close>

theorem prepared_arguments:
  assumes "length args < 256"
  shows "if length args \<le> unat capacity
    then \<exists>st. SetArguments args (stmt_new index capacity) = Ret st \<and>
      (if unat capacity \<le> n
       then \<exists>m. BindParameters st (my_stmt_new n q) = Ret m \<and>
         (\<forall>j<n. ms_bind m ! j =
            (if j < length args then bind_param (args ! j) bind_zero
             else if j < unat capacity then fixed_param MYSQL_TYPE_TINY True [0] bind_zero
             else bind_zero))
       else BindParameters st (my_stmt_new n q) = Crash (AssertFail ''index < m_paramCount''))
    else SetArguments args (stmt_new index capacity) = Crash (AssertFail ''index < statement_data.size()'')"
proof (cases "length args \<le> unat capacity")
  case True
  have cap: "unat capacity < 256" by (rule unat_byte_less)
  define st where "st = (stmt_new index capacity)\<lparr>statement_data := args @ replicate (unat capacity - length args) (PBool False)\<rparr>"
  have set: "SetArguments args (stmt_new index capacity) = Ret st"
    using set_data_from_eq [of 0 args "stmt_new index capacity"] assms True cap
    by (auto simp: SetArguments_def stmt_new_def st_def)
  have data: "statement_data st = args @ replicate (unat capacity - length args) (PBool False)"
    and len: "length (statement_data st) = unat capacity" using True by (simp_all add: st_def)
  note b = BindParameters_eq [OF my_stmt_ok_new, of st n q] cap
  have "ms_bind (my_stmt_new n q) = replicate n bind_zero" "ms_paramCount (my_stmt_new n q) = n"
    by (simp_all add: my_stmt_new_def)
  note b = b [unfolded this len]
  have pb: "bind_param (PBool False) bind_zero = fixed_param MYSQL_TYPE_TINY True [0] bind_zero"
    by (simp add: bind_param_def)
  show ?thesis
    using True set b data len pb
    by (auto simp: nth_append)
next
  case False
  then show ?thesis
    using set_data_from_eq [of 0 args "stmt_new index capacity"] assms unat_byte_less [of capacity]
    by (auto simp: SetArguments_def stmt_new_def)
qed

theorem prepared_arguments_witness:
  "\<exists>st m. SetArguments [PString ''ab'', PNull] (stmt_new 3 (3 :: uint8)) = Ret st \<and>
     BindParameters st (my_stmt_new 3 ''x'') = Ret m \<and>
     ms_bind m ! 0 = sized_param MYSQL_TYPE_VAR_STRING (bytes_of ''ab'') bind_zero \<and>
     ms_bind m ! 2 = fixed_param MYSQL_TYPE_TINY True [0] bind_zero"
proof -
  have "length [PString ''ab'', PNull] < 256" by simp
  from prepared_arguments [OF this, of "3 :: uint8" 3 3 "''x''"] show ?thesis
    by (auto simp: bind_param_def)
qed

text \<open>
  The query text of the log is the prepared query with the printed parameters in place of its
  question marks, in order, even when a printed parameter contains a question mark; with more
  parameters than question marks the function throws.
\<close>

theorem query_text:
  "getQueryString fmt_float st m =
    (case fill_gaps (split_on (CHR ''?'') (ms_queryString m)) (map (param_ToString fmt_float) (statement_data st)) of
       None \<Rightarrow> Crash (Thrown ''std::out_of_range'') | Some s \<Rightarrow> Ret s) \<and>
   ((\<exists>s. getQueryString fmt_float st m = Ret s) \<longleftrightarrow>
     length (statement_data st) \<le> count_list (ms_queryString m) (CHR ''?''))"
  using getQueryString_eq getQueryString_Ret by blast

end
