(* ===== verification/Db_Field.thy ===== *)
theory Db_Field
  imports Prepared
begin

section \<open>Columns and their getters (Field.h/.cpp, StringConvert.h for floating point)\<close>

text \<open>
  The metadata of a column, a field that points to its value and the getters that convert it. A
  pointer is the bytes from where it points to the end of its block, so that a read past them is a
  crash. Floating point arithmetic is a parameter. The build never defines
  \<open>POOL_STRICT_DATABASE_TYPE_CHECKS\<close>, so its branches are not modelled; warnings are only printed.
\<close>

subsection \<open>Types of the program and of the library's columns\<close>

datatype db_type = TyNull | TyInt8 | TyInt16 | TyInt32 | TyInt64 | TyFloat | TyDouble | TyDecimal | TyDate | TyBinary

record lib_field =
  f_org_table :: string
  f_table :: string
  f_org_name :: string
  f_name :: string
  f_type :: field_type
  f_max_length :: nat
  f_unsigned :: bool

record metadata =
  TableName :: string
  TableAlias :: string
  ColName :: string
  Alias :: string
  TypeName :: string
  ColIndex :: nat
  ColType :: db_type

text \<open>\<open>sizeof(MYSQL_TIME)\<close> is the library's.\<close>

definition SizeForType :: "uint32 \<Rightarrow> lib_field \<Rightarrow> uint32" where
  "SizeForType time_size fld =
     (case f_type fld of
        MYSQL_TYPE_NULL \<Rightarrow> 0
      | MYSQL_TYPE_TINY \<Rightarrow> 1
      | MYSQL_TYPE_YEAR \<Rightarrow> 2 | MYSQL_TYPE_SHORT \<Rightarrow> 2
      | MYSQL_TYPE_INT24 \<Rightarrow> 4 | MYSQL_TYPE_LONG \<Rightarrow> 4 | MYSQL_TYPE_FLOAT \<Rightarrow> 4
      | MYSQL_TYPE_DOUBLE \<Rightarrow> 8 | MYSQL_TYPE_LONGLONG \<Rightarrow> 8 | MYSQL_TYPE_BIT \<Rightarrow> 8
      | MYSQL_TYPE_TIMESTAMP \<Rightarrow> time_size | MYSQL_TYPE_DATE \<Rightarrow> time_size
      | MYSQL_TYPE_TIME \<Rightarrow> time_size | MYSQL_TYPE_DATETIME \<Rightarrow> time_size
      | MYSQL_TYPE_TINY_BLOB \<Rightarrow> word_of_nat (f_max_length fld + 1)
      | MYSQL_TYPE_MEDIUM_BLOB \<Rightarrow> word_of_nat (f_max_length fld + 1)
      | MYSQL_TYPE_LONG_BLOB \<Rightarrow> word_of_nat (f_max_length fld + 1)
      | MYSQL_TYPE_BLOB \<Rightarrow> word_of_nat (f_max_length fld + 1)
      | MYSQL_TYPE_STRING \<Rightarrow> word_of_nat (f_max_length fld + 1)
      | MYSQL_TYPE_VAR_STRING \<Rightarrow> word_of_nat (f_max_length fld + 1)
      | MYSQL_TYPE_DECIMAL \<Rightarrow> 64 | MYSQL_TYPE_NEWDECIMAL \<Rightarrow> 64
      | _ \<Rightarrow> 0)"

definition MysqlTypeToFieldType :: "field_type \<Rightarrow> db_type" where
  "MysqlTypeToFieldType type =
     (case type of
        MYSQL_TYPE_NULL \<Rightarrow> TyNull
      | MYSQL_TYPE_TINY \<Rightarrow> TyInt8
      | MYSQL_TYPE_YEAR \<Rightarrow> TyInt16 | MYSQL_TYPE_SHORT \<Rightarrow> TyInt16
      | MYSQL_TYPE_INT24 \<Rightarrow> TyInt32 | MYSQL_TYPE_LONG \<Rightarrow> TyInt32
      | MYSQL_TYPE_LONGLONG \<Rightarrow> TyInt64 | MYSQL_TYPE_BIT \<Rightarrow> TyInt64
      | MYSQL_TYPE_FLOAT \<Rightarrow> TyFloat
      | MYSQL_TYPE_DOUBLE \<Rightarrow> TyDouble
      | MYSQL_TYPE_DECIMAL \<Rightarrow> TyDecimal | MYSQL_TYPE_NEWDECIMAL \<Rightarrow> TyDecimal
      | MYSQL_TYPE_TIMESTAMP \<Rightarrow> TyDate | MYSQL_TYPE_DATE \<Rightarrow> TyDate
      | MYSQL_TYPE_TIME \<Rightarrow> TyDate | MYSQL_TYPE_DATETIME \<Rightarrow> TyDate
      | MYSQL_TYPE_TINY_BLOB \<Rightarrow> TyBinary | MYSQL_TYPE_MEDIUM_BLOB \<Rightarrow> TyBinary
      | MYSQL_TYPE_LONG_BLOB \<Rightarrow> TyBinary | MYSQL_TYPE_BLOB \<Rightarrow> TyBinary
      | MYSQL_TYPE_STRING \<Rightarrow> TyBinary | MYSQL_TYPE_VAR_STRING \<Rightarrow> TyBinary
      | _ \<Rightarrow> TyNull)"

definition FieldTypeToString :: "field_type \<Rightarrow> string" where
  "FieldTypeToString type =
     (case type of
        MYSQL_TYPE_BIT \<Rightarrow> ''BIT'' | MYSQL_TYPE_BLOB \<Rightarrow> ''BLOB'' | MYSQL_TYPE_DATE \<Rightarrow> ''DATE''
      | MYSQL_TYPE_DATETIME \<Rightarrow> ''DATETIME'' | MYSQL_TYPE_NEWDECIMAL \<Rightarrow> ''NEWDECIMAL''
      | MYSQL_TYPE_DECIMAL \<Rightarrow> ''DECIMAL'' | MYSQL_TYPE_DOUBLE \<Rightarrow> ''DOUBLE''
      | MYSQL_TYPE_ENUM \<Rightarrow> ''ENUM'' | MYSQL_TYPE_FLOAT \<Rightarrow> ''FLOAT''
      | MYSQL_TYPE_GEOMETRY \<Rightarrow> ''GEOMETRY'' | MYSQL_TYPE_INT24 \<Rightarrow> ''INT24''
      | MYSQL_TYPE_LONG \<Rightarrow> ''LONG'' | MYSQL_TYPE_LONGLONG \<Rightarrow> ''LONGLONG''
      | MYSQL_TYPE_LONG_BLOB \<Rightarrow> ''LONG_BLOB'' | MYSQL_TYPE_MEDIUM_BLOB \<Rightarrow> ''MEDIUM_BLOB''
      | MYSQL_TYPE_NEWDATE \<Rightarrow> ''NEWDATE'' | MYSQL_TYPE_NULL \<Rightarrow> ''NULL''
      | MYSQL_TYPE_SET \<Rightarrow> ''SET'' | MYSQL_TYPE_SHORT \<Rightarrow> ''SHORT''
      | MYSQL_TYPE_STRING \<Rightarrow> ''STRING'' | MYSQL_TYPE_TIME \<Rightarrow> ''TIME''
      | MYSQL_TYPE_TIMESTAMP \<Rightarrow> ''TIMESTAMP'' | MYSQL_TYPE_TINY \<Rightarrow> ''TINY''
      | MYSQL_TYPE_TINY_BLOB \<Rightarrow> ''TINY_BLOB'' | MYSQL_TYPE_VAR_STRING \<Rightarrow> ''VAR_STRING''
      | MYSQL_TYPE_YEAR \<Rightarrow> ''YEAR''
      | _ \<Rightarrow> ''-Unknown-'')"

definition InitializeDatabaseFieldMetadata :: "lib_field \<Rightarrow> nat \<Rightarrow> metadata" where
  "InitializeDatabaseFieldMetadata fld fieldIndex =
     \<lparr>TableName = f_org_table fld, TableAlias = f_table fld, ColName = f_org_name fld, Alias = f_name fld,
      TypeName = FieldTypeToString (f_type fld), ColIndex = fieldIndex, ColType = MysqlTypeToFieldType (f_type fld)\<rparr>"

subsection \<open>Values\<close>

datatype cpp_type = TBool | TInt int_type | TFloat | TDouble

datatype 'f cpp_value = VBool bool | VInt int | VFloat 'f | VDouble 'f

text \<open>
  Floating point: what \<open>std::stold\<close> reads and how many characters it takes (\<open>None\<close> when it throws),
  the rounding to the two types, their representation, and the conversions of the language.
\<close>

record 'f float_lib =
  stold :: "string \<Rightarrow> ('f \<times> nat) option"
  round_float :: "'f \<Rightarrow> 'f"
  round_double :: "'f \<Rightarrow> 'f"
  read_float :: "bytes \<Rightarrow> 'f"
  read_double :: "bytes \<Rightarrow> 'f"
  of_integer :: "int \<Rightarrow> 'f"
  to_integer :: "int_type \<Rightarrow> 'f \<Rightarrow> int"
  is_nonzero :: "'f \<Rightarrow> bool"

text \<open>\<open>For<T>::FromString\<close> of a floating point type; the catch-all returns no value.\<close>

definition from_string_float :: "'f float_lib \<Rightarrow> ('f \<Rightarrow> 'f) \<Rightarrow> string \<Rightarrow> nat \<Rightarrow> 'f option" where
  "from_string_float L cast str base =
     (if str = [] then None
      else if base = 10 \<and> string_equal_i (substr str 0 2) ''0x'' then None
      else
        let tmp = (if base = 16 then ''0x'' else []) @ str
        in case stold L tmp of
             None \<Rightarrow> None
           | Some (val, n) \<Rightarrow> if n \<noteq> length tmp then None else Some (cast val))"

definition wrap_int :: "int_type \<Rightarrow> int \<Rightarrow> int" where
  "wrap_int ty v =
     (if is_signed ty then (v + 2 ^ (width ty - 1)) mod 2 ^ width ty - 2 ^ (width ty - 1)
      else v mod 2 ^ width ty)"

text \<open>The conversion a \<open>return\<close> of another arithmetic type makes.\<close>

definition convert :: "'f float_lib \<Rightarrow> cpp_type \<Rightarrow> 'f cpp_value \<Rightarrow> 'f cpp_value" where
  "convert L T v =
     (case T of
        TBool \<Rightarrow> VBool (case v of VBool b \<Rightarrow> b | VInt i \<Rightarrow> i \<noteq> 0 | VFloat x \<Rightarrow> is_nonzero L x | VDouble x \<Rightarrow> is_nonzero L x)
      | TInt ty \<Rightarrow> VInt (case v of VBool b \<Rightarrow> (if b then 1 else 0) | VInt i \<Rightarrow> wrap_int ty i
                      | VFloat x \<Rightarrow> to_integer L ty x | VDouble x \<Rightarrow> to_integer L ty x)
      | TFloat \<Rightarrow> VFloat (round_float L (case v of VBool b \<Rightarrow> of_integer L (if b then 1 else 0)
                      | VInt i \<Rightarrow> of_integer L i | VFloat x \<Rightarrow> x | VDouble x \<Rightarrow> x))
      | TDouble \<Rightarrow> VDouble (round_double L (case v of VBool b \<Rightarrow> of_integer L (if b then 1 else 0)
                      | VInt i \<Rightarrow> of_integer L i | VFloat x \<Rightarrow> x | VDouble x \<Rightarrow> x)))"

subsection \<open>Fields\<close>

record field =
  fvalue :: "bytes option"
  flength :: uint32
  raw :: bool
  meta :: "metadata option"

definition field_new :: field where
  "field_new = \<lparr>fvalue = None, flength = 0, raw = False, meta = None\<rparr>"

definition SetByteValue :: "bytes option \<Rightarrow> uint32 \<Rightarrow> field \<Rightarrow> field" where
  "SetByteValue newValue len f = f\<lparr>fvalue := newValue, flength := len, raw := True\<rparr>"

definition SetStructuredValue :: "bytes option \<Rightarrow> uint32 \<Rightarrow> field \<Rightarrow> field" where
  "SetStructuredValue newValue len f = f\<lparr>fvalue := newValue, flength := len, raw := False\<rparr>"

definition SetMetadata :: "metadata \<Rightarrow> field \<Rightarrow> field" where
  "SetMetadata m f = f\<lparr>meta := Some m\<rparr>"

definition field_IsNull :: "field \<Rightarrow> bool" where
  "field_IsNull f \<longleftrightarrow> fvalue f = None"

definition IsType :: "metadata \<Rightarrow> db_type \<Rightarrow> bool" where
  "IsType m ty \<longleftrightarrow> ColType m = ty"

definition IsNumeric :: "metadata \<Rightarrow> bool" where
  "IsNumeric m \<longleftrightarrow> ColType m = TyInt8 \<or> ColType m = TyInt16 \<or> ColType m = TyInt32 \<or> ColType m = TyInt64 \<or>
     ColType m = TyFloat \<or> ColType m = TyDouble"

definition GetDefaultValue :: "'f float_lib \<Rightarrow> cpp_type \<Rightarrow> 'f cpp_value" where
  "GetDefaultValue L T =
     (case T of TBool \<Rightarrow> VBool False | TInt ty \<Rightarrow> VInt 0 | TFloat \<Rightarrow> VFloat (of_integer L 1)
      | TDouble \<Rightarrow> VDouble (of_integer L 1))"

definition IsCorrectFieldType :: "cpp_type \<Rightarrow> db_type \<Rightarrow> bool" where
  "IsCorrectFieldType T ty =
     (case T of
        TBool \<Rightarrow> ty = TyInt8
      | TInt i \<Rightarrow> (width i = 8 \<and> ty = TyInt8) \<or> (width i = 16 \<and> ty = TyInt16) \<or>
          (width i = 32 \<and> ty = TyInt32) \<or> (width i = 64 \<and> ty = TyInt64)
      | TFloat \<Rightarrow> ty = TyFloat
      | TDouble \<Rightarrow> ty = TyDouble \<or> ty = TyDecimal)"

definition GetCleanAliasName :: "string \<Rightarrow> string option" where
  "GetCleanAliasName alias =
     (if alias = [] then None
      else case index_of (CHR ''('') alias of None \<Rightarrow> None | Some pos \<Rightarrow> Some (take pos alias))"

definition IsCorrectAlias :: "cpp_type \<Rightarrow> db_type \<Rightarrow> string \<Rightarrow> bool" where
  "IsCorrectAlias T ty alias =
     (if T = TDouble then (string_equal_i alias ''sum'' \<or> string_equal_i alias ''avg'') \<and> ty = TyDecimal
      else if T = TInt ty_uint64 then string_equal_i alias ''count'' \<and> ty = TyInt64
      else (string_equal_i alias ''min'' \<or> string_equal_i alias ''max'') \<and> IsCorrectFieldType T ty)"

text \<open>A C string at a pointer, and a value of a type read from its bytes, least significant first.\<close>

definition c_string :: "bytes \<Rightarrow> string outcome" where
  "c_string mem = (if 0 \<in> set mem then Ret (chars (takeWhile (\<lambda>b. b \<noteq> 0) mem)) else Crash OutOfBounds)"

definition type_size :: "cpp_type \<Rightarrow> nat" where
  "type_size T = (case T of TBool \<Rightarrow> 1 | TInt ty \<Rightarrow> width ty div 8 | TFloat \<Rightarrow> 4 | TDouble \<Rightarrow> 8)"

definition read_raw :: "'f float_lib \<Rightarrow> cpp_type \<Rightarrow> bytes \<Rightarrow> 'f cpp_value outcome" where
  "read_raw L T mem =
     (if length mem < type_size T then Crash OutOfBounds
      else let bs = take (type_size T) mem in
        Ret (case T of
          TBool \<Rightarrow> VBool (le_value bs \<noteq> 0)
        | TInt ty \<Rightarrow> VInt (wrap_int ty (int (le_value bs)))
        | TFloat \<Rightarrow> VFloat (read_float L bs)
        | TDouble \<Rightarrow> VDouble (read_double L bs)))"

definition string_to :: "'f float_lib \<Rightarrow> cpp_type \<Rightarrow> string \<Rightarrow> 'f cpp_value option" where
  "string_to L T s =
     (case T of
        TBool \<Rightarrow> map_option VBool (from_string_bool s 0)
      | TInt ty \<Rightarrow> map_option VInt (from_string_int ty s 10)
      | TFloat \<Rightarrow> map_option VFloat (from_string_float L (round_float L) s 0)
      | TDouble \<Rightarrow> map_option VDouble (from_string_float L (round_double L) s 0))"

text \<open>The first part of \<open>GetData\<close>: \<open>result\<close>, for \<open>double\<close> assigned a second time.\<close>

definition initial_result ::
  "'f float_lib \<Rightarrow> field \<Rightarrow> metadata \<Rightarrow> cpp_type \<Rightarrow> bytes \<Rightarrow> 'f cpp_value option outcome" where
  "initial_result L f m T mem =
     bind_outcome
       (if raw f then bind_outcome (read_raw L T mem) (\<lambda>v. Ret (Some v))
        else bind_outcome (c_string mem) (\<lambda>s. Ret (string_to L T s)))
       (\<lambda>result.
         if T = TDouble then
           (if raw f \<and> \<not> IsType m TyDecimal then bind_outcome (read_raw L T mem) (\<lambda>v. Ret (Some v))
            else bind_outcome (c_string mem) (\<lambda>s. Ret (map_option VDouble (from_string_float L (round_float L) s 0))))
         else Ret result)"

text \<open>The \<open>_dbc\<close> test; the signed value is converted before the other conditions are looked at.\<close>

definition dbc_redirect :: "metadata \<Rightarrow> cpp_type \<Rightarrow> bytes \<Rightarrow> 'f cpp_value option \<Rightarrow> bool outcome" where
  "dbc_redirect m T mem result =
     (if T = TInt ty_uint32 \<and> length (TableName m) > 4 then
        bind_outcome (c_string mem) (\<lambda>s.
          Ret (from_string_int ty_int32 s 10 \<noteq> None \<and> result = None \<and>
            substr (TableName m) (length (TableName m) - 4) 4 = ''_dbc''))
      else Ret False)"

definition alias_redirect :: "metadata \<Rightarrow> cpp_type \<Rightarrow> cpp_type option" where
  "alias_redirect m T =
     (case GetCleanAliasName (Alias m) of
        None \<Rightarrow> None
      | Some alias \<Rightarrow>
          if (string_equal_i alias ''sum'' \<or> string_equal_i alias ''avg'') \<and> \<not> IsCorrectAlias T (ColType m) alias
          then Some TDouble
          else if string_equal_i alias ''count'' \<and> \<not> IsCorrectAlias T (ColType m) alias
          then Some (TInt ty_uint64)
          else None)"

primrec map_outcome :: "('a \<Rightarrow> 'b) \<Rightarrow> 'a outcome \<Rightarrow> 'b outcome" where
  "map_outcome g (Ret x) = Ret (g x)"
| "map_outcome g (Crash c) = Crash c"

text \<open>
  \<open>GetData\<close>; \<open>None\<close> when the recursion does not end. A field whose metadata is not set, which no
  result set hands out, is a null access.
\<close>

partial_function (option) GetData :: "'f float_lib \<Rightarrow> field \<Rightarrow> cpp_type \<Rightarrow> 'f cpp_value outcome option" where
  "GetData L f T =
     (case fvalue f of
        None \<Rightarrow> Some (Ret (GetDefaultValue L T))
      | Some mem \<Rightarrow>
          (case meta f of
             None \<Rightarrow> Some (Crash NullDeref)
           | Some m \<Rightarrow>
               (case initial_result L f m T mem of
                  Crash c \<Rightarrow> Some (Crash c)
                | Ret result \<Rightarrow>
                    (case dbc_redirect m T mem result of
                       Crash c \<Rightarrow> Some (Crash c)
                     | Ret dbc \<Rightarrow>
                         if dbc then Option.bind (GetData L f (TInt ty_int32)) (\<lambda>r. Some (map_outcome (convert L T) r))
                         else
                           (case alias_redirect m T of
                              Some T' \<Rightarrow> Option.bind (GetData L f T') (\<lambda>r. Some (map_outcome (convert L T) r))
                            | None \<Rightarrow>
                                (case result of
                                   None \<Rightarrow> Some (Crash (AssertFail ''ABORT''))
                                 | Some v \<Rightarrow> Some (Ret v)))))))"

text \<open>The other getters.\<close>

definition GetDataString :: "field \<Rightarrow> string outcome" where
  "GetDataString f =
     (case fvalue f of
        None \<Rightarrow> Ret []
      | Some mem \<Rightarrow> if length mem < unat (flength f) then Crash OutOfBounds
                      else Ret (chars (take (unat (flength f)) mem)))"

definition GetDataBinary :: "field \<Rightarrow> bytes outcome" where
  "GetDataBinary f =
     (case fvalue f of
        None \<Rightarrow> Ret []
      | Some mem \<Rightarrow> if flength f = 0 then Ret []
                      else if length mem < unat (flength f) then Crash OutOfBounds
                      else Ret (take (unat (flength f)) mem))"

definition GetBinarySizeChecked :: "nat \<Rightarrow> field \<Rightarrow> bytes outcome" where
  "GetBinarySizeChecked len f =
     (case fvalue f of
        None \<Rightarrow> Crash (AssertFail ''data.value && (data.length == length)'')
      | Some mem \<Rightarrow>
          if unat (flength f) \<noteq> len then Crash (AssertFail ''data.value && (data.length == length)'')
          else if length mem < len then Crash OutOfBounds
          else Ret (take len mem))"

text \<open>\<open>Get\<close> of a duration: its count.\<close>

definition Get_chrono :: "'f float_lib \<Rightarrow> field \<Rightarrow> bool \<Rightarrow> 'f cpp_value outcome option" where
  "Get_chrono L f convertToUin32 = GetData L f (TInt (if convertToUin32 then ty_uint32 else ty_uint64))"

subsection \<open>Lemmas\<close>

lemma byte_of_char_zero: "(word_of_nat (of_char c) :: byte) = 0 \<longleftrightarrow> c = CHR 0x00"
proof
  assume "(word_of_nat (of_char c) :: byte) = 0"
  then have "unat (word_of_nat (of_char c) :: byte) = 0" by simp
  then have "(of_char c :: nat) = of_char (CHR 0x00)" using char_code_less [of c] by (simp add: unat_of_nat)
  then show "c = CHR 0x00" by (simp only: of_char_eq_iff)
qed simp

lemma zero_in_bytes_of: "0 \<in> set (bytes_of s) \<longleftrightarrow> CHR 0x00 \<in> set s"
  by (induction s) (auto simp: bytes_of_def byte_of_char_zero)

lemma c_string_text:
  assumes "CHR 0x00 \<notin> set s"
  shows "c_string (bytes_of s @ 0 # rest) = Ret s"
proof -
  have "\<forall>b \<in> set (bytes_of s). b \<noteq> 0" using assms zero_in_bytes_of by metis
  then have "takeWhile (\<lambda>b. b \<noteq> 0) (bytes_of s @ 0 # rest) = bytes_of s"
    by (simp add: takeWhile_append2)
  then show ?thesis by (simp add: c_string_def)
qed

lemma c_string_Ret: "0 \<in> set mem \<Longrightarrow> \<exists>s. c_string mem = Ret s"
  by (simp add: c_string_def)

lemma zero_not_in_dec_int: "CHR 0x00 \<notin> set (dec_int v)"
proof -
  have "\<not> digit_in_base 10 (CHR 0x00)" by (simp add: digit_in_base_def digit_value_def)
  then have "CHR 0x00 \<notin> set (dec_digits n)" for n
    using dec_digits_in_base [of n] by (auto simp: list_all_iff)
  then show ?thesis by (simp add: dec_int_def)
qed

lemmas c_string_number = c_string_text [OF zero_not_in_dec_int, of v "[]" for v, unfolded append_Nil]

lemma GetCleanAliasName_None: "CHR ''('' \<notin> set alias \<Longrightarrow> GetCleanAliasName alias = None"
  by (simp add: GetCleanAliasName_def)

lemma alias_redirect_None: "CHR ''('' \<notin> set (Alias m) \<Longrightarrow> alias_redirect m T = None"
  by (simp add: alias_redirect_def GetCleanAliasName_None)

text \<open>A text field: its memory ends in a zero byte, so the conversions read a string.\<close>

definition text_field :: "field \<Rightarrow> metadata \<Rightarrow> string \<Rightarrow> bool" where
  "text_field f m s \<longleftrightarrow> (\<exists>mem. fvalue f = Some mem \<and> c_string mem = Ret s) \<and> meta f = Some m \<and> \<not> raw f"

definition text_result :: "'f float_lib \<Rightarrow> cpp_type \<Rightarrow> string \<Rightarrow> 'f cpp_value option" where
  "text_result L T s =
     (if T = TDouble then map_option VDouble (from_string_float L (round_float L) s 0) else string_to L T s)"

definition dbc_table :: "metadata \<Rightarrow> bool" where
  "dbc_table m \<longleftrightarrow> length (TableName m) > 4 \<and> drop (length (TableName m) - 4) (TableName m) = ''_dbc''"

lemma text_field_parts:
  assumes "text_field f m s"
  obtains mem where "fvalue f = Some mem" "meta f = Some m"
    "initial_result L f m T mem = Ret (text_result L T s)"
    "dbc_redirect m T mem (text_result L T s) = Ret (T = TInt ty_uint32 \<and> dbc_table m \<and>
      from_string_int ty_int32 s 10 \<noteq> None \<and> from_string_int ty_uint32 s 10 = None)"
proof -
  from assms obtain mem where f: "fvalue f = Some mem" "c_string mem = Ret s" "meta f = Some m" "\<not> raw f"
    by (auto simp: text_field_def)
  have i: "initial_result L f m T mem = Ret (text_result L T s)"
    using f by (simp add: initial_result_def text_result_def)
  have n: "text_result L (TInt ty_uint32) s = None \<longleftrightarrow> from_string_int ty_uint32 s 10 = None"
    by (simp add: text_result_def string_to_def)
  have sub: "substr (TableName m) (length (TableName m) - 4) 4 = drop (length (TableName m) - 4) (TableName m)"
    by (simp add: substr_def)
  have d: "dbc_redirect m T mem (text_result L T s) = Ret (T = TInt ty_uint32 \<and> dbc_table m \<and>
      from_string_int ty_int32 s 10 \<noteq> None \<and> from_string_int ty_uint32 s 10 = None)"
    using f n sub by (auto simp: dbc_redirect_def dbc_table_def)
  show ?thesis by (rule that [OF f(1,3) i d])
qed

lemma GetData_text:
  assumes "text_field f m s"
  shows "GetData L f T =
    (if T = TInt ty_uint32 \<and> dbc_table m \<and> from_string_int ty_int32 s 10 \<noteq> None \<and> from_string_int ty_uint32 s 10 = None
     then Option.bind (GetData L f (TInt ty_int32)) (\<lambda>r. Some (map_outcome (convert L T) r))
     else case alias_redirect m T of
       Some T' \<Rightarrow> Option.bind (GetData L f T') (\<lambda>r. Some (map_outcome (convert L T) r))
     | None \<Rightarrow> (case text_result L T s of None \<Rightarrow> Some (Crash (AssertFail ''ABORT'')) | Some v \<Rightarrow> Some (Ret v)))"
proof -
  obtain mem where "fvalue f = Some mem" "meta f = Some m" "initial_result L f m T mem = Ret (text_result L T s)"
    "dbc_redirect m T mem (text_result L T s) = Ret (T = TInt ty_uint32 \<and> dbc_table m \<and>
      from_string_int ty_int32 s 10 \<noteq> None \<and> from_string_int ty_uint32 s 10 = None)"
    by (rule text_field_parts [OF assms, of L T])
  then show ?thesis by (subst GetData.simps) simp
qed

lemma map_outcome_convert_in_range:
  assumes "v \<le> int_max ty_int32" and "int_min ty_int32 \<le> v"
  shows "map_outcome (convert L (TInt ty_uint32)) (Ret (VInt v)) = Ret (VInt (v mod 2 ^ 32))"
  by (simp add: convert_def wrap_int_def ty_uint32_def)

lemma aggregate_names_differ:
  "string_equal_i a ''count'' \<Longrightarrow> \<not> string_equal_i a ''sum''"
  "string_equal_i a ''count'' \<Longrightarrow> \<not> string_equal_i a ''avg''"
  "string_equal_i a ''min'' \<Longrightarrow> \<not> string_equal_i a ''sum'' \<and> \<not> string_equal_i a ''avg'' \<and> \<not> string_equal_i a ''count''"
  "string_equal_i a ''max'' \<Longrightarrow> \<not> string_equal_i a ''sum'' \<and> \<not> string_equal_i a ''avg'' \<and> \<not> string_equal_i a ''count''"
  by (auto simp: string_equal_i_map to_lower_def)

text \<open>The columns on which the getters never come back.\<close>

definition endless_column :: "metadata \<Rightarrow> bool" where
  "endless_column m \<longleftrightarrow>
     (case GetCleanAliasName (Alias m) of
        None \<Rightarrow> False
      | Some a \<Rightarrow> (string_equal_i a ''sum'' \<or> string_equal_i a ''avg'') \<and> ColType m \<noteq> TyDecimal \<or>
                  string_equal_i a ''count'' \<and> ColType m \<noteq> TyInt64)"

lemma alias_redirect_endless:
  assumes "endless_column m"
  shows "alias_redirect m T \<noteq> None"
  using assms
  by (auto simp: endless_column_def alias_redirect_def IsCorrectAlias_def
      dest: aggregate_names_differ split: option.splits)

lemma alias_redirect_twice:
  assumes "\<not> endless_column m" and "alias_redirect m T = Some T'"
  shows "alias_redirect m T' = None \<and> (T' = TDouble \<or> T' = TInt ty_uint64)"
  using assms
  by (auto simp: endless_column_def alias_redirect_def IsCorrectAlias_def
      dest: aggregate_names_differ split: option.splits if_splits)

lemma GetData_endless:
  assumes "GetData L f T = Some r" and "text_field f m s"
  shows "\<not> endless_column m"
proof (rule GetData.raw_induct [where P = "\<lambda>L f T r. \<forall>m s. text_field f m s \<longrightarrow> \<not> endless_column m",
      OF _ assms(1), rule_format, OF _ assms(2)])
  fix G :: "'a float_lib \<Rightarrow> field \<Rightarrow> cpp_type \<Rightarrow> 'a cpp_value outcome option" and L' f' T' r' m' s'
  assume IH: "\<And>L f T r m s. G L f T = Some r \<Longrightarrow> text_field f m s \<Longrightarrow> \<not> endless_column m"
    and t: "text_field f' m' s'"
  assume body: "(case fvalue f' of
        None \<Rightarrow> Some (Ret (GetDefaultValue L' T'))
      | Some mem \<Rightarrow>
          (case meta f' of
             None \<Rightarrow> Some (Crash NullDeref)
           | Some m \<Rightarrow>
               (case initial_result L' f' m T' mem of
                  Crash c \<Rightarrow> Some (Crash c)
                | Ret result \<Rightarrow>
                    (case dbc_redirect m T' mem result of
                       Crash c \<Rightarrow> Some (Crash c)
                     | Ret dbc \<Rightarrow>
                         if dbc then Option.bind (G L' f' (TInt ty_int32)) (\<lambda>r. Some (map_outcome (convert L' T') r))
                         else
                           (case alias_redirect m T' of
                              Some T'' \<Rightarrow> Option.bind (G L' f' T'') (\<lambda>r. Some (map_outcome (convert L' T') r))
                            | None \<Rightarrow>
                                (case result of
                                   None \<Rightarrow> Some (Crash (AssertFail ''ABORT''))
                                 | Some v \<Rightarrow> Some (Ret v))))))) = Some r'"
  show "\<not> endless_column m'"
  proof
    assume e: "endless_column m'"
    then have none: "G L' f' T = None" for T using IH t by (cases "G L' f' T") auto
    from alias_redirect_endless [OF e] obtain T'' where "alias_redirect m' T' = Some T''" by blast
    with body none show False
      by (rule_tac text_field_parts [OF t, of L' T']) (simp split: if_splits)
  qed
qed

lemma GetData_returns:
  assumes "text_field f m s" and "\<not> endless_column m"
  shows "GetData L f T \<noteq> None"
proof -
  have stay: "GetData L f T \<noteq> None" if "alias_redirect m T = None" "T \<noteq> TInt ty_uint32" for T
    using that assms(1) by (subst GetData_text [OF assms(1)]) (simp split: option.splits)
  have plain: "GetData L f T \<noteq> None" if "T \<noteq> TInt ty_uint32" for T
  proof (cases "alias_redirect m T")
    case None
    with that stay show ?thesis by blast
  next
    case (Some T')
    with alias_redirect_twice [OF assms(2) Some] have "GetData L f T' \<noteq> None"
      by (intro stay) (auto simp: ty_uint32_def ty_uint64_def)
    with Some that show ?thesis by (subst GetData_text [OF assms(1)]) auto
  qed
  have 32: "ty_int32 \<noteq> ty_uint32" "ty_uint64 \<noteq> ty_uint32" by (simp_all add: int_type_defs)
  obtain r where r: "GetData L f (TInt ty_int32) = Some r" using plain [of "TInt ty_int32"] 32 by auto
  show ?thesis
  proof (cases "T = TInt ty_uint32")
    case True
    have "GetData L f T' \<noteq> None" if "alias_redirect m T = Some T'" for T'
      using alias_redirect_twice [OF assms(2) that] plain [of T'] 32 by auto
    with True r show ?thesis
      by (subst GetData_text [OF assms(1)]) (auto split: option.splits)
  next
    case False
    then show ?thesis by (rule plain)
  qed
qed

lemma le_value_take4: "le_value (take 4 mem) < 2 ^ 32"
proof -
  have "le_value (take 4 mem) < 256 ^ length (take 4 mem)" by (rule le_value_less)
  also have "\<dots> \<le> 256 ^ 4" by (rule power_increasing) simp_all
  finally show ?thesis by simp
qed

subsection \<open>Properties\<close>

text \<open>
  An integer column of a text result, read with any integral type: the number itself when the
  type holds it; the value modulo 2^32 when a negative number is read as \<open>uint32\<close> from a table
  whose name ends in \<open>_dbc\<close>; the process is aborted otherwise.
\<close>

theorem get_integer_column:
  assumes "fvalue f = Some (bytes_of (dec_int v) @ [0])" and "meta f = Some m" and "\<not> raw f"
    and "CHR ''('' \<notin> set (Alias m)"
  shows "GetData L f (TInt ty) = Some
    (if int_min ty \<le> v \<and> v \<le> int_max ty then Ret (VInt v)
     else if ty = ty_uint32 \<and> dbc_table m \<and> int_min ty_int32 \<le> v \<and> v \<le> int_max ty_int32
     then Ret (VInt (v mod 2 ^ 32))
     else Crash (AssertFail ''ABORT''))"
proof -
  have t: "text_field f m (dec_int v)"
    using assms(1-3) by (simp add: text_field_def c_string_number)
  have n: "alias_redirect m T = None" for T by (rule alias_redirect_None [OF assms(4)])
  have c: "text_result L (TInt i) (dec_int v) =
      (if int_min i \<le> v \<and> v \<le> int_max i then Some (VInt v) else None)" for i
    by (simp add: text_result_def string_to_def from_string_int_dec_int_eq)
  have 32: "ty_int32 \<noteq> ty_uint32" by (simp add: int_type_defs)
  have s: "GetData L f (TInt ty_int32) = Some (if int_min ty_int32 \<le> v \<and> v \<le> int_max ty_int32
      then Ret (VInt v) else Crash (AssertFail ''ABORT''))"
    using 32 by (subst GetData_text [OF t]) (simp add: n c)
  show ?thesis
    by (subst GetData_text [OF t])
      (auto simp: n c s from_string_int_dec_int_eq map_outcome_convert_in_range simp del: map_outcome.simps)
qed

theorem get_integer_column_witness:
  "\<exists>f m. fvalue f = Some (bytes_of (dec_int (-1)) @ [0]) \<and> dbc_table m \<and> meta f = Some m \<and>
    GetData (undefined :: int float_lib) f (TInt ty_uint32) = Some (Ret (VInt 4294967295))"
proof -
  define m where "m = \<lparr>TableName = ''spell_dbc'', TableAlias = '''', ColName = '''', Alias = ''id'',
    TypeName = '''', ColIndex = 0, ColType = TyInt32\<rparr>"
  define f where "f = \<lparr>fvalue = Some (bytes_of (dec_int (-1)) @ [0]), flength = 2, raw = False, meta = Some m\<rparr>"
  have f: "fvalue f = Some (bytes_of (dec_int (-1)) @ [0])" "meta f = Some m" "\<not> raw f"
    by (simp_all add: f_def)
  have a: "CHR ''('' \<notin> set (Alias m)" and d: "dbc_table m" by (simp_all add: m_def dbc_table_def)
  have "GetData (undefined :: int float_lib) f (TInt ty_uint32) = Some (Ret (VInt 4294967295))"
    using get_integer_column [OF f a, of undefined ty_uint32] d by (simp add: int_type_defs)
  with f d show ?thesis by blast
qed

text \<open>
  C35. Which getters of a text result come back: all of them, except on a column whose name starts
  with \<open>sum(\<close> or \<open>avg(\<close> and whose type is not a decimal, or with \<open>count(\<close> and whose type is not a
  64-bit integer; there every getter of a number, the advised one included, calls itself for ever.
  The sum of a floating point column is such a column.
\<close>

theorem getters_that_return:
  assumes "text_field f m s"
  shows "(\<exists>r. GetData L f T = Some r) \<longleftrightarrow> \<not> endless_column m"
  using GetData_endless [of L f T _ m s] GetData_returns [of f m s L T] assms by (metis not_None_eq)

theorem getters_that_return_witness:
  "\<exists>f m. text_field f m ''1'' \<and> Alias m = ''SUM(balance)'' \<and> ColType m = TyDouble \<and>
    GetData (undefined :: int float_lib) f TDouble = None"
proof -
  define m where "m = \<lparr>TableName = '''', TableAlias = '''', ColName = '''', Alias = ''SUM(balance)'',
    TypeName = '''', ColIndex = 0, ColType = TyDouble\<rparr>"
  define f where "f = \<lparr>fvalue = Some (bytes_of ''1'' @ [0]), flength = 1, raw = False, meta = Some m\<rparr>"
  have t: "text_field f m ''1''"
    using c_string_text [of "''1''" "[]"] by (simp add: text_field_def f_def)
  have "endless_column m"
    unfolding m_def by code_simp
  with getters_that_return [OF t, of "undefined :: int float_lib" TDouble]
  have "GetData (undefined :: int float_lib) f TDouble = None" by (cases "GetData undefined f TDouble") auto
  with t show ?thesis by (intro exI [of _ f] exI [of _ m]) (simp add: m_def)
qed

lemma GetData_raw_32:
  assumes "fvalue f = Some mem" and "meta f = Some m" and "raw f" and "4 \<le> length mem"
    and "CHR ''('' \<notin> set (Alias m)"
  shows "GetData L f (TInt ty_int32) = Some (Ret (VInt (wrap_int ty_int32 (int (le_value (take 4 mem)))))) \<and>
    GetData L f (TInt ty_uint32) = Some
      (if length (TableName m) > 4 \<and> 0 \<notin> set mem then Crash OutOfBounds
       else Ret (VInt (int (le_value (take 4 mem)))))"
proof -
  have n: "alias_redirect m T = None" for T by (rule alias_redirect_None [OF assms(5)])
  have i: "initial_result L f m (TInt ty) mem = Ret (Some (VInt (wrap_int ty (int (le_value (take 4 mem))))))"
    if "width ty = 32" for ty
    using assms(3,4) that by (simp add: initial_result_def read_raw_def type_size_def)
  have u: "wrap_int ty_uint32 (int (le_value (take 4 mem))) = int (le_value (take 4 mem))"
    using le_value_take4 [of mem] by (simp add: wrap_int_def ty_uint32_def)
  have w: "width ty_int32 = 32" "width ty_uint32 = 32" "ty_int32 \<noteq> ty_uint32" by (simp_all add: int_type_defs)
  show ?thesis
    by (subst (1 2) GetData.simps)
      (simp add: assms(1,2) i [OF w(1)] i [OF w(2)] u n w(3) dbc_redirect_def c_string_def)
qed

text \<open>
  A 32-bit column of a prepared result: the signed getter reads its four bytes; the unsigned
  one, in a table whose name has more than four characters, also reads the value as a C string, and
  so past the end of the buffer when no byte from the value on is zero.
\<close>

theorem raw_uint32_scans_for_zero:
  assumes "fvalue f = Some mem" and "meta f = Some m" and "raw f" and "4 \<le> length mem"
    and "CHR ''('' \<notin> set (Alias m)"
  shows "GetData L f (TInt ty_int32) = Some (Ret (VInt (wrap_int ty_int32 (int (le_value (take 4 mem)))))) \<and>
    GetData L f (TInt ty_uint32) = Some
      (if length (TableName m) > 4 \<and> 0 \<notin> set mem then Crash OutOfBounds
       else Ret (VInt (int (le_value (take 4 mem)))))"
  by (rule GetData_raw_32 [OF assms])

theorem raw_uint32_scans_for_zero_witness:
  "\<exists>f m. fvalue f = Some ([4, 3, 2, 1]) \<and> meta f = Some m \<and> TableName m = ''account'' \<and>
    GetData (undefined :: int float_lib) f (TInt ty_int32) = Some (Ret (VInt 0x01020304)) \<and>
    GetData (undefined :: int float_lib) f (TInt ty_uint32) = Some (Crash OutOfBounds)"
proof -
  define m where "m = \<lparr>TableName = ''account'', TableAlias = '''', ColName = '''', Alias = ''id'',
    TypeName = '''', ColIndex = 0, ColType = TyInt32\<rparr>"
  define f where "f = \<lparr>fvalue = Some ([4, 3, 2, 1]), flength = 4, raw = True, meta = Some m\<rparr>"
  have f: "fvalue f = Some ([4, 3, 2, 1])" "meta f = Some m" "raw f" by (simp_all add: f_def)
  have a: "CHR ''('' \<notin> set (Alias m)" by (simp add: m_def)
  have v: "le_value (take 4 [4, 3, 2, 1 :: byte]) = 0x01020304" and z: "0 \<notin> set [4, 3, 2, 1 :: byte]"
    by simp_all
  have "wrap_int ty_int32 0x01020304 = 0x01020304" by (simp add: wrap_int_def ty_int32_def)
  with raw_uint32_scans_for_zero [where L = "undefined :: int float_lib", OF f _ a] v z
  have "GetData (undefined :: int float_lib) f (TInt ty_int32) = Some (Ret (VInt 0x01020304)) \<and>
    GetData (undefined :: int float_lib) f (TInt ty_uint32) = Some (Crash OutOfBounds)"
    by (simp add: m_def)
  with f show ?thesis by (intro exI [of _ f] exI [of _ m]) (simp add: m_def)
qed

end
