(* ===== verification/Result_Set.thy ===== *)
theory Result_Set
  imports Db_Field
begin

section \<open>Result sets (QueryResult.h/.cpp)\<close>

text \<open>
  The text result, fetched row by row, and the prepared result, which copies every row into one
  buffer when it is built. Pointers into that buffer are offsets; the library writes the values of
  a fetched row through its own copies of them, which the constructor moves on by one row length
  for every value that is not null. The constructor first deletes the arrays of lengths and null flags
  an earlier result has left in the library's statement; they are not used again, and that is left
  out.
\<close>

subsection \<open>The text result\<close>

text \<open>A row the library hands out; \<open>lengths_ok\<close> is whether it can give the lengths.\<close>

record db_row =
  cells :: "bytes option list"
  lengths_ok :: bool

record result_set =
  rs_fieldMetadata :: "metadata list"
  rs_rowCount :: nat
  rs_currentRow :: "field list option"
  rs_fieldCount :: nat
  rs_result :: "db_row list option"
  rs_fields :: "lib_field list"

definition column_metadata :: "lib_field list \<Rightarrow> nat \<Rightarrow> metadata list" where
  "column_metadata flds n = map (\<lambda>i. InitializeDatabaseFieldMetadata (flds ! i) i) [0..<n]"

definition ResultSet_new :: "db_row list option \<Rightarrow> lib_field list \<Rightarrow> nat \<Rightarrow> nat \<Rightarrow> result_set outcome" where
  "ResultSet_new result flds rowCount fieldCount =
     (if length flds < fieldCount then Crash OutOfBounds
      else Ret \<lparr>rs_fieldMetadata = column_metadata flds fieldCount, rs_rowCount = rowCount,
        rs_currentRow = Some (map (\<lambda>m. SetMetadata m field_new) (column_metadata flds fieldCount)),
        rs_fieldCount = fieldCount, rs_result = result, rs_fields = flds\<rparr>)"

definition rs_CleanUp :: "result_set \<Rightarrow> result_set" where
  "rs_CleanUp rs = rs\<lparr>rs_currentRow := None, rs_result := None\<rparr>"

text \<open>A cell is a C string of the library, or a null pointer with length 0.\<close>

definition text_value :: "bytes option \<Rightarrow> field \<Rightarrow> field" where
  "text_value c = SetStructuredValue (map_option (\<lambda>b. b @ [0]) c)
     (word_of_nat (case c of None \<Rightarrow> 0 | Some b \<Rightarrow> length b))"

definition rs_NextRow :: "result_set \<Rightarrow> (bool \<times> result_set) outcome" where
  "rs_NextRow rs =
     (case rs_result rs of
        None \<Rightarrow> Ret (False, rs)
      | Some [] \<Rightarrow> Ret (False, rs_CleanUp rs)
      | Some (row # rows) \<Rightarrow>
          if \<not> lengths_ok row then Ret (False, rs_CleanUp rs)
          else if length (cells row) < rs_fieldCount rs then Crash OutOfBounds
          else (case rs_currentRow rs of
                  None \<Rightarrow> Crash NullDeref
                | Some cur \<Rightarrow>
                    Ret (True, rs\<lparr>rs_result := Some rows,
                      rs_currentRow := Some (map2 text_value (cells row) cur)\<rparr>)))"

definition rs_GetFieldName :: "result_set \<Rightarrow> nat \<Rightarrow> string outcome" where
  "rs_GetFieldName rs index =
     (if index < rs_fieldCount rs then Ret (f_name (rs_fields rs ! index))
      else Crash (AssertFail ''index < _fieldCount''))"

definition rs_index :: "result_set \<Rightarrow> nat \<Rightarrow> field outcome" where
  "rs_index rs index =
     (if index < rs_fieldCount rs
      then (case rs_currentRow rs of None \<Rightarrow> Crash NullDeref | Some cur \<Rightarrow> Ret (cur ! index))
      else Crash (AssertFail ''index < _fieldCount''))"

text \<open>\<open>FetchTuple\<close>: one getter per type, at 0, 1 and so on; the index is a \<open>uint8\<close>.\<close>

primrec fetch_tuple ::
  "'f float_lib \<Rightarrow> (nat \<Rightarrow> field outcome) \<Rightarrow> uint8 \<Rightarrow> cpp_type list \<Rightarrow> 'f cpp_value list outcome option" where
  "fetch_tuple L get index [] = Some (Ret [])"
| "fetch_tuple L get index (T # Ts) =
     (case get (unat index) of
        Crash c \<Rightarrow> Some (Crash c)
      | Ret f \<Rightarrow>
          (case GetData L f T of
             None \<Rightarrow> None
           | Some (Crash c) \<Rightarrow> Some (Crash c)
           | Some (Ret v) \<Rightarrow> map_option (map_outcome ((#) v)) (fetch_tuple L get (index + 1) Ts)))"

definition rs_FetchTuple :: "'f float_lib \<Rightarrow> result_set \<Rightarrow> cpp_type list \<Rightarrow> 'f cpp_value list outcome option" where
  "rs_FetchTuple L rs Ts =
     (if length Ts \<noteq> rs_fieldCount rs then Some (Crash (AssertFail ''sizeRows == _fieldCount''))
      else fetch_tuple L (rs_index rs) 0 Ts)"

subsection \<open>The prepared result\<close>

text \<open>
  What the library answers while the result is built: the metadata, whether storing and binding
  succeed, the number of rows, and what each fetch returns. A fetched value is the bytes written to
  the buffer and the length reported, for a null value that of before.
\<close>

record cell =
  cell_data :: "bytes option"
  cell_length :: nat

datatype fetch = FetchRow "cell list" | FetchTruncated "cell list" | FetchNoData | FetchError

record stmt_result =
  sr_metadata :: "lib_field list option"
  sr_store_ok :: bool
  sr_num_rows :: nat
  sr_bind_ok :: bool
  sr_fetches :: "fetch list"
  sr_time_size :: uint32
  sr_fresh :: "nat \<Rightarrow> byte"

text \<open>A field of \<open>m_rows\<close>, its value an offset into the buffer.\<close>

record row_field =
  rf_ptr :: "nat option"
  rf_length :: uint32
  rf_meta :: "metadata option"

definition row_field_new :: row_field where
  "row_field_new = \<lparr>rf_ptr = None, rf_length = 0, rf_meta = None\<rparr>"

datatype bind_ptr = BindNull | BindLive | BindFreed

record prepared_set =
  ps_fieldMetadata :: "metadata list"
  ps_rows :: "row_field list"
  ps_rowCount :: nat
  ps_rowPosition :: nat
  ps_fieldCount :: nat
  ps_rBind :: bind_ptr
  ps_metadataFreed :: "bool option"
  ps_memory :: bytes

definition write_at :: "bytes \<Rightarrow> nat \<Rightarrow> bytes \<Rightarrow> bytes outcome" where
  "write_at mem p bs =
     (if p + length bs \<le> length mem then Ret (take p mem @ bs @ drop (p + length bs) mem)
      else Crash OutOfBounds)"

text \<open>What one fetch writes: at most the buffer length of each value that is not null.\<close>

primrec fetch_write :: "(nat \<times> nat \<times> cell) list \<Rightarrow> bytes \<Rightarrow> bytes outcome" where
  "fetch_write [] mem = Ret mem"
| "fetch_write (x # xs) mem =
     (case x of (p, sz, c) \<Rightarrow>
        (case cell_data c of
           None \<Rightarrow> fetch_write xs mem
         | Some img \<Rightarrow> bind_outcome (write_at mem p (take sz img)) (fetch_write xs)))"

definition is_string_type :: "field_type \<Rightarrow> bool" where
  "is_string_type ty \<longleftrightarrow> ty \<in> {MYSQL_TYPE_TINY_BLOB, MYSQL_TYPE_MEDIUM_BLOB, MYSQL_TYPE_LONG_BLOB, MYSQL_TYPE_BLOB,
     MYSQL_TYPE_STRING, MYSQL_TYPE_VAR_STRING}"

text \<open>The index arithmetic is on 32 bits.\<close>

definition row_index :: "nat \<Rightarrow> nat \<Rightarrow> nat \<Rightarrow> nat" where
  "row_index pos fieldCount i = ((pos mod 2 ^ 32) * fieldCount + i) mod 2 ^ 32"

text \<open>The body of the loop over the fields of a row; a column is its type, size and metadata.\<close>

fun row_fields ::
  "nat \<Rightarrow> nat \<Rightarrow> nat \<Rightarrow> nat \<Rightarrow> (field_type \<times> nat \<times> metadata) list \<Rightarrow> cell list \<Rightarrow>
   row_field list \<times> bytes \<times> nat list \<Rightarrow> (row_field list \<times> bytes \<times> nat list) outcome" where
  "row_fields pos fc rowSize i ((ty, sz, m) # cols) (c # cs) (rows, mem, ptrs) =
     (let idx = row_index pos fc i in
      if length rows \<le> idx then Crash OutOfBounds
      else
        (case cell_data c of
           Some img \<Rightarrow>
             bind_outcome
               (if is_string_type ty \<and> cell_length c < sz then write_at mem (ptrs ! i + cell_length c) [0] else Ret mem)
               (\<lambda>mem. row_fields pos fc rowSize (i + 1) cols cs
                 (rows[idx := \<lparr>rf_ptr = Some (ptrs ! i), rf_length = word_of_nat (cell_length c), rf_meta = Some m\<rparr>],
                  mem, ptrs[i := ptrs ! i + rowSize]))
         | None \<Rightarrow>
             row_fields pos fc rowSize (i + 1) cols cs
               (rows[idx := \<lparr>rf_ptr = None, rf_length = word_of_nat (cell_length c), rf_meta = Some m\<rparr>],
                mem, ptrs)))"
| "row_fields pos fc rowSize i cols cs st = Ret st"

text \<open>The \<open>while\<close> loop over \<open>_NextRow\<close>; with no answers left the library has no data.\<close>

definition fetched_cells :: "fetch \<Rightarrow> cell list option" where
  "fetched_cells f = (case f of FetchRow cs \<Rightarrow> Some cs | FetchTruncated cs \<Rightarrow> Some cs | _ \<Rightarrow> None)"

primrec fetch_loop ::
  "nat \<Rightarrow> nat \<Rightarrow> (field_type \<times> nat \<times> metadata) list \<Rightarrow> nat \<Rightarrow> fetch list \<Rightarrow>
   row_field list \<times> bytes \<times> nat list \<Rightarrow> (row_field list \<times> bytes \<times> nat list) outcome" where
  "fetch_loop rowCount rowSize cols pos [] st = Ret st"
| "fetch_loop rowCount rowSize cols pos (f # fetches) st =
     (if rowCount \<le> pos then Ret st
      else
        (case fetched_cells f of
           None \<Rightarrow> Ret st
         | Some cs \<Rightarrow>
             (case st of (rows, mem, ptrs) \<Rightarrow>
                bind_outcome (fetch_write (zip ptrs (zip (map (fst \<circ> snd) cols) cs)) mem) (\<lambda>mem.
                bind_outcome (row_fields pos (length cols) rowSize 0 cols cs (rows, mem, ptrs))
                  (fetch_loop rowCount rowSize cols (pos + 1) fetches)))))"

text \<open>The offsets of the columns; the running offset is a \<open>uint32\<close>.\<close>

primrec column_offsets :: "nat \<Rightarrow> nat list \<Rightarrow> nat list" where
  "column_offsets off [] = []"
| "column_offsets off (sz # szs) = off # column_offsets ((off + sz) mod 2 ^ 32) szs"

definition ps_columns :: "uint32 \<Rightarrow> lib_field list \<Rightarrow> (field_type \<times> nat \<times> metadata) list" where
  "ps_columns time_size flds =
     map (\<lambda>i. (f_type (flds ! i), unat (SizeForType time_size (flds ! i)), InitializeDatabaseFieldMetadata (flds ! i) i))
       [0..<length flds]"

definition PreparedResultSet_new :: "stmt_result \<Rightarrow> nat \<Rightarrow> nat \<Rightarrow> prepared_set outcome" where
  "PreparedResultSet_new sr rowCount fieldCount =
     (let ps = \<lparr>ps_fieldMetadata = [], ps_rows = [], ps_rowCount = rowCount, ps_rowPosition = 0,
            ps_fieldCount = fieldCount, ps_rBind = BindNull, ps_metadataFreed = None, ps_memory = []\<rparr> in
      case sr_metadata sr of
        None \<Rightarrow> Ret ps
      | Some flds \<Rightarrow>
          if \<not> sr_store_ok sr then Ret (ps\<lparr>ps_rBind := BindFreed, ps_metadataFreed := Some False\<rparr>)
          else if length flds < fieldCount then Crash OutOfBounds
          else
            let rows = sr_num_rows sr;
                cols = ps_columns (sr_time_size sr) (take fieldCount flds);
                sizes = map (fst \<circ> snd) cols;
                rowSize = sum_list sizes;
                ps = ps\<lparr>ps_rowCount := rows, ps_fieldMetadata := map (snd \<circ> snd) cols\<rparr>
            in if \<not> sr_bind_ok sr then Ret (ps\<lparr>ps_metadataFreed := Some True\<rparr>)
               else
                 bind_outcome
                   (fetch_loop rows rowSize cols 0 (sr_fetches sr)
                     (replicate (((rows mod 2 ^ 32) * fieldCount) mod 2 ^ 32) row_field_new,
                      map (sr_fresh sr) [0..<rowSize * rows], column_offsets 0 sizes))
                   (\<lambda>(m_rows, mem, ptrs).
                     Ret (ps\<lparr>ps_rows := m_rows, ps_memory := mem, ps_rBind := BindLive,
                             ps_metadataFreed := Some False\<rparr>)))"

text \<open>
  \<open>CleanUp\<close>, which the destructor calls and the constructor calls when binding fails; the metadata
  pointer is not reset, and the bind pointer is not when storing failed.
\<close>

definition ps_CleanUp :: "prepared_set \<Rightarrow> prepared_set outcome" where
  "ps_CleanUp ps =
     (if ps_metadataFreed ps = Some True then Crash DoubleFree
      else case ps_rBind ps of
          BindFreed \<Rightarrow> Crash DoubleFree
        | _ \<Rightarrow> Ret (ps\<lparr>ps_metadataFreed := map_option (\<lambda>_. True) (ps_metadataFreed ps), ps_rBind := BindNull,
                    ps_memory := []\<rparr>))"

definition ps_NextRow :: "prepared_set \<Rightarrow> bool \<times> prepared_set" where
  "ps_NextRow ps =
     (let ps = ps\<lparr>ps_rowPosition := ps_rowPosition ps + 1\<rparr> in (ps_rowPosition ps < ps_rowCount ps, ps))"

text \<open>A field as its getters see it.\<close>

definition ps_view :: "prepared_set \<Rightarrow> row_field \<Rightarrow> field" where
  "ps_view ps rf = \<lparr>fvalue = map_option (\<lambda>p. drop p (ps_memory ps)) (rf_ptr rf), flength = rf_length rf,
     raw = True, meta = rf_meta rf\<rparr>"

definition ps_index :: "prepared_set \<Rightarrow> nat \<Rightarrow> field outcome" where
  "ps_index ps index =
     (if \<not> ps_rowPosition ps < ps_rowCount ps then Crash (AssertFail ''m_rowPosition < m_rowCount'')
      else if \<not> index < ps_fieldCount ps then Crash (AssertFail ''index < m_fieldCount'')
      else
        let idx = row_index (ps_rowPosition ps) (ps_fieldCount ps) index
        in if length (ps_rows ps) \<le> idx then Crash OutOfBounds else Ret (ps_view ps (ps_rows ps ! idx)))"

text \<open>\<open>Fetch\<close>: the fields from the first of the current row on.\<close>

definition ps_Fetch :: "prepared_set \<Rightarrow> field list outcome" where
  "ps_Fetch ps =
     (if \<not> ps_rowPosition ps < ps_rowCount ps then Crash (AssertFail ''m_rowPosition < m_rowCount'')
      else
        let idx = row_index (ps_rowPosition ps) (ps_fieldCount ps) 0
        in if length (ps_rows ps) \<le> idx then Crash OutOfBounds
           else Ret (map (ps_view ps) (drop idx (ps_rows ps))))"

definition ps_FetchTuple :: "'f float_lib \<Rightarrow> prepared_set \<Rightarrow> cpp_type list \<Rightarrow> 'f cpp_value list outcome option" where
  "ps_FetchTuple L ps Ts =
     (if \<not> ps_rowPosition ps < ps_rowCount ps then Some (Crash (AssertFail ''m_rowPosition < m_rowCount''))
      else if length Ts \<noteq> ps_fieldCount ps then Some (Crash (AssertFail ''sizeRows == m_fieldCount''))
      else fetch_tuple L (ps_index ps) 0 Ts)"

subsection \<open>Lemmas: reading the buffer back\<close>

definition read_at :: "bytes \<Rightarrow> nat \<Rightarrow> nat \<Rightarrow> bytes" where
  "read_at mem p n = take n (drop p mem)"

lemma write_at_spec:
  assumes "p + length bs \<le> length mem"
  obtains mem' where "write_at mem p bs = Ret mem'" "length mem' = length mem"
    "read_at mem' p (length bs) = bs"
    "\<And>q n. q + n \<le> p \<or> p + length bs \<le> q \<Longrightarrow> read_at mem' q n = read_at mem q n"
proof
  let ?m = "take p mem @ bs @ drop (p + length bs) mem"
  show "write_at mem p bs = Ret ?m" using assms by (simp add: write_at_def)
  show "length ?m = length mem" using assms by simp
  show "read_at ?m p (length bs) = bs" using assms by (simp add: read_at_def)
  show "read_at ?m q n = read_at mem q n" if "q + n \<le> p \<or> p + length bs \<le> q" for q n
    using that
  proof
    assume q: "q + n \<le> p"
    then have "n \<le> length (drop q (take p mem))" using assms by simp
    then have "read_at ?m q n = take n (drop q (take p mem))" using q assms by (simp add: read_at_def)
    then show ?thesis using q by (simp add: read_at_def drop_take)
  next
    assume q: "p + length bs \<le> q"
    with assms have "drop q ?m = drop (q - p - length bs) (drop (p + length bs) mem)" by simp
    then show ?thesis using q by (simp add: read_at_def)
  qed
qed

text \<open>Two areas that do not overlap.\<close>

definition apart :: "nat \<Rightarrow> nat \<Rightarrow> nat \<Rightarrow> nat \<Rightarrow> bool" where
  "apart p n q m \<longleftrightarrow> p + n \<le> q \<or> q + m \<le> p"

lemma fetch_write_spec:
  assumes "\<And>p sz c img. (p, sz, c) \<in> set xs \<Longrightarrow> cell_data c = Some img \<Longrightarrow> length img \<le> sz \<and> p + sz \<le> length mem"
    and "sorted_wrt (\<lambda>(p, sz, c) (q, sz', c'). apart p sz q sz') xs"
  shows "\<exists>mem'. fetch_write xs mem = Ret mem' \<and> length mem' = length mem \<and>
    (\<forall>q n. (\<forall>(p, sz, c) \<in> set xs. cell_data c \<noteq> None \<longrightarrow> apart p sz q n) \<longrightarrow> read_at mem' q n = read_at mem q n) \<and>
    (\<forall>(p, sz, c) \<in> set xs. \<forall>img. cell_data c = Some img \<longrightarrow> read_at mem' p (length img) = img)"
  using assms
proof (induction xs arbitrary: mem)
  case (Cons x xs)
  obtain p sz c where x: "x = (p, sz, c)" by (cases x)
  show ?case
  proof (cases "cell_data c")
    case None
    with Cons x show ?thesis by fastforce
  next
    case (Some img)
    have len: "length img \<le> sz" "p + sz \<le> length mem" using Cons.prems(1) [of p sz c img] x Some by auto
    have "p + length (take sz img) \<le> length mem" using len by simp
    from write_at_spec [OF this] obtain m1 where m1: "write_at mem p (take sz img) = Ret m1"
      "length m1 = length mem" "read_at m1 p (length img) = img"
      "\<And>q n. q + n \<le> p \<or> p + length img \<le> q \<Longrightarrow> read_at m1 q n = read_at mem q n"
      using len by auto
    have "\<exists>mem'. fetch_write xs m1 = Ret mem' \<and> length mem' = length m1 \<and>
      (\<forall>q n. (\<forall>(p, sz, c) \<in> set xs. cell_data c \<noteq> None \<longrightarrow> apart p sz q n) \<longrightarrow> read_at mem' q n = read_at m1 q n) \<and>
      (\<forall>(p, sz, c) \<in> set xs. \<forall>img. cell_data c = Some img \<longrightarrow> read_at mem' p (length img) = img)"
      using Cons.prems m1(2) by (intro Cons.IH) auto
    then obtain m2 where m2: "fetch_write xs m1 = Ret m2" "length m2 = length m1"
      "\<And>q n. (\<forall>(p, sz, c) \<in> set xs. cell_data c \<noteq> None \<longrightarrow> apart p sz q n) \<Longrightarrow> read_at m2 q n = read_at m1 q n"
      "\<forall>(p, sz, c) \<in> set xs. \<forall>img. cell_data c = Some img \<longrightarrow> read_at m2 p (length img) = img"
      by blast
    have run: "fetch_write (x # xs) mem = Ret m2" using x Some m1(1) m2(1) by simp
    have old: "read_at m2 q n = read_at mem q n"
      if "\<forall>(p, sz, c) \<in> set (x # xs). cell_data c \<noteq> None \<longrightarrow> apart p sz q n" for q n
      using that x Some m2(3) [of q n] m1(4) [of q n] len(1) by (auto simp: apart_def)
    have "apart q sz' p (length img)" if "(q, sz', c') \<in> set xs" for q sz' c'
      using Cons.prems(2) that x len(1) by (fastforce simp: apart_def)
    then have "read_at m2 p (length img) = img"
      using m2(3) [of p "length img"] m1(3) by auto
    with run old m2(2,4) m1(2) x Some show ?thesis by auto
  qed
qed simp

text \<open>What the loop over the fields of a row leaves in a place of \<open>m_rows\<close>.\<close>

definition row_entry :: "nat \<Rightarrow> cell \<Rightarrow> metadata \<Rightarrow> row_field" where
  "row_entry p c m = \<lparr>rf_ptr = map_option (\<lambda>_. p) (cell_data c), rf_length = word_of_nat (cell_length c), rf_meta = Some m\<rparr>"

lemma row_index_eq:
  assumes "pos * fc + i < 2 ^ 32" and "0 < fc"
  shows "row_index pos fc i = pos * fc + i"
proof -
  have "pos * 1 \<le> pos * fc" using assms(2) by (intro mult_le_mono) simp_all
  with assms have "pos < 2 ^ 32" by linarith
  with assms show ?thesis by (simp add: row_index_def)
qed

lemma row_fields_step:
  assumes "length rows > row_index pos fc i" and "i < length ptrs"
    and "cell_data c \<noteq> None \<Longrightarrow> ptrs ! i + sz \<le> length mem"
  shows "\<exists>mem1.
    row_fields pos fc R i ((ty, sz, m) # cols) (c # cs) (rows, mem, ptrs) =
      row_fields pos fc R (i + 1) cols cs (rows[row_index pos fc i := row_entry (ptrs ! i) c m], mem1,
        ptrs[i := ptrs ! i + (if cell_data c = None then 0 else R)]) \<and>
    length mem1 = length mem \<and>
    (\<forall>q n. (cell_data c \<noteq> None \<and> cell_length c < sz \<longrightarrow> apart (ptrs ! i + cell_length c) 1 q n) \<longrightarrow>
      read_at mem1 q n = read_at mem q n)"
proof (cases "cell_data c")
  case None
  show ?thesis by (rule exI [of _ mem]) (use assms None in \<open>simp add: row_entry_def Let_def\<close>)
next
  case (Some img)
  show ?thesis
  proof (cases "is_string_type ty \<and> cell_length c < sz")
    case True
    with assms(3) Some have "ptrs ! i + cell_length c + length [0 :: byte] \<le> length mem" by fastforce
    from write_at_spec [OF this] obtain m1 where "write_at mem (ptrs ! i + cell_length c) [0] = Ret m1"
      "length m1 = length mem"
      "\<And>q n. q + n \<le> ptrs ! i + cell_length c \<or> ptrs ! i + cell_length c + length [0 :: byte] \<le> q \<Longrightarrow>
        read_at m1 q n = read_at mem q n"
      by metis
    then show ?thesis using True Some assms by (intro exI [of _ m1]) (auto simp: row_entry_def Let_def apart_def)
  next
    case False
    then show ?thesis using Some assms by (intro exI [of _ mem]) (auto simp: row_entry_def Let_def)
  qed
qed

lemma row_fields_spec:
  assumes "length cs = length cols" and "i + length cols = fc" and "length ptrs = fc"
    and "pos * fc + fc \<le> length rows" and "length rows < 2 ^ 32"
    and "\<And>j. j < length cols \<Longrightarrow> cell_data (cs ! j) \<noteq> None \<Longrightarrow> ptrs ! (i + j) + fst (snd (cols ! j)) \<le> length mem"
  shows "\<exists>rows' mem' ptrs'. row_fields pos fc R i cols cs (rows, mem, ptrs) = Ret (rows', mem', ptrs') \<and>
    length rows' = length rows \<and> length mem' = length mem \<and> length ptrs' = fc \<and>
    (\<forall>j<fc. ptrs' ! j = (if i \<le> j \<and> cell_data (cs ! (j - i)) \<noteq> None then ptrs ! j + R else ptrs ! j)) \<and>
    (\<forall>idx. (idx < pos * fc + i \<or> pos * fc + fc \<le> idx) \<longrightarrow> rows' ! idx = rows ! idx) \<and>
    (\<forall>j<length cols. rows' ! (pos * fc + i + j) = row_entry (ptrs ! (i + j)) (cs ! j) (snd (snd (cols ! j)))) \<and>
    (\<forall>q n. (\<forall>j<length cols. cell_data (cs ! j) \<noteq> None \<and> cell_length (cs ! j) < fst (snd (cols ! j)) \<longrightarrow>
        apart (ptrs ! (i + j) + cell_length (cs ! j)) 1 q n) \<longrightarrow> read_at mem' q n = read_at mem q n)"
  using assms
proof (induction cols arbitrary: i cs rows mem ptrs)
  case (Cons col cols)
  obtain ty sz m where col: "col = (ty, sz, m)" by (cases col)
  obtain c cs' where cs: "cs = c # cs'" using Cons.prems(1) by (cases cs) auto
  have i: "i < fc" and fc: "0 < fc" using Cons.prems(2) by simp_all
  let ?idx = "pos * fc + i"
  have idx: "row_index pos fc i = ?idx" and idx_len: "?idx < length rows"
    using Cons.prems(4,5) i by (simp_all add: row_index_eq)
  let ?rows = "rows[?idx := row_entry (ptrs ! i) c m]"
  let ?ptrs = "ptrs[i := ptrs ! i + (if cell_data c = None then 0 else R)]"
  have a: "length rows > row_index pos fc i" and b: "i < length ptrs"
    and d: "cell_data c \<noteq> None \<Longrightarrow> ptrs ! i + sz \<le> length mem"
    using idx idx_len i Cons.prems(3) Cons.prems(6) [of 0] by (auto simp: cs col)
  from row_fields_step [OF a b d, where R = R and ty = ty and m = m and cols = cols and cs = cs'] obtain mem1 where step:
    "row_fields pos fc R i (col # cols) cs (rows, mem, ptrs) = row_fields pos fc R (i + 1) cols cs' (?rows, mem1, ?ptrs)"
    "length mem1 = length mem"
    "\<forall>q n. (cell_data c \<noteq> None \<and> cell_length c < sz \<longrightarrow> apart (ptrs ! i + cell_length c) 1 q n) \<longrightarrow>
      read_at mem1 q n = read_at mem q n"
    unfolding idx col cs by blast
  have "\<exists>rows' mem' ptrs'. row_fields pos fc R (i + 1) cols cs' (?rows, mem1, ?ptrs) = Ret (rows', mem', ptrs') \<and>
    length rows' = length ?rows \<and> length mem' = length mem1 \<and> length ptrs' = fc \<and>
    (\<forall>j<fc. ptrs' ! j = (if i + 1 \<le> j \<and> cell_data (cs' ! (j - (i + 1))) \<noteq> None then ?ptrs ! j + R else ?ptrs ! j)) \<and>
    (\<forall>idx. (idx < pos * fc + (i + 1) \<or> pos * fc + fc \<le> idx) \<longrightarrow> rows' ! idx = ?rows ! idx) \<and>
    (\<forall>j<length cols. rows' ! (pos * fc + (i + 1) + j) = row_entry (?ptrs ! (i + 1 + j)) (cs' ! j) (snd (snd (cols ! j)))) \<and>
    (\<forall>q n. (\<forall>j<length cols. cell_data (cs' ! j) \<noteq> None \<and> cell_length (cs' ! j) < fst (snd (cols ! j)) \<longrightarrow>
        apart (?ptrs ! (i + 1 + j) + cell_length (cs' ! j)) 1 q n) \<longrightarrow> read_at mem' q n = read_at mem1 q n)"
  proof (rule Cons.IH)
    show "length cs' = length cols" "i + 1 + length cols = fc" "length ?ptrs = fc"
      "pos * fc + fc \<le> length ?rows" "length ?rows < 2 ^ 32"
      using Cons.prems cs by simp_all
    show "?ptrs ! (i + 1 + j) + fst (snd (cols ! j)) \<le> length mem1"
      if "j < length cols" "cell_data (cs' ! j) \<noteq> None" for j
      using Cons.prems(6) [of "Suc j"] that step(2) by (simp add: cs)
  qed
  then obtain rows' mem' ptrs' where r: "row_fields pos fc R (i + 1) cols cs' (?rows, mem1, ?ptrs) = Ret (rows', mem', ptrs')"
    "length rows' = length ?rows" "length mem' = length mem1" "length ptrs' = fc"
    "\<And>j. j < fc \<Longrightarrow> ptrs' ! j = (if i + 1 \<le> j \<and> cell_data (cs' ! (j - (i + 1))) \<noteq> None then ?ptrs ! j + R else ?ptrs ! j)"
    "\<And>idx. (idx < pos * fc + (i + 1) \<or> pos * fc + fc \<le> idx) \<Longrightarrow> rows' ! idx = ?rows ! idx"
    "\<And>j. j < length cols \<Longrightarrow> rows' ! (pos * fc + (i + 1) + j) = row_entry (?ptrs ! (i + 1 + j)) (cs' ! j) (snd (snd (cols ! j)))"
    "\<And>q n. (\<forall>j<length cols. cell_data (cs' ! j) \<noteq> None \<and> cell_length (cs' ! j) < fst (snd (cols ! j)) \<longrightarrow>
        apart (?ptrs ! (i + 1 + j) + cell_length (cs' ! j)) 1 q n) \<Longrightarrow> read_at mem' q n = read_at mem1 q n"
    by blast
  have "ptrs' ! j = (if i \<le> j \<and> cell_data (cs ! (j - i)) \<noteq> None then ptrs ! j + R else ptrs ! j)" if "j < fc" for j
    using r(5) [OF that] b by (cases "j = i") (auto simp: cs nth_Cons')
  moreover have "rows' ! k = rows ! k" if "k < pos * fc + i \<or> pos * fc + fc \<le> k" for k
    using r(6) [of k] that i by auto
  moreover have "rows' ! (pos * fc + i + j) = row_entry (ptrs ! (i + j)) (cs ! j) (snd (snd ((col # cols) ! j)))"
    if "j < length (col # cols)" for j
    using that r(6) [of ?idx] r(7) [of "j - 1"] idx_len by (cases j) (auto simp: cs col)
  moreover have "read_at mem' q n = read_at mem q n"
    if "\<forall>j<length (col # cols). cell_data (cs ! j) \<noteq> None \<and> cell_length (cs ! j) < fst (snd ((col # cols) ! j)) \<longrightarrow>
        apart (ptrs ! (i + j) + cell_length (cs ! j)) 1 q n" for q n
  proof -
    have "read_at mem' q n = read_at mem1 q n"
    proof (rule r(8), intro allI impI)
      fix j assume "j < length cols" "cell_data (cs' ! j) \<noteq> None \<and> cell_length (cs' ! j) < fst (snd (cols ! j))"
      then show "apart (?ptrs ! (i + 1 + j) + cell_length (cs' ! j)) 1 q n"
        using that [rule_format, of "Suc j"] by (simp add: cs)
    qed
    moreover have "read_at mem1 q n = read_at mem q n"
      using step(3) [rule_format, of q n] that [rule_format, of 0] by (simp add: cs col)
    ultimately show ?thesis by simp
  qed
  ultimately show ?case using step(1,2) r(1-4) by auto
qed simp

subsection \<open>Lemmas: the layout of the buffer\<close>

definition slot :: "nat list \<Rightarrow> nat \<Rightarrow> nat \<Rightarrow> nat" where
  "slot szs i m = sum_list (take i szs) + sum_list szs * m"

lemma sum_list_take_Suc: "i < length szs \<Longrightarrow> sum_list (take (Suc i) szs) = sum_list (take i szs) + szs ! i"
  by (simp add: take_Suc_conv_app_nth)

lemma sum_list_take_mono: "i \<le> j \<Longrightarrow> sum_list (take i szs) \<le> sum_list (take j (szs :: nat list))"
proof -
  assume "i \<le> j"
  then have "take j szs = take i szs @ take (j - i) (drop i szs)" by (metis le_add_diff_inverse take_add)
  then show ?thesis by simp
qed

lemma sum_list_take_le: "sum_list (take i szs) \<le> sum_list (szs :: nat list)"
  using sum_list_take_mono [of i "max i (length szs)" szs] by simp

lemma slot_in_bounds:
  assumes "i < length szs" and "m < N"
  shows "slot szs i m + szs ! i \<le> sum_list szs * N"
proof -
  have "slot szs i m + szs ! i = sum_list (take (Suc i) szs) + sum_list szs * m"
    using sum_list_take_Suc [OF assms(1)] by (simp add: slot_def)
  also have "\<dots> \<le> sum_list szs * Suc m" using sum_list_take_le [of "Suc i" szs] by simp
  also have "\<dots> \<le> sum_list szs * N" using assms(2) by (intro mult_le_mono2) simp
  finally show ?thesis .
qed

lemma slots_apart:
  assumes "i < length szs" and "j < length szs" and "(i, m) \<noteq> (j, l)"
  shows "apart (slot szs i m) (szs ! i) (slot szs j l) (szs ! j)"
proof -
  have before: "slot szs a p + szs ! a \<le> slot szs b q"
    if "a < length szs" "p < q \<or> p = q \<and> a < b" for a b p q
  proof (cases "p < q")
    case True
    have "slot szs a p + szs ! a \<le> sum_list szs * q" by (rule slot_in_bounds [OF that(1) True])
    then show ?thesis by (simp add: slot_def)
  next
    case False
    with that have "p = q" "Suc a \<le> b" by auto
    with sum_list_take_mono [of "Suc a" b szs] sum_list_take_Suc [OF that(1)] show ?thesis by (simp add: slot_def)
  qed
  from assms(3) consider "m < l \<or> m = l \<and> i < j" | "l < m \<or> l = m \<and> j < i" by fastforce
  then show ?thesis using before [OF assms(1)] before [OF assms(2)] by cases (auto simp: apart_def)
qed

lemma apart_within: "apart p n q m \<Longrightarrow> n' \<le> n \<Longrightarrow> m' \<le> m \<Longrightarrow> apart p n' q m'"
  by (auto simp: apart_def)


lemma column_offsets_eq:
  assumes "off + sum_list szs < 2 ^ 32"
  shows "column_offsets off szs = map (\<lambda>i. off + sum_list (take i szs)) [0..<length szs]"
  using assms
proof (induction szs arbitrary: off)
  case (Cons sz szs)
  have "(off + sz) mod 2 ^ 32 = off + sz" using Cons.prems by simp
  with Cons show ?case
    by (simp add: upt_conv_Cons map_Suc_upt [symmetric] add.assoc del: upt_Suc map_Suc_upt)
qed simp

text \<open>How many values of a column that are not null come before a row.\<close>

definition stored :: "cell list list \<Rightarrow> nat \<Rightarrow> nat \<Rightarrow> nat" where
  "stored rws i k = length (filter (\<lambda>cs. cell_data (cs ! i) \<noteq> None) (take k rws))"

lemma stored_Suc:
  "k < length rws \<Longrightarrow> stored rws i (Suc k) = stored rws i k + (if cell_data (rws ! k ! i) = None then 0 else 1)"
  by (simp add: stored_def take_Suc_conv_app_nth)

lemma stored_le: "stored rws i k \<le> k"
proof -
  have "stored rws i k \<le> length (take k rws)" unfolding stored_def by (rule length_filter_le)
  then show ?thesis by simp
qed

lemma stored_mono:
  assumes "j \<le> k" shows "stored rws i j \<le> stored rws i k"
proof -
  have "take k rws = take j rws @ take (k - j) (drop j rws)" by (metis assms le_add_diff_inverse take_add)
  then show ?thesis by (simp add: stored_def)
qed

lemma stored_less:
  assumes "r < k" and "k \<le> length rws" and "cell_data (rws ! r ! i) \<noteq> None"
  shows "stored rws i r < stored rws i k"
  using stored_mono [of "Suc r" k rws i] assms by (simp add: stored_Suc)

subsection \<open>Lemmas: every row of the loop\<close>

abbreviation col_size :: "field_type \<times> nat \<times> metadata \<Rightarrow> nat" where
  "col_size c \<equiv> fst (snd c)"

text \<open>A row as the library reports it: a cell per column, each value within the size of its column.\<close>

definition row_fits :: "(field_type \<times> nat \<times> metadata) list \<Rightarrow> cell list \<Rightarrow> bool" where
  "row_fits cols cs \<longleftrightarrow> length cs = length cols \<and>
     (\<forall>i<length cols. \<forall>img. cell_data (cs ! i) = Some img \<longrightarrow>
        cell_length (cs ! i) = length img \<and> length img \<le> col_size (cols ! i))"

definition rows_inv ::
  "(field_type \<times> nat \<times> metadata) list \<Rightarrow> cell list list \<Rightarrow> nat \<Rightarrow> row_field list \<times> bytes \<times> nat list \<Rightarrow> bool" where
  "rows_inv cols rws k st \<longleftrightarrow>
     (case st of (rows, mem, ptrs) \<Rightarrow>
        length mem = sum_list (map col_size cols) * length rws \<and> length rows = length rws * length cols \<and> length ptrs = length cols \<and>
        (\<forall>i<length cols. ptrs ! i = slot (map col_size cols) i (stored rws i k)) \<and>
        (\<forall>r<k. \<forall>i<length cols.
           rows ! (r * length cols + i) = row_entry (slot (map col_size cols) i (stored rws i r)) (rws ! r ! i) (snd (snd (cols ! i))) \<and>
           (\<forall>img. cell_data (rws ! r ! i) = Some img \<longrightarrow>
              read_at mem (slot (map col_size cols) i (stored rws i r)) (length img) = img)))"

lemma row_write_step:
  assumes inv: "rows_inv cols rws k (rows, mem, ptrs)" and k: "k < length rws"
    and fits: "\<forall>cs \<in> set rws. row_fits cols cs"
  shows "\<exists>mem'. fetch_write (zip ptrs (zip (map col_size cols) (rws ! k))) mem = Ret mem' \<and>
    rows_inv cols rws k (rows, mem', ptrs) \<and>
    (\<forall>i<length cols. \<forall>img. cell_data (rws ! k ! i) = Some img \<longrightarrow> read_at mem' (ptrs ! i) (length img) = img)"
proof -
  define szs where "szs = map col_size cols"
  let ?cs = "rws ! k" and ?fc = "length cols"
  let ?xs = "zip ptrs (zip szs ?cs)"
  have fit: "row_fits cols (rws ! r)" if "r < length rws" for r using fits that by simp
  have lens: "length mem = sum_list szs * length rws" "length ptrs = ?fc" "length ?cs = ?fc" "length szs = ?fc"
    and ptrs: "\<And>i. i < ?fc \<Longrightarrow> ptrs ! i = slot szs i (stored rws i k)"
    using inv fit [OF k] by (simp_all add: rows_inv_def row_fits_def szs_def)
  have nth: "?xs ! i = (slot szs i (stored rws i k), szs ! i, ?cs ! i)" if "i < ?fc" for i
    using that lens ptrs by simp
  have len_xs: "length ?xs = ?fc" using lens by simp
  have mem_iff: "x \<in> set ?xs \<longleftrightarrow> (\<exists>i<?fc. x = (slot szs i (stored rws i k), szs ! i, ?cs ! i))" for x
    using nth len_xs by (metis in_set_conv_nth)
  have bound: "slot szs i (stored rws i k) + szs ! i \<le> length mem" if "i < ?fc" for i
    using slot_in_bounds [of i szs "stored rws i k" "length rws"] that lens k stored_le [of rws i k] by simp
  have "\<exists>mem'. fetch_write ?xs mem = Ret mem' \<and> length mem' = length mem \<and>
    (\<forall>q n. (\<forall>(p, sz, c) \<in> set ?xs. cell_data c \<noteq> None \<longrightarrow> apart p sz q n) \<longrightarrow> read_at mem' q n = read_at mem q n) \<and>
    (\<forall>(p, sz, c) \<in> set ?xs. \<forall>img. cell_data c = Some img \<longrightarrow> read_at mem' p (length img) = img)"
  proof (rule fetch_write_spec)
    show "length img \<le> sz \<and> p + sz \<le> length mem"
      if "(p, sz, c) \<in> set ?xs" "cell_data c = Some img" for p sz c img
    proof -
      from that(1) obtain i where "i < ?fc" "p = slot szs i (stored rws i k)" "sz = szs ! i" "c = ?cs ! i"
        by (auto simp: mem_iff)
      with that(2) fit [OF k] bound [of i] show ?thesis by (simp add: row_fits_def szs_def)
    qed
    show "sorted_wrt (\<lambda>(p, sz, c) (q, sz', c'). apart p sz q sz') ?xs"
      using nth len_xs slots_apart lens(4) by (auto simp: sorted_wrt_iff_nth_less)
  qed
  then obtain mem' where w: "fetch_write ?xs mem = Ret mem'" "length mem' = length mem"
    "\<And>q n. (\<forall>(p, sz, c) \<in> set ?xs. cell_data c \<noteq> None \<longrightarrow> apart p sz q n) \<Longrightarrow> read_at mem' q n = read_at mem q n"
    "\<forall>(p, sz, c) \<in> set ?xs. \<forall>img. cell_data c = Some img \<longrightarrow> read_at mem' p (length img) = img"
    by blast
  have new: "read_at mem' (ptrs ! i) (length img) = img" if "i < ?fc" "cell_data (?cs ! i) = Some img" for i img
  proof -
    have "(slot szs i (stored rws i k), szs ! i, ?cs ! i) \<in> set ?xs" using that mem_iff by blast
    with w(4) that ptrs show ?thesis by fastforce
  qed
  have old: "read_at mem' (slot szs i (stored rws i r)) (length img) = read_at mem (slot szs i (stored rws i r)) (length img)"
    if r: "r < k" and i: "i < ?fc" and img: "cell_data (rws ! r ! i) = Some img" for r i img
  proof (rule w(3), clarify)
    fix p sz c assume "(p, sz, c) \<in> set ?xs"
    then obtain j where j: "j < ?fc" "p = slot szs j (stored rws j k)" "sz = szs ! j" by (auto simp: mem_iff)
    have "(j, stored rws j k) \<noteq> (i, stored rws i r)"
      using stored_less [of r k rws i] r k img by auto
    then have "apart p sz (slot szs i (stored rws i r)) (szs ! i)"
      using j i lens(4) by (simp add: slots_apart)
    moreover have "length img \<le> szs ! i" using fit [of r] r k i img by (simp add: row_fits_def szs_def)
    ultimately show "apart p sz (slot szs i (stored rws i r)) (length img)" by (blast intro: apart_within)
  qed
  have "rows_inv cols rws k (rows, mem', ptrs)"
    using inv w(2) old by (auto simp: rows_inv_def szs_def [symmetric])
  with w(1) new show ?thesis by (auto simp: szs_def)
qed

lemma row_fields_keep:
  assumes inv: "rows_inv cols rws k (rows, mem, ptrs)" and k: "k < length rws"
    and fits: "\<forall>cs \<in> set rws. row_fits cols cs"
    and small: "length rws * length cols < 2 ^ 32"
    and now: "\<forall>i<length cols. \<forall>img. cell_data (rws ! k ! i) = Some img \<longrightarrow> read_at mem (ptrs ! i) (length img) = img"
  shows "\<exists>st'. row_fields k (length cols) (sum_list (map col_size cols)) 0 cols (rws ! k) (rows, mem, ptrs) = Ret st' \<and>
    rows_inv cols rws (Suc k) st'"
proof -
  define szs where "szs = map col_size cols"
  let ?cs = "rws ! k" and ?fc = "length cols"
  have fit: "row_fits cols (rws ! r)" if "r < length rws" for r using fits that by simp
  have lens: "length mem = sum_list szs * length rws" "length ptrs = ?fc" "length ?cs = ?fc" "length szs = ?fc"
    "length rows = length rws * ?fc"
    and ptrs: "\<And>i. i < ?fc \<Longrightarrow> ptrs ! i = slot szs i (stored rws i k)"
    using inv fit [OF k] by (simp_all add: rows_inv_def row_fits_def szs_def)
  have past: "rows ! (r * ?fc + i) = row_entry (slot szs i (stored rws i r)) (rws ! r ! i) (snd (snd (cols ! i)))"
    "\<And>img. cell_data (rws ! r ! i) = Some img \<Longrightarrow> read_at mem (slot szs i (stored rws i r)) (length img) = img"
    if "r < k" "i < ?fc" for r i
    using inv that by (auto simp: rows_inv_def szs_def)
  have bound: "ptrs ! i + szs ! i \<le> length mem" if "i < ?fc" for i
    using slot_in_bounds [of i szs "stored rws i k" "length rws"] that lens k stored_le [of rws i k] ptrs by simp
  have room: "k * ?fc + ?fc \<le> length rows"
    using k mult_le_mono1 [of "Suc k" "length rws" ?fc] by (simp add: lens(5))
  have "\<exists>rows' mem' ptrs'. row_fields k ?fc (sum_list szs) 0 cols ?cs (rows, mem, ptrs) = Ret (rows', mem', ptrs') \<and>
    length rows' = length rows \<and> length mem' = length mem \<and> length ptrs' = ?fc \<and>
    (\<forall>j<?fc. ptrs' ! j = (if 0 \<le> j \<and> cell_data (?cs ! (j - 0)) \<noteq> None then ptrs ! j + sum_list szs else ptrs ! j)) \<and>
    (\<forall>idx. (idx < k * ?fc + 0 \<or> k * ?fc + ?fc \<le> idx) \<longrightarrow> rows' ! idx = rows ! idx) \<and>
    (\<forall>j<?fc. rows' ! (k * ?fc + 0 + j) = row_entry (ptrs ! (0 + j)) (?cs ! j) (snd (snd (cols ! j)))) \<and>
    (\<forall>q n. (\<forall>j<?fc. cell_data (?cs ! j) \<noteq> None \<and> cell_length (?cs ! j) < col_size (cols ! j) \<longrightarrow>
        apart (ptrs ! (0 + j) + cell_length (?cs ! j)) 1 q n) \<longrightarrow> read_at mem' q n = read_at mem q n)"
    using lens room small bound by (intro row_fields_spec) (auto simp: szs_def)
  then obtain rows' mem' ptrs' where r:
    "row_fields k ?fc (sum_list szs) 0 cols ?cs (rows, mem, ptrs) = Ret (rows', mem', ptrs')"
    "length rows' = length rows" "length mem' = length mem" "length ptrs' = ?fc"
    "\<And>j. j < ?fc \<Longrightarrow> ptrs' ! j = (if cell_data (?cs ! j) \<noteq> None then ptrs ! j + sum_list szs else ptrs ! j)"
    "\<And>idx. idx < k * ?fc \<Longrightarrow> rows' ! idx = rows ! idx"
    "\<And>j. j < ?fc \<Longrightarrow> rows' ! (k * ?fc + j) = row_entry (ptrs ! j) (?cs ! j) (snd (snd (cols ! j)))"
    "\<And>q n. (\<forall>j<?fc. cell_data (?cs ! j) \<noteq> None \<and> cell_length (?cs ! j) < col_size (cols ! j) \<longrightarrow>
        apart (ptrs ! j + cell_length (?cs ! j)) 1 q n) \<Longrightarrow> read_at mem' q n = read_at mem q n"
    by (auto simp del: ex_simps)
  have keep: "read_at mem' (slot szs i (stored rws i q)) (length img) = read_at mem (slot szs i (stored rws i q)) (length img)"
    if q: "q \<le> k" and i: "i < ?fc" and img: "cell_data (rws ! q ! i) = Some img" for q i img
  proof (rule r(8), intro allI impI)
    fix j assume j: "j < ?fc" and c: "cell_data (?cs ! j) \<noteq> None \<and> cell_length (?cs ! j) < col_size (cols ! j)"
    have il: "length img \<le> szs ! i" "cell_length (rws ! q ! i) = length img"
      using fit [of q] q k i img by (simp_all add: row_fits_def szs_def)
    show "apart (ptrs ! j + cell_length (?cs ! j)) 1 (slot szs i (stored rws i q)) (length img)"
    proof (cases "j = i \<and> q = k")
      case True
      then show ?thesis using ptrs [OF j] il by (simp add: apart_def)
    next
      case False
      then have "(j, stored rws j k) \<noteq> (i, stored rws i q)"
        using stored_less [of q k rws i] q k img by (cases "q = k") auto
      then have "apart (slot szs j (stored rws j k)) (szs ! j) (slot szs i (stored rws i q)) (szs ! i)"
        using i j lens(4) by (simp add: slots_apart)
      moreover have "cell_length (?cs ! j) < szs ! j" using c j by (simp add: szs_def)
      ultimately show ?thesis using il(1) ptrs [OF j] by (auto simp: apart_def)
    qed
  qed
  have "rows' ! (q * ?fc + i) = row_entry (slot szs i (stored rws i q)) (rws ! q ! i) (snd (snd (cols ! i))) \<and>
      (\<forall>img. cell_data (rws ! q ! i) = Some img \<longrightarrow> read_at mem' (slot szs i (stored rws i q)) (length img) = img)"
    if q: "q < Suc k" and i: "i < ?fc" for q i
  proof (cases "q = k")
    case True
    then show ?thesis using r(7) [OF i] ptrs [OF i] keep [of k i] now [rule_format, OF i] i by simp
  next
    case False
    with q have qk: "q < k" by simp
    then have "q * ?fc + i < k * ?fc"
      using i mult_le_mono1 [of "Suc q" k ?fc] by simp
    with r(6) past [OF qk i] keep [of q i] qk i show ?thesis by auto
  qed
  moreover have "ptrs' ! i = slot szs i (stored rws i (Suc k))" if "i < ?fc" for i
    using r(5) [OF that] ptrs [OF that] k by (auto simp: stored_Suc slot_def)
  ultimately have "rows_inv cols rws (Suc k) (rows', mem', ptrs')"
    using r(2-4) lens by (simp add: rows_inv_def szs_def)
  with r(1) show ?thesis by (auto simp: szs_def)
qed

lemma fetch_loop_rows:
  assumes "\<forall>cs \<in> set rws. row_fits cols cs" and "length rws * length cols < 2 ^ 32"
    and "k \<le> length rws" and "rows_inv cols rws k st"
  shows "\<exists>st'. fetch_loop (length rws) (sum_list (map col_size cols)) cols k (map FetchRow (drop k rws) @ rest) st = Ret st' \<and>
    rows_inv cols rws (length rws) st'"
  using assms(3,4)
proof (induction "length rws - k" arbitrary: k st)
  case 0
  then show ?case by (cases rest) auto
next
  case (Suc n)
  then have k: "k < length rws" by simp
  obtain rows mem ptrs where st: "st = (rows, mem, ptrs)" by (cases st)
  from row_write_step [OF Suc.prems(2) [unfolded st] k assms(1)] obtain mem1 where m:
    "fetch_write (zip ptrs (zip (map col_size cols) (rws ! k))) mem = Ret mem1"
    "rows_inv cols rws k (rows, mem1, ptrs)"
    "\<forall>i<length cols. \<forall>img. cell_data (rws ! k ! i) = Some img \<longrightarrow> read_at mem1 (ptrs ! i) (length img) = img"
    by blast
  from row_fields_keep [OF m(2) k assms(1,2) m(3)] obtain st1 where s:
    "row_fields k (length cols) (sum_list (map col_size cols)) 0 cols (rws ! k) (rows, mem1, ptrs) = Ret st1"
    "rows_inv cols rws (Suc k) st1"
    by blast
  have "n = length rws - Suc k" "Suc k \<le> length rws" using Suc.hyps(2) k by simp_all
  from Suc.hyps(1) [OF this s(2)] obtain st' where f:
    "fetch_loop (length rws) (sum_list (map col_size cols)) cols (Suc k) (map FetchRow (drop (Suc k) rws) @ rest) st1 = Ret st'"
    "rows_inv cols rws (length rws) st'"
    by blast
  have "drop k rws = rws ! k # drop (Suc k) rws" using k by (simp add: Cons_nth_drop_Suc)
  with f s(1) m(1) k show ?case by (simp add: st fetched_cells_def comp_def)
qed

lemma rows_inv_start:
  assumes "sum_list (map col_size cols) < 2 ^ 32" and "length rws * length cols < 2 ^ 32" and "0 < length cols"
  shows "rows_inv cols rws 0
    (replicate (((length rws mod 2 ^ 32) * length cols) mod 2 ^ 32) row_field_new,
     map fresh [0..<sum_list (map col_size cols) * length rws], column_offsets 0 (map col_size cols))"
proof -
  have "length rws * 1 \<le> length rws * length cols" using assms(3) by (intro mult_le_mono2) (simp add: Suc_le_eq)
  then have "length rws < 2 ^ 32" using assms(2) by linarith
  then have "((length rws mod 2 ^ 32) * length cols) mod 2 ^ 32 = length rws * length cols" using assms(2) by simp
  moreover have "column_offsets 0 (map col_size cols) = map (\<lambda>i. sum_list (take i (map col_size cols))) [0..<length cols]"
    using column_offsets_eq [of 0 "map col_size cols"] assms(1) by simp
  ultimately show ?thesis by (simp add: rows_inv_def slot_def stored_def)
qed

lemma row_entry_read:
  assumes "read_at mem p (length img) = img" and "length img < 2 ^ 32" and "cell_data c = Some img"
    and "cell_length c = length img" and "ps_memory ps = mem"
  shows "GetDataBinary (ps_view ps (row_entry p c m)) = Ret img"
proof -
  have "length img \<le> length (drop p mem)"
    using arg_cong [OF assms(1), of length] by (simp add: read_at_def)
  moreover have "unat (word_of_nat (length img) :: uint32) = length img"
    using assms(2) by (simp add: unat_of_nat)
  moreover have "(word_of_nat (length img) :: uint32) = 0 \<Longrightarrow> img = []"
    using calculation(2) by auto
  ultimately show ?thesis
    using assms(1,3-5) by (auto simp: GetDataBinary_def ps_view_def row_entry_def read_at_def)
qed

lemma NextRow_iterate:
  "((snd \<circ> ps_NextRow) ^^ r) ps = ps\<lparr>ps_rowPosition := ps_rowPosition ps + r\<rparr>"
  by (induction r) (simp_all add: ps_NextRow_def Let_def)

lemma prepared_result_built:
  assumes sr: "sr_metadata sr = Some flds" "sr_store_ok sr" "sr_bind_ok sr" "sr_num_rows sr = length rws"
      "sr_fetches sr = map FetchRow rws @ rest"
    and cols: "cols = ps_columns (sr_time_size sr) flds" and ne: "flds \<noteq> []"
    and fits: "\<forall>cs \<in> set rws. row_fits cols cs"
    and small: "length rws * length flds < 2 ^ 32" "sum_list (map col_size cols) < 2 ^ 32"
  shows "\<exists>ps ptrs. PreparedResultSet_new sr rowCount (length flds) = Ret ps \<and>
    ps_rowCount ps = length rws \<and> ps_rowPosition ps = 0 \<and> ps_fieldCount ps = length flds \<and>
    ps_rBind ps = BindLive \<and> ps_metadataFreed ps = Some False \<and>
    rows_inv cols rws (length rws) (ps_rows ps, ps_memory ps, ptrs)"
proof -
  have len: "length cols = length flds" by (simp add: cols ps_columns_def)
  have pos: "0 < length cols" using ne len by simp
  note start = rows_inv_start [OF small(2) small(1) [folded len] pos, of "sr_fresh sr"]
  from fetch_loop_rows [OF fits small(1) [folded len] le0 start, of rest] obtain rows mem ptrs where
    "fetch_loop (length rws) (sum_list (map col_size cols)) cols 0 (map FetchRow rws @ rest)
      (replicate (((length rws mod 2 ^ 32) * length cols) mod 2 ^ 32) row_field_new,
       map (sr_fresh sr) [0..<sum_list (map col_size cols) * length rws], column_offsets 0 (map col_size cols)) =
      Ret (rows, mem, ptrs)"
    "rows_inv cols rws (length rws) (rows, mem, ptrs)"
    by (auto simp del: fetch_loop.simps)
  then show ?thesis
    using sr by (intro exI [of _ ptrs] exI conjI)
      (auto simp: PreparedResultSet_new_def Let_def comp_def cols [symmetric] len simp del: fetch_loop.simps)
qed

subsection \<open>Properties\<close>

text \<open>
  C26. A prepared result holds what the library fetched: when every value fits the size of its
  column, the rows and columns are fewer than 2^32 fields and a row is shorter than 2^32 bytes, the
  constructor succeeds; after \<open>r\<close> calls of \<open>NextRow\<close>, each of which says whether row \<open>r\<close> exists,
  field \<open>i\<close> is null exactly when the fetched value was and its bytes are the fetched ones. No value
  overwrites another, although null values leave their places in the buffer unused.
\<close>

theorem prepared_result_rows:
  assumes "sr_metadata sr = Some flds" and "flds \<noteq> []" and "sr_store_ok sr" and "sr_bind_ok sr"
    and "sr_num_rows sr = length rws" and "sr_fetches sr = map FetchRow rws @ rest"
    and "\<forall>cs \<in> set rws. row_fits (ps_columns (sr_time_size sr) flds) cs"
    and "length rws * length flds < 2 ^ 32" and "sum_list (map col_size (ps_columns (sr_time_size sr) flds)) < 2 ^ 32"
  shows "\<exists>ps. PreparedResultSet_new sr rowCount (length flds) = Ret ps \<and>
    (\<forall>r<length rws.
      (fst (ps_NextRow (((snd \<circ> ps_NextRow) ^^ r) ps)) \<longleftrightarrow> Suc r < length rws) \<and>
      (\<forall>i<length flds. \<exists>f. ps_index (((snd \<circ> ps_NextRow) ^^ r) ps) i = Ret f \<and>
        (field_IsNull f \<longleftrightarrow> cell_data (rws ! r ! i) = None) \<and>
        meta f = Some (InitializeDatabaseFieldMetadata (flds ! i) i) \<and>
        (\<forall>img. cell_data (rws ! r ! i) = Some img \<longrightarrow> GetDataBinary f = Ret img)))"
proof -
  define cols where "cols = ps_columns (sr_time_size sr) flds"
  have len: "length cols = length flds" by (simp add: cols_def ps_columns_def)
  have col: "snd (snd (cols ! i)) = InitializeDatabaseFieldMetadata (flds ! i) i" "col_size (cols ! i) < 2 ^ 32"
    if "i < length flds" for i
    using that unsigned_less [of "SizeForType (sr_time_size sr) (flds ! i)"] by (simp_all add: cols_def ps_columns_def)
  from prepared_result_built [OF assms(1,3-6) cols_def assms(2,7-9) [folded cols_def], of rowCount]
  obtain ps ptrs where ps: "PreparedResultSet_new sr rowCount (length flds) = Ret ps"
    "ps_rowCount ps = length rws" "ps_rowPosition ps = 0" "ps_fieldCount ps = length flds"
    and inv: "rows_inv cols rws (length rws) (ps_rows ps, ps_memory ps, ptrs)"
    by blast
  have at: "\<exists>f. ps_index (((snd \<circ> ps_NextRow) ^^ r) ps) i = Ret f \<and>
        (field_IsNull f \<longleftrightarrow> cell_data (rws ! r ! i) = None) \<and>
        meta f = Some (InitializeDatabaseFieldMetadata (flds ! i) i) \<and>
        (\<forall>img. cell_data (rws ! r ! i) = Some img \<longrightarrow> GetDataBinary f = Ret img)"
    if r: "r < length rws" and i: "i < length flds" for r i
  proof -
    let ?p = "slot (map col_size cols) i (stored rws i r)"
    have room: "r * length flds + i < length rws * length flds"
      using mult_le_mono1 [of "Suc r" "length rws" "length flds"] r i by simp
    then have idx: "row_index r (length flds) i = r * length flds + i"
      using assms(8) i by (intro row_index_eq) auto
    have e: "ps_rows ps ! (r * length flds + i) = row_entry ?p (rws ! r ! i) (snd (snd (cols ! i)))"
      "length (ps_rows ps) = length rws * length flds"
      "\<And>img. cell_data (rws ! r ! i) = Some img \<Longrightarrow> read_at (ps_memory ps) ?p (length img) = img"
      using inv r i len by (auto simp: rows_inv_def)
    have "ps_index (((snd \<circ> ps_NextRow) ^^ r) ps) i = Ret (ps_view ps (row_entry ?p (rws ! r ! i) (snd (snd (cols ! i)))))"
      using r i ps e(1,2) idx room by (simp add: NextRow_iterate ps_index_def ps_view_def Let_def)
    moreover have "GetDataBinary (ps_view ps (row_entry ?p (rws ! r ! i) m)) = Ret img"
      if "cell_data (rws ! r ! i) = Some img" for img m
    proof (rule row_entry_read [OF e(3) [OF that] _ that _ refl])
      have "row_fits cols (rws ! r)" using assms(7) r by (simp add: cols_def)
      with that i len have "cell_length (rws ! r ! i) = length img \<and> length img \<le> col_size (cols ! i)"
        by (simp add: row_fits_def)
      with col(2) [OF i] show "length img < 2 ^ 32" "cell_length (rws ! r ! i) = length img" by auto
    qed
    ultimately show ?thesis using col(1) [OF i] by (auto simp: field_IsNull_def ps_view_def row_entry_def)
  qed
  have "fst (ps_NextRow (((snd \<circ> ps_NextRow) ^^ r) ps)) \<longleftrightarrow> Suc r < length rws" for r
    using ps by (simp add: NextRow_iterate ps_NextRow_def Let_def)
  with ps(1) at show ?thesis by blast
qed

text \<open>A result of two rows and two columns, one value of them null.\<close>

definition sample_fields :: "lib_field list" where
  "sample_fields =
     [\<lparr>f_org_table = ''account'', f_table = ''a'', f_org_name = ''id'', f_name = ''id'',
       f_type = MYSQL_TYPE_LONG, f_max_length = 1, f_unsigned = True\<rparr>,
      \<lparr>f_org_table = ''account'', f_table = ''a'', f_org_name = ''ip'', f_name = ''ip'',
       f_type = MYSQL_TYPE_VAR_STRING, f_max_length = 2, f_unsigned = False\<rparr>]"

definition sample_rows :: "cell list list" where
  "sample_rows =
     [[\<lparr>cell_data = Some [1, 0, 0, 0], cell_length = 4\<rparr>, \<lparr>cell_data = None, cell_length = 0\<rparr>],
      [\<lparr>cell_data = Some [2, 0, 0, 0], cell_length = 4\<rparr>, \<lparr>cell_data = Some [65, 66], cell_length = 2\<rparr>]]"

definition sample_result :: stmt_result where
  "sample_result = \<lparr>sr_metadata = Some sample_fields, sr_store_ok = True, sr_num_rows = 2, sr_bind_ok = True,
     sr_fetches = map FetchRow sample_rows, sr_time_size = 40, sr_fresh = (\<lambda>_. 170)\<rparr>"

theorem prepared_result_rows_witness:
  "\<exists>ps f. PreparedResultSet_new sample_result 0 2 = Ret ps \<and>
    ps_index (snd (ps_NextRow ps)) 1 = Ret f \<and> GetDataBinary f = Ret [65, 66]"
proof -
  have cols: "ps_columns 40 sample_fields =
      [(MYSQL_TYPE_LONG, 4, InitializeDatabaseFieldMetadata (sample_fields ! 0) 0),
       (MYSQL_TYPE_VAR_STRING, 3, InitializeDatabaseFieldMetadata (sample_fields ! 1) 1)]"
    by (simp add: ps_columns_def sample_fields_def SizeForType_def)
  have a: "sr_metadata sample_result = Some sample_fields" "sample_fields \<noteq> []" "sr_store_ok sample_result"
    "sr_bind_ok sample_result" "sr_num_rows sample_result = length sample_rows"
    "sr_fetches sample_result = map FetchRow sample_rows @ []"
    "length sample_rows * length sample_fields < 2 ^ 32"
    by (simp_all add: sample_result_def sample_fields_def sample_rows_def)
  have b: "\<forall>cs \<in> set sample_rows. row_fits (ps_columns (sr_time_size sample_result) sample_fields) cs"
    by (auto simp: sample_result_def cols row_fits_def sample_rows_def less_Suc_eq)
  have c: "sum_list (map col_size (ps_columns (sr_time_size sample_result) sample_fields)) < 2 ^ 32"
    by (simp add: sample_result_def cols)
  have len: "length sample_fields = 2" "length sample_rows = 2" by (simp_all add: sample_fields_def sample_rows_def)
  from prepared_result_rows [OF a(1-6) b a(7) c, of 0] obtain ps where
    ps: "PreparedResultSet_new sample_result 0 2 = Ret ps" and
    at: "\<forall>r<2. (fst (ps_NextRow (((snd \<circ> ps_NextRow) ^^ r) ps)) \<longleftrightarrow> Suc r < 2) \<and>
      (\<forall>i<2. \<exists>f. ps_index (((snd \<circ> ps_NextRow) ^^ r) ps) i = Ret f \<and>
        (field_IsNull f \<longleftrightarrow> cell_data (sample_rows ! r ! i) = None) \<and>
        meta f = Some (InitializeDatabaseFieldMetadata (sample_fields ! i) i) \<and>
        (\<forall>img. cell_data (sample_rows ! r ! i) = Some img \<longrightarrow> GetDataBinary f = Ret img))"
    unfolding len by blast
  have "\<exists>f. ps_index (((snd \<circ> ps_NextRow) ^^ 1) ps) 1 = Ret f \<and>
        (\<forall>img. cell_data (sample_rows ! 1 ! 1) = Some img \<longrightarrow> GetDataBinary f = Ret img)"
    using at by (auto dest!: spec [of _ "1 :: nat"])
  then obtain f where "ps_index (snd (ps_NextRow ps)) 1 = Ret f"
    "\<forall>img. cell_data (sample_rows ! 1 ! 1) = Some img \<longrightarrow> GetDataBinary f = Ret img"
    by auto
  with ps show ?thesis by (auto simp: sample_rows_def)
qed

text \<open>
  C36. Destroying a prepared result is sound after a successful construction and when the statement
  had no metadata, but frees memory twice when storing or binding the result failed: the
  constructor leaves the freed binds, or the freed metadata, behind for the destructor.
\<close>

theorem failed_result_is_freed_twice:
  assumes "sr_metadata sr = Some flds" and "length flds = fieldCount"
  shows "(\<not> sr_store_ok sr \<longrightarrow>
      bind_outcome (PreparedResultSet_new sr rowCount fieldCount) ps_CleanUp = Crash DoubleFree) \<and>
    (sr_store_ok sr \<and> \<not> sr_bind_ok sr \<longrightarrow>
      bind_outcome (PreparedResultSet_new sr rowCount fieldCount) ps_CleanUp = Crash DoubleFree) \<and>
    (\<forall>ps. sr_store_ok sr \<and> sr_bind_ok sr \<and> PreparedResultSet_new sr rowCount fieldCount = Ret ps \<longrightarrow>
      is_ret (ps_CleanUp ps))"
  using assms
  by (auto simp: PreparedResultSet_new_def Let_def ps_CleanUp_def)

theorem failed_result_is_freed_twice_witness:
  "bind_outcome (PreparedResultSet_new (sample_result\<lparr>sr_store_ok := False\<rparr>) 0 2) ps_CleanUp = Crash DoubleFree"
proof -
  have "sr_metadata (sample_result\<lparr>sr_store_ok := False\<rparr>) = Some sample_fields" "length sample_fields = 2"
    by (simp_all add: sample_result_def sample_fields_def)
  from failed_result_is_freed_twice [OF this, of 0] show ?thesis by simp
qed

text \<open>The rows of a text result: call \<open>NextRow\<close> until it says no, and look at the row each time.\<close>

primrec scan_rows :: "nat \<Rightarrow> result_set \<Rightarrow> (field list list \<times> result_set) outcome" where
  "scan_rows 0 rs = Ret ([], rs)"
| "scan_rows (Suc n) rs =
     bind_outcome (rs_NextRow rs) (\<lambda>(more, rs').
       if more then bind_outcome (scan_rows n rs') (\<lambda>(rows, rs''). Ret (the (rs_currentRow rs') # rows, rs''))
       else Ret ([], rs'))"

definition row_view :: "metadata list \<Rightarrow> bytes option list \<Rightarrow> field list" where
  "row_view ms cs = map2 (\<lambda>c m. text_value c (SetMetadata m field_new)) cs ms"

lemma text_value_again: "text_value c (text_value c' f) = text_value c f"
  by (simp add: text_value_def SetStructuredValue_def)

lemma scan_rows_result:
  assumes "\<forall>row \<in> set rows. lengths_ok row \<and> length (cells row) = length ms" and "length rows < n"
    and "rs_result rs = Some rows" and "rs_fieldCount rs = length ms" and "rs_currentRow rs = Some cur"
    and "length cur = length ms" and "\<forall>i<length ms. \<forall>c. text_value c (cur ! i) = text_value c (SetMetadata (ms ! i) field_new)"
  shows "scan_rows n rs = Ret (map (row_view ms \<circ> cells) rows, rs_CleanUp rs)"
  using assms
proof (induction rows arbitrary: n rs cur)
  case Nil
  then show ?case by (cases n) (simp_all add: rs_NextRow_def)
next
  case (Cons row rows)
  then obtain n' where n: "n = Suc n'" by (cases n) auto
  let ?cur = "map2 text_value (cells row) cur"
  let ?rs = "rs\<lparr>rs_result := Some rows, rs_currentRow := Some ?cur\<rparr>"
  have row: "?cur = row_view ms (cells row)"
    using Cons.prems by (intro nth_equalityI) (simp_all add: row_view_def)
  have "scan_rows n' ?rs = Ret (map (row_view ms \<circ> cells) rows, rs_CleanUp ?rs)"
  proof (rule Cons.IH)
    show "\<forall>i<length ms. \<forall>c. text_value c (?cur ! i) = text_value c (SetMetadata (ms ! i) field_new)"
      using Cons.prems by (simp add: text_value_again)
  qed (use Cons.prems n in simp_all)
  moreover have "rs_CleanUp ?rs = rs_CleanUp rs" by (simp add: rs_CleanUp_def)
  ultimately show ?case using Cons.prems n row by (simp add: rs_NextRow_def)
qed

text \<open>
  Fetching a text result: \<open>NextRow\<close> gives each row of the library once and in order, with the
  cells as the values of the fields and the metadata of their columns, then says no and frees the
  result; from then on it keeps saying no.
\<close>

theorem text_result_rows:
  assumes "\<forall>row \<in> set rows. lengths_ok row \<and> length (cells row) = length flds" and "length rows < n"
  shows "\<exists>rs rs'. ResultSet_new (Some rows) flds rowCount (length flds) = Ret rs \<and>
    scan_rows n rs = Ret (map (row_view (column_metadata flds (length flds)) \<circ> cells) rows, rs') \<and>
    rs_result rs' = None \<and> rs_NextRow rs' = Ret (False, rs')"
proof -
  let ?ms = "column_metadata flds (length flds)"
  let ?rs = "\<lparr>rs_fieldMetadata = ?ms, rs_rowCount = rowCount,
        rs_currentRow = Some (map (\<lambda>m. SetMetadata m field_new) ?ms),
        rs_fieldCount = length flds, rs_result = Some rows, rs_fields = flds\<rparr>"
  have len: "length ?ms = length flds" by (simp add: column_metadata_def)
  have "scan_rows n ?rs = Ret (map (row_view ?ms \<circ> cells) rows, rs_CleanUp ?rs)"
    by (rule scan_rows_result [where cur = "map (\<lambda>m. SetMetadata m field_new) ?ms"])
      (use assms len in simp_all)
  moreover have "ResultSet_new (Some rows) flds rowCount (length flds) = Ret ?rs" by (simp add: ResultSet_new_def)
  ultimately show ?thesis by (auto simp: rs_CleanUp_def rs_NextRow_def)
qed

theorem text_result_rows_witness:
  "\<exists>rs rs'. ResultSet_new (Some [\<lparr>cells = [Some [49], None], lengths_ok = True\<rparr>]) sample_fields 1 2 = Ret rs \<and>
    scan_rows 2 rs = Ret ([row_view (column_metadata sample_fields 2) [Some [49], None]], rs')"
proof -
  have "length sample_fields = 2" by (simp add: sample_fields_def)
  with text_result_rows [of "[\<lparr>cells = [Some [49], None], lengths_ok = True\<rparr>]" sample_fields 2 1]
  show ?thesis by auto
qed

end
