(* ===== verification/Connection.thy ===== *)
theory Connection
  imports Result_Set
begin

section \<open>A connection (MySQLConnection.h/.cpp, LoginDatabase.h/.cpp)\<close>

text \<open>
  The client library is a parameter: it answers each call from the calls made before it on the
  same connection, which the connection keeps as a list of events. A text is what the program
  passes; messages, sleeps and times are left out. Memory the program leaks is not modelled, so a
  handle is open or null.
\<close>

subsection \<open>Error numbers\<close>

text \<open>The numbers the sources name, 0, and the others.\<close>

datatype errno = NoErrno
  | CR_SERVER_GONE_ERROR | CR_SERVER_LOST | CR_SERVER_LOST_EXTENDED | CR_CONN_HOST_ERROR | CR_CONNECTION_ERROR | CR_UNKNOWN_ERROR
  | ER_LOCK_DEADLOCK | ER_WRONG_VALUE_COUNT | ER_DUP_ENTRY | ER_BAD_FIELD_ERROR | ER_NO_SUCH_TABLE
  | ER_PARSE_ERROR | ER_BAD_DB_ERROR | OtherErrno nat

text \<open>A call's answer: it succeeded, or it failed and \<open>mysql_errno\<close> of the handle then gives a number.\<close>

datatype reply = Okay | Failed errno

subsection \<open>Connection parameters\<close>

record conn_info =
  ci_user :: string
  ci_password :: string
  ci_database :: string
  ci_host :: string
  ci_port_or_socket :: string
  ci_ssl :: string

definition conn_info_empty :: conn_info where
  "conn_info_empty = \<lparr>ci_user = [], ci_password = [], ci_database = [], ci_host = [], ci_port_or_socket = [],
     ci_ssl = []\<rparr>"

definition MySQLConnectionInfo :: "string \<Rightarrow> conn_info" where
  "MySQLConnectionInfo infoString =
     (let tokens = tokenize infoString (CHR '';'') True in
      if length tokens \<noteq> 5 \<and> length tokens \<noteq> 6 then conn_info_empty
      else
        let info = conn_info_empty\<lparr>ci_host := tokens ! 0, ci_port_or_socket := tokens ! 1, ci_user := tokens ! 2,
              ci_password := tokens ! 3, ci_database := tokens ! 4\<rparr>
        in if length tokens = 6 then info\<lparr>ci_ssl := tokens ! 5\<rparr> else info)"

subsection \<open>Calls of the library\<close>

text \<open>What \<open>mysql_real_connect\<close> and the options set before it receive.\<close>

record connect_args =
  ca_host :: string
  ca_user :: string
  ca_password :: string
  ca_database :: string
  ca_port :: uint32
  ca_socket :: "string option"
  ca_ssl :: "bool option"

datatype lib_call =
    EvInit bool
  | EvConnect connect_args reply
  | EvClose
  | EvQuery string reply
  | EvStmtInit bool
  | EvPrepare string "nat option"
  | EvBind my_stmt reply
  | EvExec my_stmt reply
  | EvPing

record store_result =
  tr_result :: "db_row list option"
  tr_affected :: nat
  tr_fieldCount :: nat
  tr_fields :: "lib_field list"

record mysql =
  lib_init :: "lib_call list \<Rightarrow> bool"
  lib_connect :: "lib_call list \<Rightarrow> connect_args \<Rightarrow> reply"
  lib_query :: "lib_call list \<Rightarrow> string \<Rightarrow> reply"
  lib_stmt_init :: "lib_call list \<Rightarrow> bool"
  lib_prepare :: "lib_call list \<Rightarrow> string \<Rightarrow> nat option"
  lib_bind :: "lib_call list \<Rightarrow> my_stmt \<Rightarrow> reply"
  lib_execute :: "lib_call list \<Rightarrow> my_stmt \<Rightarrow> reply"
  lib_text_result :: "lib_call list \<Rightarrow> store_result"
  lib_stmt_result :: "lib_call list \<Rightarrow> stmt_result \<times> nat \<times> nat"
  lib_null_errno :: "lib_call list \<Rightarrow> errno"
  lib_server_info :: "lib_call list \<Rightarrow> string"
  fmt_float :: "bytes \<Rightarrow> string"

subsection \<open>The connection\<close>

definition CONNECTION_ASYNC :: uint8 where "CONNECTION_ASYNC = 0x1"
definition CONNECTION_SYNCH :: uint8 where "CONNECTION_SYNCH = 0x2"
definition CONNECTION_BOTH :: uint8 where "CONNECTION_BOTH = CONNECTION_ASYNC OR CONNECTION_SYNCH"

text \<open>What the subclass contributes: the number of its statements and the ones it prepares.\<close>

record statement_table =
  max_statements :: nat
  statement_list :: "(nat \<times> string \<times> uint8) list"

record conn =
  c_open :: bool
  c_errno :: errno
  c_reconnecting :: bool
  c_prepareError :: bool
  c_stmts :: "my_stmt option list"
  c_info :: conn_info
  c_flags :: uint8
  c_table :: statement_table
  c_locked :: bool
  c_events :: "lib_call list"

definition db_conn_new :: "uint8 \<Rightarrow> statement_table \<Rightarrow> conn_info \<Rightarrow> conn" where
  "db_conn_new flags table info = \<lparr>c_open = False, c_errno = NoErrno, c_reconnecting = False, c_prepareError = False,
     c_stmts = [], c_info = info, c_flags = flags, c_table = table, c_locked = False, c_events = []\<rparr>"

definition conn_event :: "lib_call \<Rightarrow> conn \<Rightarrow> conn" where
  "conn_event e c = c\<lparr>c_events := c_events c @ [e]\<rparr>"

text \<open>A call on the handle: its event and the number \<open>mysql_errno\<close> gives from then on.\<close>

definition conn_call :: "lib_call \<Rightarrow> reply \<Rightarrow> conn \<Rightarrow> conn" where
  "conn_call e r c = c\<lparr>c_events := c_events c @ [e], c_errno := (case r of Okay \<Rightarrow> NoErrno | Failed n \<Rightarrow> n)\<rparr>"

definition conn_Close :: "conn \<Rightarrow> conn" where
  "conn_Close c =
     (let c1 = c\<lparr>c_stmts := []\<rparr> in if c_open c1 then (conn_event EvClose c1)\<lparr>c_open := False\<rparr> else c1)"

text \<open>
  \<open>Open\<close>. The parameters are the ones of the pool, which all its connections share: the host
  \<open>"."\<close> is replaced in place. An absent port is read through an empty \<open>Optional\<close>.
\<close>

definition connect_target :: "conn_info \<Rightarrow> (conn_info \<times> uint32 \<times> string option) outcome" where
  "connect_target info =
     (if ci_host info = ''.'' then Ret (info\<lparr>ci_host := ''localhost''\<rparr>, 0, Some (ci_port_or_socket info))
      else
        (case from_string_int ty_uint32 (ci_port_or_socket info) 10 of
           None \<Rightarrow> Crash NullDeref
         | Some port \<Rightarrow> Ret (info, word_of_int port, None)))"

definition conn_Open :: "mysql \<Rightarrow> conn \<Rightarrow> (errno \<times> conn) outcome" where
  "conn_Open env c =
     (if \<not> lib_init env (c_events c) then Ret (CR_UNKNOWN_ERROR, conn_event (EvInit False) c)
      else
        let c1 = conn_event (EvInit True) c in
        bind_outcome (connect_target (c_info c1)) (\<lambda>(info, port, sock).
          let args = \<lparr>ca_host = ci_host info, ca_user = ci_user info, ca_password = ci_password info,
                ca_database = ci_database info, ca_port = port, ca_socket = sock,
                ca_ssl = (if ci_ssl info = [] then None else Some (ci_ssl info = ''ssl''))\<rparr>;
              r = lib_connect env (c_events c1) args;
              c2 = (conn_call (EvConnect args r) r c1)\<lparr>c_info := info\<rparr>
          in case r of
               Okay \<Rightarrow> Ret (NoErrno, c2\<lparr>c_open := True\<rparr>)
             | Failed e \<Rightarrow> Ret (e, c2\<lparr>c_open := False\<rparr>)))"

text \<open>\<open>PrepareStatement(index, sql, flags)\<close> and \<open>PrepareStatement(sql, flags)\<close>.\<close>

definition PrepareStatement_at :: "mysql \<Rightarrow> nat \<Rightarrow> string \<Rightarrow> uint8 \<Rightarrow> conn \<Rightarrow> conn outcome" where
  "PrepareStatement_at env index sql flags c =
     (if c_flags c AND flags = 0 then
        (if index < length (c_stmts c) then Ret (c\<lparr>c_stmts := (c_stmts c)[index := None]\<rparr>) else Crash OutOfBounds)
      else if \<not> c_open c then Crash NullDeref
      else if \<not> lib_stmt_init env (c_events c) then
        Ret ((conn_event (EvStmtInit False) c)\<lparr>c_prepareError := True\<rparr>)
      else
        let c1 = conn_event (EvStmtInit True) c;
            r = lib_prepare env (c_events c1) sql;
            c2 = conn_event (EvPrepare sql r) c1
        in case r of
             None \<Rightarrow> Ret (c2\<lparr>c_prepareError := True\<rparr>)
           | Some paramCount \<Rightarrow>
               if index < length (c_stmts c2)
               then Ret (c2\<lparr>c_stmts := (c_stmts c2)[index := Some (my_stmt_new paramCount sql)]\<rparr>)
               else Crash OutOfBounds)"

definition PrepareStatement_sql :: "mysql \<Rightarrow> string \<Rightarrow> uint8 \<Rightarrow> conn \<Rightarrow> (my_stmt option \<times> conn) outcome" where
  "PrepareStatement_sql env sql flags c =
     (if c_flags c AND flags = 0 then Ret (None, c)
      else if \<not> c_open c then Crash NullDeref
      else if \<not> lib_stmt_init env (c_events c) then
        Ret (None, (conn_event (EvStmtInit False) c)\<lparr>c_prepareError := True\<rparr>)
      else
        let c1 = conn_event (EvStmtInit True) c;
            r = lib_prepare env (c_events c1) sql;
            c2 = conn_event (EvPrepare sql r) c1
        in case r of
             None \<Rightarrow> Ret (None, c2\<lparr>c_prepareError := True\<rparr>)
           | Some paramCount \<Rightarrow> Ret (Some (my_stmt_new paramCount sql), c2))"

primrec prepare_all :: "mysql \<Rightarrow> (nat \<times> string \<times> uint8) list \<Rightarrow> conn \<Rightarrow> conn outcome" where
  "prepare_all env [] c = Ret c"
| "prepare_all env (s # ss) c =
     (case s of (index, sql, flags) \<Rightarrow> bind_outcome (PrepareStatement_at env index sql flags c) (prepare_all env ss))"

text \<open>\<open>DoPrepareStatements\<close> of the subclass; \<open>resize\<close> keeps what is there.\<close>

definition resize_stmts :: "nat \<Rightarrow> my_stmt option list \<Rightarrow> my_stmt option list" where
  "resize_stmts n xs = take n xs @ replicate (n - length xs) None"

definition DoPrepareStatements :: "mysql \<Rightarrow> conn \<Rightarrow> conn outcome" where
  "DoPrepareStatements env c =
     prepare_all env (statement_list (c_table c))
       (if c_reconnecting c then c else c\<lparr>c_stmts := resize_stmts (max_statements (c_table c)) (c_stmts c)\<rparr>)"

definition PrepareStatements :: "mysql \<Rightarrow> conn \<Rightarrow> (bool \<times> conn) outcome" where
  "PrepareStatements env c = bind_outcome (DoPrepareStatements env c) (\<lambda>c. Ret (\<not> c_prepareError c, c))"

text \<open>The statements of the login database; the enumeration has two more, which are not prepared.\<close>

definition LOGIN_SEL_TEST :: nat where "LOGIN_SEL_TEST = 0"
definition LOGIN_UPD_TEST :: nat where "LOGIN_UPD_TEST = 1"
definition LOGIN_SEL_LOGONCHALLENGE :: nat where "LOGIN_SEL_LOGONCHALLENGE = 2"
definition LOGIN_UPD_LOGONPROOF :: nat where "LOGIN_UPD_LOGONPROOF = 3"
definition MAX_LOGINDATABASE_STATEMENTS :: nat where "MAX_LOGINDATABASE_STATEMENTS = 4"

definition login_statements :: statement_table where
  "login_statements = \<lparr>max_statements = MAX_LOGINDATABASE_STATEMENTS, statement_list =
     [(LOGIN_SEL_LOGONCHALLENGE,
       ''SELECT id, username, last_ip, salt, verifier FROM account a WHERE username = ? limit 1'', CONNECTION_SYNCH),
      (LOGIN_UPD_LOGONPROOF,
       ''UPDATE account SET session_key = ?, last_ip = ?, last_login = NOW(), locale = ?, os = ? WHERE username = ?'',
       CONNECTION_SYNCH)]\<rparr>"

definition GetPreparedStatement :: "nat \<Rightarrow> conn \<Rightarrow> my_stmt option outcome" where
  "GetPreparedStatement index c =
     (if index < length (c_stmts c) then Ret (c_stmts c ! index)
      else Crash (AssertFail ''index < m_stmts.size()''))"

subsection \<open>Errors and reconnection\<close>

datatype errno_kind = Reconnect | GiveUp | Fatal

definition errno_class :: "errno \<Rightarrow> errno_kind" where
  "errno_class e =
     (case e of
        CR_SERVER_GONE_ERROR \<Rightarrow> Reconnect | CR_SERVER_LOST \<Rightarrow> Reconnect | CR_SERVER_LOST_EXTENDED \<Rightarrow> Reconnect
      | CR_CONN_HOST_ERROR \<Rightarrow> Reconnect
      | ER_BAD_FIELD_ERROR \<Rightarrow> Fatal | ER_NO_SUCH_TABLE \<Rightarrow> Fatal | ER_PARSE_ERROR \<Rightarrow> Fatal
      | _ \<Rightarrow> GiveUp)"

definition is_lost :: "errno \<Rightarrow> bool" where
  "is_lost e \<longleftrightarrow> e \<in> {CR_SERVER_GONE_ERROR, CR_SERVER_LOST, CR_SERVER_LOST_EXTENDED}"

text \<open>One attempt of the reconnecting branch: whether it is over, or the number to go on with.\<close>

definition try_reconnect :: "mysql \<Rightarrow> errno \<Rightarrow> conn \<Rightarrow> (errno option \<times> conn) outcome" where
  "try_reconnect env e c =
     (let c1 = (if is_lost e \<and> c_open c then (conn_event EvClose c)\<lparr>c_open := False\<rparr> else c) in
      bind_outcome (conn_Open env (c1\<lparr>c_reconnecting := True\<rparr>)) (\<lambda>(lErrno, c2).
        if lErrno = NoErrno then
          bind_outcome (PrepareStatements env c2) (\<lambda>(ok, c3).
            if \<not> ok then Crash StdAbort else Ret (None, c3\<lparr>c_reconnecting := False\<rparr>))
        else Ret (Some lErrno, c2)))"

text \<open>
  \<open>_HandleMySQLErrno\<close>; the first argument is \<open>attempts - 1\<close>, so that the default of five attempts
  is 4. The function is never called with no attempt left.
\<close>

primrec handle_errno :: "mysql \<Rightarrow> nat \<Rightarrow> errno \<Rightarrow> conn \<Rightarrow> (bool \<times> conn) outcome" where
  "handle_errno env 0 e c =
     (case errno_class e of
        GiveUp \<Rightarrow> Ret (False, c)
      | Fatal \<Rightarrow> Crash StdAbort
      | Reconnect \<Rightarrow>
          bind_outcome (try_reconnect env e c) (\<lambda>(again, c').
            case again of None \<Rightarrow> Ret (True, c') | Some lErrno \<Rightarrow> Crash StdAbort))"
| "handle_errno env (Suc n) e c =
     (case errno_class e of
        GiveUp \<Rightarrow> Ret (False, c)
      | Fatal \<Rightarrow> Crash StdAbort
      | Reconnect \<Rightarrow>
          bind_outcome (try_reconnect env e c) (\<lambda>(again, c').
            case again of None \<Rightarrow> Ret (True, c') | Some lErrno \<Rightarrow> handle_errno env n lErrno c'))"

abbreviation default_attempts :: nat where "default_attempts \<equiv> 4"

definition GetLastError :: "mysql \<Rightarrow> conn \<Rightarrow> errno" where
  "GetLastError env c = (if c_open c then c_errno c else lib_null_errno env (c_events c))"

definition LockIfReady :: "conn \<Rightarrow> bool \<times> conn" where
  "LockIfReady c = (if c_locked c then (False, c) else (True, c\<lparr>c_locked := True\<rparr>))"

definition Unlock :: "conn \<Rightarrow> conn" where
  "Unlock c = c\<lparr>c_locked := False\<rparr>"

text \<open>\<open>mysql_ping\<close> reads the handle without a check; what it answers is not looked at.\<close>

definition Ping :: "conn \<Rightarrow> conn outcome" where
  "Ping c = (if c_open c then Ret (conn_event EvPing c) else Crash NullDeref)"

subsection \<open>Statements given as text\<close>

text \<open>\<open>None\<close>: the statement is repeated after a reconnection for ever.\<close>

partial_function (option) Execute_sql :: "mysql \<Rightarrow> string \<Rightarrow> conn \<Rightarrow> (bool \<times> conn) outcome option" where
  "Execute_sql env sql c =
     (if \<not> c_open c then Some (Ret (False, c))
      else
        (case lib_query env (c_events c) sql of
           Okay \<Rightarrow> Some (Ret (True, conn_call (EvQuery sql Okay) Okay c))
         | Failed e \<Rightarrow>
             (case handle_errno env default_attempts e (conn_call (EvQuery sql (Failed e)) (Failed e) c) of
                Crash k \<Rightarrow> Some (Crash k)
              | Ret (retry, c') \<Rightarrow> if retry then Execute_sql env sql c' else Some (Ret (False, c')))))"

partial_function (option) Query_sql_loop ::
  "mysql \<Rightarrow> string \<Rightarrow> conn \<Rightarrow> (store_result option \<times> conn) outcome option" where
  "Query_sql_loop env sql c =
     (if \<not> c_open c then Some (Ret (None, c))
      else
        (case lib_query env (c_events c) sql of
           Okay \<Rightarrow>
             (let c1 = conn_call (EvQuery sql Okay) Okay c; r = lib_text_result env (c_events c1) in
              if tr_result r = None \<or> tr_affected r = 0 then Some (Ret (None, c1)) else Some (Ret (Some r, c1)))
         | Failed e \<Rightarrow>
             (case handle_errno env default_attempts e (conn_call (EvQuery sql (Failed e)) (Failed e) c) of
                Crash k \<Rightarrow> Some (Crash k)
              | Ret (retry, c') \<Rightarrow> if retry then Query_sql_loop env sql c' else Some (Ret (None, c')))))"

definition conn_Query_sql :: "mysql \<Rightarrow> string \<Rightarrow> conn \<Rightarrow> (result_set option \<times> conn) outcome option" where
  "conn_Query_sql env sql c =
     (if sql = [] then Some (Ret (None, c))
      else
        (case Query_sql_loop env sql c of
           None \<Rightarrow> None
         | Some (Crash k) \<Rightarrow> Some (Crash k)
         | Some (Ret (None, c')) \<Rightarrow> Some (Ret (None, c'))
         | Some (Ret (Some r, c')) \<Rightarrow>
             Some (bind_outcome (ResultSet_new (tr_result r) (tr_fields r) (tr_affected r) (tr_fieldCount r))
               (\<lambda>rs. Ret (Some rs, c')))))"

subsection \<open>Prepared statements\<close>

text \<open>
  The client-side statement of a call: the one the caller's statement brings along, or the one of
  the connection at its index. It is changed in place by binding and clearing.
\<close>

definition resolve_stmt :: "stmt \<Rightarrow> conn \<Rightarrow> my_stmt outcome" where
  "resolve_stmt st c =
     (if st_isPrepared st then (case st_prepared st of None \<Rightarrow> Crash NullDeref | Some m \<Rightarrow> Ret m)
      else bind_outcome (GetPreparedStatement (st_index st) c) (\<lambda>m.
        case m of None \<Rightarrow> Crash (AssertFail ''m_mStmt'') | Some m \<Rightarrow> Ret m))"

definition store_stmt :: "my_stmt \<Rightarrow> stmt \<times> conn \<Rightarrow> stmt \<times> conn" where
  "store_stmt m sc =
     (case sc of (st, c) \<Rightarrow>
        if st_isPrepared st then (st\<lparr>st_prepared := Some m\<rparr>, c)
        else (st, c\<lparr>c_stmts := (c_stmts c)[st_index st := Some m]\<rparr>))"

text \<open>
  One attempt of \<open>Execute(stmt)\<close> and \<open>_Query(stmt)\<close>, up to the error handling: bind, execute, and
  print the query on every path.
\<close>

definition attempt_stmt :: "mysql \<Rightarrow> stmt \<Rightarrow> conn \<Rightarrow> (reply \<times> my_stmt \<times> stmt \<times> conn) outcome" where
  "attempt_stmt env st c =
     bind_outcome (resolve_stmt st c) (\<lambda>m0.
     bind_outcome (BindParameters st m0) (\<lambda>m.
       let (st1, c1) = store_stmt m (st, c);
           r1 = lib_bind env (c_events c1) m;
           c2 = conn_event (EvBind m r1) c1
       in case r1 of
            Failed e \<Rightarrow>
              bind_outcome (getQueryString (fmt_float env) st m) (\<lambda>_. Ret (r1, m, st1, c2\<lparr>c_errno := e\<rparr>))
          | Okay \<Rightarrow>
              (let r2 = lib_execute env (c_events c2) m; c3 = conn_call (EvExec m r2) r2 c2 in
               bind_outcome (getQueryString (fmt_float env) st m) (\<lambda>_. Ret (r2, m, st1, c3)))))"

partial_function (option) Execute_stmt :: "mysql \<Rightarrow> stmt \<Rightarrow> conn \<Rightarrow> (bool \<times> stmt \<times> conn) outcome option" where
  "Execute_stmt env st c =
     (if \<not> c_open c then Some (Ret (False, st, c))
      else
        (case attempt_stmt env st c of
           Crash k \<Rightarrow> Some (Crash k)
         | Ret (r, m, st1, c1) \<Rightarrow>
             (case r of
                Okay \<Rightarrow> Some (Ret (True, store_stmt (ClearParameters m) (st1, c1)))
              | Failed e \<Rightarrow>
                  (case handle_errno env default_attempts e c1 of
                     Crash k \<Rightarrow> Some (Crash k)
                   | Ret (retry, c2) \<Rightarrow>
                       if retry then Execute_stmt env st1 c2
                       else Some (Ret (False, store_stmt (ClearParameters m) (st1, c2)))))))"

partial_function (option) Query_stmt_loop ::
  "mysql \<Rightarrow> stmt \<Rightarrow> conn \<Rightarrow> ((stmt_result \<times> nat \<times> nat) option \<times> stmt \<times> conn) outcome option" where
  "Query_stmt_loop env st c =
     (if \<not> c_open c then Some (Ret (None, st, c))
      else
        (case attempt_stmt env st c of
           Crash k \<Rightarrow> Some (Crash k)
         | Ret (r, m, st1, c1) \<Rightarrow>
             (case r of
                Okay \<Rightarrow> Some (Ret (Some (lib_stmt_result env (c_events c1)), store_stmt (ClearParameters m) (st1, c1)))
              | Failed e \<Rightarrow>
                  (case handle_errno env default_attempts e c1 of
                     Crash k \<Rightarrow> Some (Crash k)
                   | Ret (retry, c2) \<Rightarrow>
                       if retry then Query_stmt_loop env st1 c2
                       else Some (Ret (None, store_stmt (ClearParameters m) (st1, c2)))))))"

definition conn_Query_stmt :: "mysql \<Rightarrow> stmt \<Rightarrow> conn \<Rightarrow> (prepared_set option \<times> stmt \<times> conn) outcome option" where
  "conn_Query_stmt env st c =
     (case Query_stmt_loop env st c of
        None \<Rightarrow> None
      | Some (Crash k) \<Rightarrow> Some (Crash k)
      | Some (Ret (None, st', c')) \<Rightarrow> Some (Ret (None, st', c'))
      | Some (Ret (Some (sr, rowCount, fieldCount), st', c')) \<Rightarrow>
          Some (bind_outcome (PreparedResultSet_new sr rowCount fieldCount) (\<lambda>ps. Ret (Some ps, st', c'))))"

subsection \<open>Transactions on a connection\<close>

text \<open>
  \<open>SQLElementData\<close>: a variant and a tag that says which alternative it holds. \<open>sd_ptr\<close> is the pointer to
  the statement, which names the object: two elements with one pointer hold the same statement. An
  element without a statement has 0.
\<close>

datatype element = ElemStmt "stmt option" | ElemString string
datatype element_type = SQL_ELEMENT_RAW | SQL_ELEMENT_PREPARED

record sql_data =
  sd_element :: element
  sd_type :: element_type
  sd_ptr :: nat

text \<open>
  The statement object of an element is bound afresh by every execution; what executions leave in
  it is not carried from one to the next.
\<close>

definition Execute_element :: "mysql \<Rightarrow> sql_data \<Rightarrow> conn \<Rightarrow> (bool \<times> conn) outcome option" where
  "Execute_element env d c =
     (case sd_type d of
        SQL_ELEMENT_PREPARED \<Rightarrow>
          (case sd_element d of
             ElemString s \<Rightarrow> Some (Crash (AssertFail ''ABORT''))
           | ElemStmt None \<Rightarrow> Some (Crash (AssertFail ''stmt''))
           | ElemStmt (Some st) \<Rightarrow>
               map_option (map_outcome (\<lambda>(ok, st', c'). (ok, c'))) (Execute_stmt env st c))
      | SQL_ELEMENT_RAW \<Rightarrow>
          (case sd_element d of
             ElemStmt st \<Rightarrow> Some (Crash (AssertFail ''ABORT''))
           | ElemString sql \<Rightarrow>
               if sql = [] then Some (Crash (AssertFail ''!sql.empty()'')) else Execute_sql env sql c))"

text \<open>The results of \<open>START TRANSACTION\<close>, \<open>COMMIT\<close> and \<open>ROLLBACK\<close> are not looked at.\<close>

definition Execute_control :: "mysql \<Rightarrow> string \<Rightarrow> conn \<Rightarrow> conn outcome option" where
  "Execute_control env sql c = map_option (map_outcome snd) (Execute_sql env sql c)"

definition conn_BeginTransaction :: "mysql \<Rightarrow> conn \<Rightarrow> conn outcome option" where
  "conn_BeginTransaction env = Execute_control env ''START TRANSACTION''"

definition conn_RollbackTransaction :: "mysql \<Rightarrow> conn \<Rightarrow> conn outcome option" where
  "conn_RollbackTransaction env = Execute_control env ''ROLLBACK''"

definition conn_CommitTransaction :: "mysql \<Rightarrow> conn \<Rightarrow> conn outcome option" where
  "conn_CommitTransaction env = Execute_control env ''COMMIT''"

text \<open>The value of \<open>ExecuteTransaction\<close>: -1, or an error number, 0 for success.\<close>

datatype tx_code = MinusOne | Code errno

definition bind_run :: "'a outcome option \<Rightarrow> ('a \<Rightarrow> 'b outcome option) \<Rightarrow> 'b outcome option" where
  "bind_run r f = (case r of None \<Rightarrow> None | Some (Crash k) \<Rightarrow> Some (Crash k) | Some (Ret x) \<Rightarrow> f x)"

primrec run_queries :: "mysql \<Rightarrow> sql_data list \<Rightarrow> conn \<Rightarrow> (tx_code \<times> conn) outcome option" where
  "run_queries env [] c = bind_run (conn_CommitTransaction env c) (\<lambda>c. Some (Ret (Code NoErrno, c)))"
| "run_queries env (d # ds) c =
     bind_run (Execute_element env d c) (\<lambda>(ok, c).
       if ok then run_queries env ds c
       else
         let errorCode = GetLastError env c
         in bind_run (conn_RollbackTransaction env c) (\<lambda>c. Some (Ret (Code errorCode, c))))"

definition ExecuteTransaction :: "mysql \<Rightarrow> sql_data list \<Rightarrow> conn \<Rightarrow> (tx_code \<times> conn) outcome option" where
  "ExecuteTransaction env queries c =
     (if queries = [] then Some (Ret (MinusOne, c))
      else bind_run (conn_BeginTransaction env c) (run_queries env queries))"

end
