(* ===== verification/Server_Log.thy ===== *)
theory Server_Log
  imports Connection
begin

section \<open>What the calls of a connection mean to the server\<close>

text \<open>
  The abstract specification a transaction is held against: a server that keeps the statements it
  has committed and those of the open transaction, driven by the events of a connection. A
  statement outside a transaction commits at once, losing or closing the connection rolls the open
  transaction back, and starting a transaction commits an open one: the documented behaviour of
  the server with autocommit on, which \<open>Open\<close> turns on. Then the interface through which a
  transaction executes its elements, as a locale, with the facts a client of it needs.
\<close>

type_synonym effect = "string \<times> mysql_bind list"

record server =
  sv_committed :: "effect list"
  sv_open :: "effect list option"

definition server_empty :: server where
  "server_empty = \<lparr>sv_committed = [], sv_open = None\<rparr>"

definition apply_effect :: "effect \<Rightarrow> server \<Rightarrow> server" where
  "apply_effect e sv =
     (case sv_open sv of
        None \<Rightarrow> sv\<lparr>sv_committed := sv_committed sv @ [e]\<rparr>
      | Some es \<Rightarrow> sv\<lparr>sv_open := Some (es @ [e])\<rparr>)"

definition sv_commit :: "server \<Rightarrow> server" where
  "sv_commit sv =
     (case sv_open sv of None \<Rightarrow> sv | Some es \<Rightarrow> \<lparr>sv_committed = sv_committed sv @ es, sv_open = None\<rparr>)"

definition sv_rollback :: "server \<Rightarrow> server" where
  "sv_rollback sv = sv\<lparr>sv_open := None\<rparr>"

definition sv_query :: "string \<Rightarrow> server \<Rightarrow> server" where
  "sv_query q sv =
     (if q = ''START TRANSACTION'' then (sv_commit sv)\<lparr>sv_open := Some []\<rparr>
      else if q = ''COMMIT'' then sv_commit sv
      else if q = ''ROLLBACK'' then sv_rollback sv
      else apply_effect (q, []) sv)"

definition sv_failed :: "errno \<Rightarrow> server \<Rightarrow> server" where
  "sv_failed e sv = (if is_lost e then sv_rollback sv else sv)"

fun server_event :: "lib_call \<Rightarrow> server \<Rightarrow> server" where
  "server_event (EvConnect args r) sv = sv_rollback sv"
| "server_event EvClose sv = sv_rollback sv"
| "server_event (EvQuery q Okay) sv = sv_query q sv"
| "server_event (EvQuery q (Failed e)) sv = sv_failed e sv"
| "server_event (EvExec m Okay) sv = apply_effect (ms_queryString m, ms_bind m) sv"
| "server_event (EvExec m (Failed e)) sv = sv_failed e sv"
| "server_event _ sv = sv"

definition server_run :: "lib_call list \<Rightarrow> server \<Rightarrow> server" where
  "server_run evs sv = fold server_event evs sv"

definition conn_server :: "conn \<Rightarrow> server" where
  "conn_server c = server_run (c_events c) server_empty"

lemma server_run_append [simp]: "server_run (xs @ ys) sv = server_run ys (server_run xs sv)"
  by (simp add: server_run_def)

lemma server_run_simps [simp]: "server_run [] sv = sv" "server_run (e # es) sv = server_run es (server_event e sv)"
  by (simp_all add: server_run_def)

lemma conn_server_call: "conn_server (conn_call e r c) = server_event e (conn_server c)"
  by (simp add: conn_server_def conn_call_def)

lemma conn_server_event: "conn_server (conn_event e c) = server_event e (conn_server c)"
  by (simp add: conn_server_def conn_event_def)

lemma apply_effects_open:
  "sv_open sv = Some es \<Longrightarrow> fold apply_effect effs sv = sv\<lparr>sv_open := Some (es @ effs)\<rparr>"
  by (induction effs arbitrary: sv es) (simp_all add: apply_effect_def)

text \<open>A loop that executes elements until one fails, as \<open>ExecuteTransaction\<close> does.\<close>

primrec exec_all :: "('d \<Rightarrow> 's \<Rightarrow> (bool \<times> 's) outcome option) \<Rightarrow> 'd list \<Rightarrow> 's \<Rightarrow> (bool \<times> 's) outcome option" where
  "exec_all exec [] s = Some (Ret (True, s))"
| "exec_all exec (d # ds) s =
     bind_run (exec d s) (\<lambda>(ok, s). if ok then exec_all exec ds s else Some (Ret (False, s)))"

subsection \<open>The interface of an executor\<close>

text \<open>
  What a transaction relies on: in a good state an element that is ready comes back, has its one
  effect on the server or none, and leaves an error number behind in the second case; elements
  that are ready stay so.
\<close>

locale executor =
  fixes exec :: "'d \<Rightarrow> 's \<Rightarrow> (bool \<times> 's) outcome option"
    and good :: "'s \<Rightarrow> bool"
    and ready :: "'d \<Rightarrow> 's \<Rightarrow> bool"
    and label :: "'d \<Rightarrow> 's \<Rightarrow> string"
    and server_of :: "'s \<Rightarrow> server"
    and last_error :: "'s \<Rightarrow> errno"
  assumes exec_step: "good s \<Longrightarrow> ready d s \<Longrightarrow>
      \<exists>ok s'. exec d s = Some (Ret (ok, s')) \<and> good s' \<and>
        (if ok then \<exists>b. server_of s' = apply_effect (label d s, b) (server_of s)
         else server_of s' = server_of s \<and> last_error s' \<noteq> NoErrno)"
    and exec_keeps: "good s \<Longrightarrow> ready d s \<Longrightarrow> exec d s = Some (Ret (ok, s')) \<Longrightarrow>
      ready d' s' = ready d' s \<and> label d' s' = label d' s"
begin

lemma exec_all_run:
  assumes "good s" and "\<forall>d \<in> set ds. ready d s"
  shows "\<exists>ok s' effs. exec_all exec ds s = Some (Ret (ok, s')) \<and> good s' \<and>
    server_of s' = fold apply_effect effs (server_of s) \<and>
    map fst effs = map (\<lambda>d. label d s) (take (length effs) ds) \<and>
    (if ok then length effs = length ds else length effs < length ds \<and> last_error s' \<noteq> NoErrno) \<and>
    (\<forall>d. ready d s' = ready d s \<and> label d s' = label d s)"
  using assms
proof (induction ds arbitrary: s)
  case Nil
  then show ?case by (intro exI [of _ True] exI [of _ s] exI [of _ "[]"]) simp
next
  case (Cons d ds)
  from exec_step [OF Cons.prems(1), of d] Cons.prems(2) obtain ok s1 where
    s1: "exec d s = Some (Ret (ok, s1))" "good s1"
    and eff: "if ok then \<exists>b. server_of s1 = apply_effect (label d s, b) (server_of s)
         else server_of s1 = server_of s \<and> last_error s1 \<noteq> NoErrno"
    by auto
  have keep: "ready d' s1 = ready d' s" "label d' s1 = label d' s" for d'
    using exec_keeps [OF Cons.prems(1) _ s1(1), of d'] Cons.prems(2) by auto
  show ?case
  proof (cases ok)
    case False
    with s1 eff keep show ?thesis
      by (intro exI [of _ False] exI [of _ s1] exI [of _ "[]"]) (simp add: bind_run_def)
  next
    case True
    with eff obtain b where b: "server_of s1 = apply_effect (label d s, b) (server_of s)" by auto
    from Cons.IH [OF s1(2)] Cons.prems(2) keep obtain ok' s' effs where
      "exec_all exec ds s1 = Some (Ret (ok', s'))" "good s'"
      "server_of s' = fold apply_effect effs (server_of s1)"
      "map fst effs = map (\<lambda>d. label d s) (take (length effs) ds)"
      "if ok' then length effs = length ds else length effs < length ds \<and> last_error s' \<noteq> NoErrno"
      "\<forall>d. ready d s' = ready d s \<and> label d s' = label d s"
      by auto
    with s1 True b show ?thesis
      by (intro exI [of _ ok'] exI [of _ s'] exI [of _ "(label d s, b) # effs"]) (simp add: bind_run_def)
  qed
qed

end

subsection \<open>The connection as an executor\<close>

definition steady_reply :: "reply \<Rightarrow> bool" where
  "steady_reply r \<longleftrightarrow> (\<forall>e. r = Failed e \<longrightarrow> errno_class e = GiveUp \<and> e \<noteq> NoErrno)"

text \<open>
  A library that keeps the connection: statements may fail, but with a number on which the program
  gives up, and starting, committing and rolling back succeed.
\<close>

definition is_control :: "string \<Rightarrow> bool" where
  "is_control q \<longleftrightarrow> q \<in> {''START TRANSACTION'', ''COMMIT'', ''ROLLBACK''}"

definition steady :: "mysql \<Rightarrow> bool" where
  "steady env \<longleftrightarrow> (\<forall>tr q. steady_reply (lib_query env tr q)) \<and> (\<forall>tr m. steady_reply (lib_bind env tr m)) \<and>
     (\<forall>tr m. steady_reply (lib_execute env tr m)) \<and> (\<forall>tr q. is_control q \<longrightarrow> lib_query env tr q = Okay)"

text \<open>What executing a statement never changes of the statements of a connection.\<close>

definition shape :: "my_stmt \<Rightarrow> nat \<times> string \<times> bool" where
  "shape m = (ms_paramCount m, ms_queryString m, my_stmt_ok m)"

definition shape_of :: "stmt \<Rightarrow> conn \<Rightarrow> (nat \<times> string \<times> bool) option" where
  "shape_of st c =
     (if st_isPrepared st then map_option shape (st_prepared st)
      else if st_index st < length (c_stmts c) then map_option shape (c_stmts c ! st_index st) else None)"

definition stmt_ready :: "stmt \<Rightarrow> conn \<Rightarrow> bool" where
  "stmt_ready st c \<longleftrightarrow>
     (case shape_of st c of
        None \<Rightarrow> False
      | Some (n, q, ok) \<Rightarrow> ok \<and> length (statement_data st) < 256 \<and> length (statement_data st) \<le> n \<and>
          length (statement_data st) \<le> count_list q (CHR ''?''))"

definition stmt_text :: "stmt \<Rightarrow> conn \<Rightarrow> string" where
  "stmt_text st c = (case shape_of st c of None \<Rightarrow> [] | Some (n, q, ok) \<Rightarrow> q)"

definition element_ready :: "sql_data \<Rightarrow> conn \<Rightarrow> bool" where
  "element_ready d c \<longleftrightarrow>
     (case sd_type d of
        SQL_ELEMENT_RAW \<Rightarrow>
          (case sd_element d of ElemString s \<Rightarrow> s \<noteq> [] \<and> \<not> is_control s | ElemStmt st \<Rightarrow> False)
      | SQL_ELEMENT_PREPARED \<Rightarrow>
          (case sd_element d of ElemStmt (Some st) \<Rightarrow> stmt_ready st c | _ \<Rightarrow> False))"

definition element_text :: "sql_data \<Rightarrow> conn \<Rightarrow> string" where
  "element_text d c =
     (case sd_element d of ElemString s \<Rightarrow> s | ElemStmt (Some st) \<Rightarrow> stmt_text st c | ElemStmt None \<Rightarrow> [])"

definition stmt_shapes :: "conn \<Rightarrow> (nat \<times> string \<times> bool) option list" where
  "stmt_shapes c = map (map_option shape) (c_stmts c)"

lemma shape_of_cong:
  assumes "stmt_shapes c' = stmt_shapes c"
  shows "shape_of st c' = shape_of st c"
proof -
  have "length (c_stmts c') = length (c_stmts c)" using assms by (metis length_map stmt_shapes_def)
  moreover have "map_option shape (c_stmts c' ! i) = map_option shape (c_stmts c ! i)" if "i < length (c_stmts c)" for i
    using assms that calculation by (metis nth_map stmt_shapes_def)
  ultimately show ?thesis by (simp add: shape_of_def)
qed

lemma element_cong:
  assumes "stmt_shapes c' = stmt_shapes c"
  shows "element_ready d c' = element_ready d c \<and> element_text d c' = element_text d c"
  using shape_of_cong [OF assms]
  by (simp add: element_ready_def element_text_def stmt_ready_def stmt_text_def split: element.splits option.splits element_type.splits)

lemma handle_errno_give_up: "errno_class e = GiveUp \<Longrightarrow> handle_errno env n e c = Ret (False, c)"
  by (cases n) simp_all

lemma Execute_sql_steady:
  assumes "steady env" and "c_open c"
  shows "\<exists>ok c' r. Execute_sql env sql c = Some (Ret (ok, c')) \<and> c' = conn_call (EvQuery sql r) r c \<and>
    r = lib_query env (c_events c) sql \<and> (ok \<longleftrightarrow> r = Okay) \<and> (\<not> ok \<longrightarrow> c_errno c' \<noteq> NoErrno)"
proof (cases "lib_query env (c_events c) sql")
  case Okay
  then show ?thesis using assms(2) by (intro exI [of _ True]) (subst Execute_sql.simps, simp)
next
  case (Failed e)
  have "steady_reply (lib_query env (c_events c) sql)" using assms(1) by (simp add: steady_def)
  then have "errno_class e = GiveUp" "e \<noteq> NoErrno" using Failed by (simp_all add: steady_reply_def)
  then show ?thesis
    using assms(2) Failed
    by (intro exI [of _ False]) (subst Execute_sql.simps, simp add: handle_errno_give_up conn_call_def)
qed

lemma Execute_control_steady:
  assumes "steady env" and "c_open c" and "is_control sql"
  shows "Execute_control env sql c = Some (Ret (conn_call (EvQuery sql Okay) Okay c))"
proof -
  have "lib_query env (c_events c) sql = Okay" using assms by (simp add: steady_def)
  with Execute_sql_steady [OF assms(1,2), of sql] show ?thesis by (auto simp: Execute_control_def)
qed

lemma conn_call_same [simp]:
  "c_open (conn_call e r c) = c_open c" "c_stmts (conn_call e r c) = c_stmts c"
  "c_events (conn_call e r c) = c_events c @ [e]" "c_info (conn_call e r c) = c_info c"
  "c_flags (conn_call e r c) = c_flags c" "c_table (conn_call e r c) = c_table c"
  "c_errno (conn_call e (Failed n) c) = n" "c_reconnecting (conn_call e r c) = c_reconnecting c"
  "c_prepareError (conn_call e r c) = c_prepareError c"
  by (simp_all add: conn_call_def)

lemma conn_event_same [simp]:
  "c_open (conn_event e c) = c_open c" "c_stmts (conn_event e c) = c_stmts c"
  "c_events (conn_event e c) = c_events c @ [e]" "c_info (conn_event e c) = c_info c"
  "c_flags (conn_event e c) = c_flags c" "c_table (conn_event e c) = c_table c"
  "c_errno (conn_event e c) = c_errno c" "c_reconnecting (conn_event e c) = c_reconnecting c"
  "c_prepareError (conn_event e c) = c_prepareError c"
  by (simp_all add: conn_event_def)

lemma resolve_stmt_shape:
  assumes "shape_of st c = Some s"
  obtains m where "resolve_stmt st c = Ret m" "shape m = s"
  using assms by (auto simp: shape_of_def resolve_stmt_def GetPreparedStatement_def split: if_splits option.splits)

lemma BindParameters_shape:
  assumes "BindParameters st m = Ret m'" and "my_stmt_ok m" and "length (statement_data st) < 256"
  shows "shape m' = shape m"
  using assms by (auto simp: BindParameters_eq shape_def my_stmt_ok_def split: if_splits)

lemma store_stmt_facts:
  assumes "store_stmt m' (st, c) = (st1, c1)" and "shape_of st c = Some (shape m')"
  shows "stmt_shapes c1 = stmt_shapes c" and "c_open c1 = c_open c" and "c_events c1 = c_events c"
    and "c_errno c1 = c_errno c" and "statement_data st1 = statement_data st"
    and "shape_of st1 c1 = Some (shape m')"
proof -
  have upd: "stmt_shapes (c\<lparr>c_stmts := (c_stmts c)[i := Some m']\<rparr>) = stmt_shapes c"
    if "i < length (c_stmts c)" "map_option shape (c_stmts c ! i) = Some (shape m')" for i
    using that by (auto simp: stmt_shapes_def map_update intro!: list_update_same_conv [THEN iffD2])
  show "stmt_shapes c1 = stmt_shapes c" "c_open c1 = c_open c" "c_events c1 = c_events c"
    "c_errno c1 = c_errno c" "statement_data st1 = statement_data st" "shape_of st1 c1 = Some (shape m')"
    using assms upd by (auto simp: store_stmt_def shape_of_def split: if_splits)
qed

lemma ClearParameters_shape: "my_stmt_ok m \<Longrightarrow> shape (ClearParameters m) = shape m"
  by (simp add: shape_def) (simp add: ClearParameters_def)

text \<open>One attempt of a statement that is ready: it does not crash, and has its events and no other.\<close>

lemma attempt_stmt_ready:
  assumes "stmt_ready st c"
  shows "\<exists>r m st1 c1 evs. attempt_stmt env st c = Ret (r, m, st1, c1) \<and>
    shape_of st c = Some (shape m) \<and> my_stmt_ok m \<and> ms_queryString m = stmt_text st c \<and>
    stmt_shapes c1 = stmt_shapes c \<and> c_open c1 = c_open c \<and> shape_of st1 c1 = Some (shape m) \<and>
    statement_data st1 = statement_data st \<and>
    c_events c1 = c_events c @ evs \<and>
    (evs = [EvBind m Okay, EvExec m r] \<and> r = lib_execute env (c_events c @ [EvBind m Okay]) m \<or>
     evs = [EvBind m r] \<and> r = lib_bind env (c_events c) m \<and> r \<noteq> Okay) \<and>
    (\<forall>e. r = Failed e \<longrightarrow> c_errno c1 = e)"
proof -
  obtain n q where sh: "shape_of st c = Some (n, q, True)" and len: "length (statement_data st) < 256"
    "length (statement_data st) \<le> n" "length (statement_data st) \<le> count_list q (CHR ''?'')"
    using assms by (auto simp: stmt_ready_def split: option.splits)
  obtain m0 where m0: "resolve_stmt st c = Ret m0" "shape m0 = (n, q, True)"
    using resolve_stmt_shape [OF sh] by blast
  then have ok0: "my_stmt_ok m0" "ms_paramCount m0 = n" by (simp_all add: shape_def)
  then obtain m where b: "BindParameters st m0 = Ret m"
    using BindParameters_eq [OF ok0(1) len(1)] len(2) by (simp split: if_splits)
  have shm: "shape m = (n, q, True)" using BindParameters_shape [OF b ok0(1) len(1)] m0(2) by simp
  then have m: "my_stmt_ok m" "ms_queryString m = q" "shape_of st c = Some (shape m)"
    using sh by (simp_all add: shape_def)
  have "\<exists>s. getQueryString (fmt_float env) st m = Ret s" using getQueryString_Ret [of "fmt_float env" st m] len(3) m(2) by simp
  then obtain s where s: "getQueryString (fmt_float env) st m = Ret s" by blast
  obtain st1 c1 where st1: "store_stmt m (st, c) = (st1, c1)" by (cases "store_stmt m (st, c)")
  note f = store_stmt_facts [OF st1 m(3)]
  have cong: "shape_of st1 c' = Some (shape m)" if "c_stmts c' = c_stmts c1" for c'
    using f(6) that by (simp add: shape_of_def split: if_splits)
  have txt_q: "stmt_text st c = q" by (simp add: stmt_text_def sh)
  have cl: "stmt_shapes (conn_event e c') = stmt_shapes c'" "stmt_shapes (conn_call e r c') = stmt_shapes c'"
    "stmt_shapes (c'\<lparr>c_errno := x\<rparr>) = stmt_shapes c'" for e r c' x
    by (simp_all add: stmt_shapes_def)
  show ?thesis
  proof (cases "lib_bind env (c_events c) m")
    case (Failed e)
    then have "attempt_stmt env st c = Ret (Failed e, m, st1, (conn_event (EvBind m (Failed e)) c1)\<lparr>c_errno := e\<rparr>)"
      using m0(1) b st1 s f(3) by (simp add: attempt_stmt_def Let_def)
    then show ?thesis
      using Failed f m txt_q
      by (intro exI [of _ "Failed e"] exI [of _ m] exI [of _ st1] exI [of _ "[EvBind m (Failed e)]"]
          exI [of _ "(conn_event (EvBind m (Failed e)) c1)\<lparr>c_errno := e\<rparr>"]) (simp add: cl cong)
  next
    case Okay
    let ?r = "lib_execute env (c_events c @ [EvBind m Okay]) m"
    have "attempt_stmt env st c = Ret (?r, m, st1, conn_call (EvExec m ?r) ?r (conn_event (EvBind m Okay) c1))"
      using m0(1) b st1 s f(3) Okay by (simp add: attempt_stmt_def Let_def)
    then show ?thesis
      using f m txt_q
      by (intro exI [of _ ?r] exI [of _ m] exI [of _ st1] exI [of _ "[EvBind m Okay, EvExec m ?r]"]
          exI [of _ "conn_call (EvExec m ?r) ?r (conn_event (EvBind m Okay) c1)"])
        (auto simp: cl cong)
  qed
qed

lemma Execute_stmt_steady:
  assumes "steady env" and "c_open c" and "stmt_ready st c"
  shows "\<exists>ok st' c' b. Execute_stmt env st c = Some (Ret (ok, st', c')) \<and> c_open c' \<and>
    stmt_shapes c' = stmt_shapes c \<and>
    conn_server c' = (if ok then apply_effect (stmt_text st c, b) (conn_server c) else conn_server c) \<and>
    (\<not> ok \<longrightarrow> c_errno c' \<noteq> NoErrno)"
proof -
  from attempt_stmt_ready [OF assms(3), of env] obtain r m st1 c1 evs where
    a: "attempt_stmt env st c = Ret (r, m, st1, c1)" "shape_of st c = Some (shape m)" "my_stmt_ok m"
      "ms_queryString m = stmt_text st c" "stmt_shapes c1 = stmt_shapes c" "c_open c1 = c_open c"
      "shape_of st1 c1 = Some (shape m)" "c_events c1 = c_events c @ evs"
    and evs: "evs = [EvBind m Okay, EvExec m r] \<and> r = lib_execute env (c_events c @ [EvBind m Okay]) m \<or>
     evs = [EvBind m r] \<and> r = lib_bind env (c_events c) m \<and> r \<noteq> Okay"
    and err: "\<And>e. r = Failed e \<Longrightarrow> c_errno c1 = e"
    by blast
  have "steady_reply r" using evs assms(1) by (auto simp: steady_def)
  then have g: "errno_class e = GiveUp" "e \<noteq> NoErrno" if "r = Failed e" for e
    using that by (simp_all add: steady_reply_def)
  obtain st2 c2 where st2: "store_stmt (ClearParameters m) (st1, c1) = (st2, c2)"
    by (cases "store_stmt (ClearParameters m) (st1, c1)")
  have "shape_of st1 c1 = Some (shape (ClearParameters m))" using a(3,7) by (simp add: ClearParameters_shape)
  note f = store_stmt_facts [OF st2 this]
  show ?thesis
  proof (cases r)
    case Okay
    then have "Execute_stmt env st c = Some (Ret (True, st2, c2))"
      using assms(2) a(1) st2 by (subst Execute_stmt.simps) simp
    moreover have "conn_server c2 = apply_effect (stmt_text st c, ms_bind m) (conn_server c)"
      using evs Okay f(3) a(4,8) by (auto simp: conn_server_def)
    ultimately show ?thesis using f a assms(2) by (intro exI [of _ True]) auto
  next
    case (Failed e)
    have "Execute_stmt env st c = Some (Ret (False, st2, c2))"
      using assms(2) a(1) st2 Failed g by (subst Execute_stmt.simps) (simp add: handle_errno_give_up)
    moreover have "conn_server c2 = conn_server c"
    proof -
      have "\<not> is_lost e" using g [OF Failed] by (auto simp: is_lost_def errno_class_def)
      then have "server_event (EvExec m r) sv = sv" for sv using Failed by (simp add: sv_failed_def)
      then show ?thesis using evs f(3) a(8) by (elim disjE) (auto simp: conn_server_def)
    qed
    ultimately show ?thesis using f a assms(2) err [OF Failed] g [OF Failed] by (intro exI [of _ False]) auto
  qed
qed

lemma Execute_element_steady:
  assumes "steady env" and "c_open c" and "element_ready d c"
  shows "\<exists>ok c' b. Execute_element env d c = Some (Ret (ok, c')) \<and> c_open c' \<and> stmt_shapes c' = stmt_shapes c \<and>
    conn_server c' = (if ok then apply_effect (element_text d c, b) (conn_server c) else conn_server c) \<and>
    (\<not> ok \<longrightarrow> GetLastError env c' \<noteq> NoErrno)"
proof (cases "sd_type d")
  case SQL_ELEMENT_RAW
  then obtain s where s: "sd_element d = ElemString s" "s \<noteq> []" "\<not> is_control s"
    using assms(3) by (auto simp: element_ready_def split: element.splits)
  from Execute_sql_steady [OF assms(1,2), of s] obtain ok c' r where
    e: "Execute_sql env s c = Some (Ret (ok, c'))" "c' = conn_call (EvQuery s r) r c"
      "r = lib_query env (c_events c) s" "ok \<longleftrightarrow> r = Okay" "\<not> ok \<longrightarrow> c_errno c' \<noteq> NoErrno"
    by blast
  have "steady_reply r" using assms(1) e(3) by (simp add: steady_def)
  then have "conn_server c' = (if ok then apply_effect (s, []) (conn_server c) else conn_server c)"
    using e(2,4) s(3)
    by (cases r) (auto simp: conn_server_call sv_query_def is_control_def sv_failed_def steady_reply_def
        is_lost_def errno_class_def)
  then show ?thesis
    using SQL_ELEMENT_RAW s e assms(2)
    by (intro exI [of _ ok] exI [of _ c'] exI [of _ "[]"])
      (simp add: Execute_element_def stmt_shapes_def element_text_def GetLastError_def)
next
  case SQL_ELEMENT_PREPARED
  then obtain st where st: "sd_element d = ElemStmt (Some st)" "stmt_ready st c"
    using assms(3) by (auto simp: element_ready_def split: element.splits option.splits)
  from Execute_stmt_steady [OF assms(1,2) st(2)] obtain ok st' c' b where
    "Execute_stmt env st c = Some (Ret (ok, st', c'))" "c_open c'" "stmt_shapes c' = stmt_shapes c"
    "conn_server c' = (if ok then apply_effect (stmt_text st c, b) (conn_server c) else conn_server c)"
    "\<not> ok \<longrightarrow> c_errno c' \<noteq> NoErrno"
    by blast
  then show ?thesis
    using SQL_ELEMENT_PREPARED st
    by (intro exI [of _ ok] exI [of _ c'] exI [of _ b])
      (simp add: Execute_element_def element_text_def GetLastError_def)
qed

text \<open>The executor's interface on the connection; the state carries the library along.\<close>

definition exec_pair :: "sql_data \<Rightarrow> mysql \<times> conn \<Rightarrow> (bool \<times> mysql \<times> conn) outcome option" where
  "exec_pair d s =
     (case s of (env, c) \<Rightarrow> map_option (map_outcome (\<lambda>(ok, c'). (ok, env, c'))) (Execute_element env d c))"

interpretation connection: executor exec_pair "\<lambda>(env, c). steady env \<and> c_open c"
  "\<lambda>d (env, c). element_ready d c" "\<lambda>d (env, c). element_text d c" "\<lambda>(env, c). conn_server c"
  "\<lambda>(env, c). GetLastError env c"
proof unfold_locales
  fix s :: "mysql \<times> conn" and d :: sql_data
  assume g: "(case s of (env, c) \<Rightarrow> steady env \<and> c_open c)" and r: "(case s of (env, c) \<Rightarrow> element_ready d c)"
  obtain env c where s: "s = (env, c)" by (cases s)
  from Execute_element_steady [of env c d] g r s obtain ok c' b where
    e: "Execute_element env d c = Some (Ret (ok, c'))" "c_open c'"
      "conn_server c' = (if ok then apply_effect (element_text d c, b) (conn_server c) else conn_server c)"
      "\<not> ok \<longrightarrow> GetLastError env c' \<noteq> NoErrno"
    by auto
  then show "\<exists>ok s'. exec_pair d s = Some (Ret (ok, s')) \<and> (case s' of (env, c) \<Rightarrow> steady env \<and> c_open c) \<and>
      (if ok then \<exists>b. (case s' of (env, c) \<Rightarrow> conn_server c) =
          apply_effect (case s of (env, c) \<Rightarrow> element_text d c, b) (case s of (env, c) \<Rightarrow> conn_server c)
       else (case s' of (env, c) \<Rightarrow> conn_server c) = (case s of (env, c) \<Rightarrow> conn_server c) \<and>
          (case s' of (env, c) \<Rightarrow> GetLastError env c) \<noteq> NoErrno)"
    using g s by (intro exI [of _ ok] exI [of _ "(env, c')"]) (auto simp: exec_pair_def)
next
  fix s s' :: "mysql \<times> conn" and d d' :: sql_data and ok
  assume g: "(case s of (env, c) \<Rightarrow> steady env \<and> c_open c)" and r: "(case s of (env, c) \<Rightarrow> element_ready d c)"
    and e: "exec_pair d s = Some (Ret (ok, s'))"
  obtain env c where s: "s = (env, c)" by (cases s)
  from Execute_element_steady [of env c d] g r s obtain ok' c' where
    e': "Execute_element env d c = Some (Ret (ok', c'))" "stmt_shapes c' = stmt_shapes c"
    by auto
  then have "s' = (env, c')" using e s by (simp add: exec_pair_def)
  then show "(case s' of (env, c) \<Rightarrow> element_ready d' c) = (case s of (env, c) \<Rightarrow> element_ready d' c) \<and>
      (case s' of (env, c) \<Rightarrow> element_text d' c) = (case s of (env, c) \<Rightarrow> element_text d' c)"
    using element_cong [OF e'(2)] s by simp
qed

subsection \<open>Transactions\<close>

definition tx_finish :: "bool \<times> mysql \<times> conn \<Rightarrow> (tx_code \<times> conn) outcome option" where
  "tx_finish r =
     (case r of (ok, env, c) \<Rightarrow>
        if ok then bind_run (conn_CommitTransaction env c) (\<lambda>c. Some (Ret (Code NoErrno, c)))
        else
          let errorCode = GetLastError env c
          in bind_run (conn_RollbackTransaction env c) (\<lambda>c. Some (Ret (Code errorCode, c))))"

lemma run_queries_exec_all:
  "run_queries env ds c = bind_run (exec_all exec_pair ds (env, c)) tx_finish"
proof (induction ds arbitrary: c)
  case Nil
  then show ?case by (simp add: bind_run_def tx_finish_def)
next
  case (Cons d ds)
  then show ?case
    by (auto simp: exec_pair_def bind_run_def tx_finish_def Let_def split: option.splits outcome.splits)
qed

text \<open>One atomic transaction of the abstract server.\<close>

definition atomic :: "bool \<Rightarrow> effect list \<Rightarrow> server \<Rightarrow> server" where
  "atomic done effs sv = (if done then sv\<lparr>sv_committed := sv_committed sv @ effs\<rparr> else sv)"

lemma ExecuteTransaction_steady:
  assumes "steady env" and "c_open c" and "queries \<noteq> []" and "\<forall>d \<in> set queries. element_ready d c"
    and "sv_open (conn_server c) = None"
  shows "\<exists>code c' effs. ExecuteTransaction env queries c = Some (Ret (code, c')) \<and> c_open c' \<and>
    conn_server c' = atomic (code = Code NoErrno) effs (conn_server c) \<and>
    map fst effs = map (\<lambda>d. element_text d c) queries \<and>
    (\<forall>d. element_ready d c' = element_ready d c \<and> element_text d c' = element_text d c)"
proof -
  let ?c0 = "conn_call (EvQuery ''START TRANSACTION'' Okay) Okay c"
  have sv0: "conn_server ?c0 = (conn_server c)\<lparr>sv_open := Some []\<rparr>"
    using assms(5) by (simp add: conn_server_call sv_query_def sv_commit_def)
  have begin0: "conn_BeginTransaction env c = Some (Ret ?c0)"
    unfolding conn_BeginTransaction_def by (rule Execute_control_steady [OF assms(1,2)]) (simp add: is_control_def)
  have keep: "element_ready d ?c0 = element_ready d c" "element_text d ?c0 = element_text d c" for d
    using element_cong [of ?c0 c d] by (simp_all add: stmt_shapes_def)
  have "\<forall>d \<in> set queries. element_ready d ?c0" using assms(4) keep by simp
  then obtain ok s' effs where
    "exec_all exec_pair queries (env, ?c0) = Some (Ret (ok, s'))" "case s' of (env, c) \<Rightarrow> steady env \<and> c_open c"
    "\<forall>d. (case s' of (env, c) \<Rightarrow> element_ready d c) = element_ready d ?c0 \<and>
      (case s' of (env, c) \<Rightarrow> element_text d c) = element_text d ?c0"
    "(case s' of (env, c) \<Rightarrow> conn_server c) = fold apply_effect effs (conn_server ?c0)"
    "map fst effs = map (\<lambda>d. element_text d ?c0) (take (length effs) queries)"
    "if ok then length effs = length queries
     else length effs < length queries \<and> (case s' of (env, c) \<Rightarrow> GetLastError env c) \<noteq> NoErrno"
    using connection.exec_all_run [of "(env, ?c0)" queries] assms(1,2) by auto
  then obtain env' c1 where run: "exec_all exec_pair queries (env, ?c0) = Some (Ret (ok, env', c1))"
    and g: "steady env'" "c_open c1"
    and sv1: "conn_server c1 = fold apply_effect effs (conn_server ?c0)"
    and effs: "map fst effs = map (\<lambda>d. element_text d c) (take (length effs) queries)"
      "if ok then length effs = length queries else length effs < length queries \<and> GetLastError env' c1 \<noteq> NoErrno"
    and keep1: "element_ready d c1 = element_ready d c" "element_text d c1 = element_text d c" for d
    using keep by (cases s') auto
  have keep2: "element_ready d (conn_call e r c1) = element_ready d c \<and>
      element_text d (conn_call e r c1) = element_text d c" for d e r
    using element_cong [of "conn_call e r c1" c1 d] keep1 by (simp add: stmt_shapes_def)
  have sv1': "conn_server c1 = (conn_server c)\<lparr>sv_open := Some effs\<rparr>"
    using sv1 sv0 apply_effects_open [of "conn_server ?c0" "[]" effs] by simp
  have tx: "ExecuteTransaction env queries c = tx_finish (ok, env', c1)"
    using begin0 run assms(3) by (simp add: ExecuteTransaction_def run_queries_exec_all bind_run_def)
  have ctl: "Execute_control env' q c1 = Some (Ret (conn_call (EvQuery q Okay) Okay c1))" if "is_control q" for q
    by (rule Execute_control_steady [OF g that])
  show ?thesis
  proof (cases ok)
    case True
    let ?c2 = "conn_call (EvQuery ''COMMIT'' Okay) Okay c1"
    have "tx_finish (ok, env', c1) = Some (Ret (Code NoErrno, ?c2))"
      using True ctl [of "''COMMIT''"] by (simp add: tx_finish_def conn_CommitTransaction_def is_control_def bind_run_def)
    moreover have "conn_server ?c2 = atomic True effs (conn_server c)"
      using assms(5) by (simp add: conn_server_call sv_query_def sv_commit_def sv1' atomic_def)
    ultimately show ?thesis using tx effs True g(2) keep2
      by (intro exI [of _ "Code NoErrno"] exI [of _ ?c2] exI [of _ effs]) simp
  next
    case False
    let ?c2 = "conn_call (EvQuery ''ROLLBACK'' Okay) Okay c1"
    let ?e = "GetLastError env' c1"
    have "tx_finish (ok, env', c1) = Some (Ret (Code ?e, ?c2))"
      using False ctl [of "''ROLLBACK''"]
      by (simp add: tx_finish_def conn_RollbackTransaction_def is_control_def bind_run_def Let_def)
    moreover have "conn_server ?c2 = conn_server c"
      using assms(5) by (simp add: conn_server_call sv_query_def sv_rollback_def sv1')
    ultimately show ?thesis using tx effs(2) False g(2) keep2
      by (intro exI [of _ "Code ?e"] exI [of _ ?c2] exI [of _ "map (\<lambda>d. (element_text d c, [])) queries"])
        (simp add: atomic_def comp_def)
  qed
qed

end
