(* ===== verification/Connection_Facts.thy ===== *)
theory Connection_Facts
  imports Server_Log
begin

section \<open>What a connection guarantees\<close>

text \<open>
  Lemmas on opening, preparing and reconnecting, and the properties of connections and of
  transactions on them: atomicity while the connection holds, what is lost when it does not, how
  often it is tried again, and which statements it can execute.
\<close>

subsection \<open>Opening and preparing\<close>

text \<open>A library that lets the program connect and prepare whenever it asks.\<close>

definition accepts :: "mysql \<Rightarrow> bool" where
  "accepts env \<longleftrightarrow> (\<forall>tr. lib_init env tr) \<and> (\<forall>tr a. lib_connect env tr a = Okay) \<and>
     (\<forall>tr. lib_stmt_init env tr) \<and> (\<forall>tr q. lib_prepare env tr q \<noteq> None)"

text \<open>Parameters with a host name and a port number, which opening does not change.\<close>

definition tcp_info :: "conn_info \<Rightarrow> bool" where
  "tcp_info info \<longleftrightarrow> ci_host info \<noteq> ''.'' \<and> from_string_int ty_uint32 (ci_port_or_socket info) 10 \<noteq> None"

lemma connect_target_tcp:
  assumes "tcp_info info"
  shows "\<exists>port. connect_target info = Ret (info, port, None)"
  using assms by (auto simp: tcp_info_def connect_target_def)

text \<open>The connection after a call to connect, and the number \<open>Open\<close> returns.\<close>

definition after_connect :: "connect_args \<Rightarrow> reply \<Rightarrow> conn_info \<Rightarrow> conn \<Rightarrow> conn" where
  "after_connect a r info c =
     (conn_call (EvConnect a r) r (conn_event (EvInit True) c))\<lparr>c_info := info, c_open := (r = Okay)\<rparr>"

definition reply_errno :: "reply \<Rightarrow> errno" where
  "reply_errno r = (case r of Okay \<Rightarrow> NoErrno | Failed e \<Rightarrow> e)"

lemma reply_errno_simps [simp]: "reply_errno Okay = NoErrno" "reply_errno (Failed e) = e"
  by (simp_all add: reply_errno_def)

lemma conn_Open_connect:
  assumes "lib_init env (c_events c)" and "connect_target (c_info c) = Ret (info, port, sock)"
  shows "\<exists>a. conn_Open env c =
    (let r = lib_connect env (c_events c @ [EvInit True]) a in Ret (reply_errno r, after_connect a r info c))"
  using assms
  by (intro exI [of _ "\<lparr>ca_host = ci_host info, ca_user = ci_user info, ca_password = ci_password info,
      ca_database = ci_database info, ca_port = port, ca_socket = sock,
      ca_ssl = (if ci_ssl info = [] then None else Some (ci_ssl info = ''ssl''))\<rparr>"])
    (simp add: conn_Open_def conn_event_def after_connect_def reply_errno_def conn_call_def Let_def split: reply.splits)

lemma conn_Open_cases:
  assumes "conn_Open env c = Ret (e, c')"
  shows "e = CR_UNKNOWN_ERROR \<and> c' = conn_event (EvInit False) c \<or>
    (\<exists>a r info. e = reply_errno r \<and> c' = after_connect a r info c)"
proof (cases "lib_init env (c_events c)")
  case True
  show ?thesis
  proof (cases "connect_target (c_info c)")
    case (Ret t)
    then obtain info port sock where "connect_target (c_info c) = Ret (info, port, sock)" by (cases t) auto
    from conn_Open_connect [OF True this] assms show ?thesis by (auto simp: Let_def)
  next
    case (Crash k)
    with True assms show ?thesis by (simp add: conn_Open_def)
  qed
next
  case False
  with assms show ?thesis by (simp add: conn_Open_def)
qed

lemma after_connect_fields [simp]:
  "c_open (after_connect a r info c) \<longleftrightarrow> r = Okay" "c_info (after_connect a r info c) = info"
  "c_events (after_connect a r info c) = c_events c @ [EvInit True, EvConnect a r]"
  "c_stmts (after_connect a r info c) = c_stmts c" "c_table (after_connect a r info c) = c_table c"
  "c_prepareError (after_connect a r info c) = c_prepareError c"
  "c_reconnecting (after_connect a r info c) = c_reconnecting c" "c_flags (after_connect a r info c) = c_flags c"
  by (simp_all add: after_connect_def)

definition table_fits :: "conn \<Rightarrow> bool" where
  "table_fits c \<longleftrightarrow> (\<forall>(i, q, f) \<in> set (statement_list (c_table c)). i < length (c_stmts c))"

text \<open>The events of opening and preparing; none of them reaches the server's statements.\<close>

definition quiet :: "lib_call \<Rightarrow> bool" where
  "quiet e \<longleftrightarrow> (case e of EvStmtInit b \<Rightarrow> True | EvPrepare q n \<Rightarrow> True | EvInit b \<Rightarrow> True | EvBind m r \<Rightarrow> True | EvPing \<Rightarrow> True | _ \<Rightarrow> False)"

lemma server_run_quiet: "list_all quiet evs \<Longrightarrow> server_run evs sv = sv"
proof (induction evs arbitrary: sv)
  case (Cons e evs)
  then show ?case by (cases e) (simp_all add: quiet_def)
qed simp

lemma PrepareStatement_at_accepts:
  assumes "accepts env" and "c_open c" and "i < length (c_stmts c)"
  shows "\<exists>c' evs. PrepareStatement_at env i q f c = Ret c' \<and> list_all quiet evs \<and>
    c_events c' = c_events c @ evs \<and> length (c_stmts c') = length (c_stmts c) \<and> c_open c' \<and>
    c_prepareError c' = c_prepareError c \<and> c_table c' = c_table c \<and> c_info c' = c_info c \<and> c_flags c' = c_flags c \<and>
    c_reconnecting c' = c_reconnecting c"
proof (cases "c_flags c AND f = 0")
  case True
  then show ?thesis
    using assms(2,3) by (intro exI [of _ "c\<lparr>c_stmts := (c_stmts c)[i := None]\<rparr>"] exI [of _ "[]"])
      (simp add: PrepareStatement_at_def)
next
  case False
  let ?c1 = "conn_event (EvStmtInit True) c"
  obtain n where n: "lib_prepare env (c_events c @ [EvStmtInit True]) q = Some n"
    using assms(1) unfolding accepts_def by (metis not_None_eq)
  let ?c2 = "conn_event (EvPrepare q (Some n)) ?c1"
  have "PrepareStatement_at env i q f c = Ret (?c2\<lparr>c_stmts := (c_stmts c)[i := Some (my_stmt_new n q)]\<rparr>)"
    using False assms n by (simp add: PrepareStatement_at_def accepts_def Let_def)
  then show ?thesis
    using assms(2)
    by (intro exI [of _ "?c2\<lparr>c_stmts := (c_stmts c)[i := Some (my_stmt_new n q)]\<rparr>"]
        exI [of _ "[EvStmtInit True, EvPrepare q (Some n)]"])
      (simp add: quiet_def conn_event_def)
qed

lemma prepare_all_accepts:
  assumes "accepts env" and "c_open c" and "\<forall>(i, q, f) \<in> set ss. i < length (c_stmts c)"
  shows "\<exists>c' evs. prepare_all env ss c = Ret c' \<and> list_all quiet evs \<and>
    c_events c' = c_events c @ evs \<and> length (c_stmts c') = length (c_stmts c) \<and> c_open c' \<and>
    c_prepareError c' = c_prepareError c \<and> c_table c' = c_table c \<and> c_info c' = c_info c \<and> c_flags c' = c_flags c \<and>
    c_reconnecting c' = c_reconnecting c"
  using assms(2,3)
proof (induction ss arbitrary: c)
  case Nil
  then show ?case by simp
next
  case (Cons s ss)
  obtain i q f where s: "s = (i, q, f)" by (cases s)
  from PrepareStatement_at_accepts [OF assms(1) Cons.prems(1), of i q f] Cons.prems(2) s obtain c1 evs1 where
    c1: "PrepareStatement_at env i q f c = Ret c1" "list_all quiet evs1" "c_events c1 = c_events c @ evs1"
      "length (c_stmts c1) = length (c_stmts c)" "c_open c1" "c_prepareError c1 = c_prepareError c"
      "c_table c1 = c_table c" "c_info c1 = c_info c" "c_flags c1 = c_flags c" "c_reconnecting c1 = c_reconnecting c"
    by auto
  have "\<forall>(i, q, f) \<in> set ss. i < length (c_stmts c1)" using Cons.prems(2) c1(4) by auto
  from Cons.IH [OF c1(5) this] obtain c2 evs2 where
    c2: "prepare_all env ss c1 = Ret c2" "list_all quiet evs2" "c_events c2 = c_events c1 @ evs2"
      "length (c_stmts c2) = length (c_stmts c1)" "c_open c2" "c_prepareError c2 = c_prepareError c1"
      "c_table c2 = c_table c1" "c_info c2 = c_info c1" "c_flags c2 = c_flags c1" "c_reconnecting c2 = c_reconnecting c1"
    by blast
  with c1 s show ?case by (intro exI [of _ c2] exI [of _ "evs1 @ evs2"]) simp
qed

text \<open>A connection that has been opened and prepared, with parameters that can be used again.\<close>

definition conn_ok :: "conn \<Rightarrow> bool" where
  "conn_ok c \<longleftrightarrow> c_open c \<and> \<not> c_prepareError c \<and> \<not> c_reconnecting c \<and> table_fits c \<and> tcp_info (c_info c)"

lemma conn_ok_call [simp]: "conn_ok (conn_call e r c) = conn_ok c"
  by (simp add: conn_ok_def table_fits_def)

lemma try_reconnect_accepts:
  assumes "accepts env" and "conn_ok c" and "is_lost e"
  shows "\<exists>c'. try_reconnect env e c = Ret (None, c') \<and> conn_ok c' \<and>
    conn_server c' = sv_rollback (conn_server c) \<and> (\<exists>evs. c_events c' = c_events c @ EvClose # evs)"
proof -
  let ?c0 = "((conn_event EvClose c)\<lparr>c_open := False\<rparr>)\<lparr>c_reconnecting := True\<rparr>"
  have ok: "c_open c" "\<not> c_prepareError c" "table_fits c" "tcp_info (c_info c)"
    using assms(2) by (simp_all add: conn_ok_def)
  obtain port where t: "connect_target (c_info c) = Ret (c_info c, port, None)"
    using connect_target_tcp [OF ok(4)] by blast
  have t0: "lib_init env (c_events ?c0)" "connect_target (c_info ?c0) = Ret (c_info c, port, None)"
    using assms(1) t by (simp_all add: accepts_def)
  from conn_Open_connect [OF t0] obtain a where
    "conn_Open env ?c0 = (let r = lib_connect env (c_events ?c0 @ [EvInit True]) a in
      Ret (reply_errno r, after_connect a r (c_info c) ?c0))"
    by blast
  then have "conn_Open env ?c0 = Ret (NoErrno, after_connect a Okay (c_info c) ?c0)"
    using assms(1) by (simp add: accepts_def reply_errno_def)
  then obtain c2 where o2: "conn_Open env ?c0 = Ret (NoErrno, c2)"
    and c2: "c_events c2 = c_events c @ [EvClose, EvInit True, EvConnect a Okay]" "c_open c2" "c_stmts c2 = c_stmts c"
      "c_prepareError c2 = c_prepareError c" "c_table c2 = c_table c" "c_info c2 = c_info c" "c_reconnecting c2"
    by simp
  have "\<forall>(i, q, f) \<in> set (statement_list (c_table c2)). i < length (c_stmts c2)"
    using ok(3) c2 by (simp add: table_fits_def)
  from prepare_all_accepts [OF assms(1) c2(2) this] obtain c3 evs where
    c3: "prepare_all env (statement_list (c_table c2)) c2 = Ret c3" "list_all quiet evs"
      "c_events c3 = c_events c2 @ evs" "length (c_stmts c3) = length (c_stmts c2)" "c_open c3"
      "c_prepareError c3 = c_prepareError c2" "c_table c3 = c_table c2" "c_info c3 = c_info c2"
    by blast
  have "try_reconnect env e c = Ret (None, c3\<lparr>c_reconnecting := False\<rparr>)"
    using assms(3) ok(1,2) o2 c2(4,7) c3(1,6)
    by (simp add: try_reconnect_def PrepareStatements_def DoPrepareStatements_def)
  moreover have "conn_ok (c3\<lparr>c_reconnecting := False\<rparr>)"
    using c3 c2 ok by (simp add: conn_ok_def table_fits_def)
  moreover have "conn_server (c3\<lparr>c_reconnecting := False\<rparr>) = sv_rollback (conn_server c)"
    using c3(2,3) c2(1) by (simp add: conn_server_def server_run_quiet sv_rollback_def)
  ultimately show ?thesis using c3(3) c2(1) by (intro exI [of _ "c3\<lparr>c_reconnecting := False\<rparr>"]) simp
qed

lemma handle_errno_accepts:
  assumes "accepts env" and "conn_ok c" and "is_lost e"
  shows "\<exists>c'. handle_errno env n e c = Ret (True, c') \<and> conn_ok c' \<and>
    conn_server c' = sv_rollback (conn_server c) \<and> (\<exists>evs. c_events c' = c_events c @ EvClose # evs)"
proof -
  have "errno_class e = Reconnect" using assms(3) by (auto simp: is_lost_def errno_class_def)
  with try_reconnect_accepts [OF assms] show ?thesis by (cases n) auto
qed

subsection \<open>Losing the connection inside a transaction\<close>

definition loses_once :: "string \<Rightarrow> mysql \<Rightarrow> bool" where
  "loses_once y env \<longleftrightarrow> accepts env \<and>
     (\<forall>tr q. lib_query env tr q = (if q = y \<and> EvClose \<notin> set tr then Failed CR_SERVER_LOST else Okay))"

definition raw_query :: "string \<Rightarrow> sql_data" where
  "raw_query q = \<lparr>sd_element = ElemString q, sd_type = SQL_ELEMENT_RAW, sd_ptr = 0\<rparr>"

definition plain_query :: "string \<Rightarrow> bool" where
  "plain_query q \<longleftrightarrow> q \<noteq> [] \<and> \<not> is_control q"

lemma Execute_sql_okay:
  assumes "c_open c" and "lib_query env (c_events c) q = Okay"
  shows "Execute_sql env q c = Some (Ret (True, conn_call (EvQuery q Okay) Okay c))"
  using assms by (subst Execute_sql.simps) simp

lemma run_raw_okay:
  assumes "c_open c" and "\<And>tr q. q \<in> set qs \<or> q = ''COMMIT'' \<Longrightarrow> EvClose \<in> set tr \<longleftrightarrow> EvClose \<in> set (c_events c) \<Longrightarrow>
      lib_query env tr q = Okay"
    and "\<forall>q \<in> set qs. plain_query q"
  shows "\<exists>c'. (\<forall>ds. run_queries env (map raw_query qs @ ds) c = run_queries env ds c') \<and>
    (EvClose \<in> set (c_events c') \<longleftrightarrow> EvClose \<in> set (c_events c)) \<and> c_open c' \<and> conn_ok c' = conn_ok c \<and>
    conn_server c' = fold apply_effect (map (\<lambda>q. (q, [])) qs) (conn_server c)"
  using assms
proof (induction qs arbitrary: c)
  case Nil
  then show ?case by (intro exI [of _ c]) simp
next
  case (Cons q qs)
  let ?c1 = "conn_call (EvQuery q Okay) Okay c"
  have q: "plain_query q" using Cons.prems(3) by simp
  have step: "run_queries env (raw_query q # ds) c = run_queries env ds ?c1" for ds
    using q Execute_sql_okay [OF Cons.prems(1), of env q] Cons.prems(2) [of q "c_events c"]
    by (simp add: raw_query_def Execute_element_def plain_query_def bind_run_def)
  have sv: "conn_server ?c1 = apply_effect (q, []) (conn_server c)"
    using q by (simp add: conn_server_call sv_query_def plain_query_def is_control_def)
  have "\<exists>c'. (\<forall>ds. run_queries env (map raw_query qs @ ds) ?c1 = run_queries env ds c') \<and>
    (EvClose \<in> set (c_events c') \<longleftrightarrow> EvClose \<in> set (c_events ?c1)) \<and> c_open c' \<and> conn_ok c' = conn_ok ?c1 \<and>
    conn_server c' = fold apply_effect (map (\<lambda>q. (q, [])) qs) (conn_server ?c1)"
  proof (rule Cons.IH)
    show "lib_query env tr q' = Okay"
      if "q' \<in> set qs \<or> q' = ''COMMIT''" "EvClose \<in> set tr \<longleftrightarrow> EvClose \<in> set (c_events ?c1)" for tr q'
      using Cons.prems(2) [of q' tr] that by auto
  qed (use Cons.prems in simp_all)
  then show ?case using step sv by (auto simp del: run_queries.simps)
qed

lemma apply_effects_closed:
  "sv_open sv = None \<Longrightarrow> fold apply_effect effs sv = sv\<lparr>sv_committed := sv_committed sv @ effs\<rparr>"
  by (induction effs arbitrary: sv) (simp_all add: apply_effect_def)

lemma transaction_loses_prefix:
  assumes "loses_once y env" and "conn_ok c" and "EvClose \<notin> set (c_events c)" and "sv_open (conn_server c) = None"
    and "\<forall>q \<in> set (xs @ y # zs). plain_query q" and "y \<notin> set xs"
  shows "\<exists>c'. ExecuteTransaction env (map raw_query (xs @ y # zs)) c = Some (Ret (Code NoErrno, c')) \<and>
    sv_open (conn_server c') = None \<and>
    sv_committed (conn_server c') = sv_committed (conn_server c) @ map (\<lambda>q. (q, [])) (y # zs)"
proof -
  have acc: "accepts env" and lost: "\<And>tr q. lib_query env tr q = (if q = y \<and> EvClose \<notin> set tr then Failed CR_SERVER_LOST else Okay)"
    using assms(1) by (simp_all add: loses_once_def)
  have y: "plain_query y" using assms(5) by simp
  then have yc: "y \<noteq> ''START TRANSACTION''" "y \<noteq> ''COMMIT''" by (auto simp: plain_query_def is_control_def)
  have op: "c_open c" using assms(2) by (simp add: conn_ok_def)
  let ?c1 = "conn_call (EvQuery ''START TRANSACTION'' Okay) Okay c"
  have b: "conn_BeginTransaction env c = Some (Ret ?c1)"
    using Execute_sql_okay [OF op, of env "''START TRANSACTION''"] lost yc
    by (simp add: conn_BeginTransaction_def Execute_control_def)
  have xs: "q \<noteq> y" if "q \<in> set xs \<or> q = ''COMMIT''" for q using that assms(6) yc by auto
  have p1: "c_open ?c1" and p2: "\<And>tr q. q \<in> set xs \<or> q = ''COMMIT'' \<Longrightarrow>
      EvClose \<in> set tr \<longleftrightarrow> EvClose \<in> set (c_events ?c1) \<Longrightarrow> lib_query env tr q = Okay"
    and p3: "\<forall>q \<in> set xs. plain_query q"
    using op xs lost assms(5) by auto
  from run_raw_okay [OF p1 p2 p3] obtain c2 where
    c2: "\<And>ds. run_queries env (map raw_query xs @ ds) ?c1 = run_queries env ds c2"
      "EvClose \<notin> set (c_events c2)" "c_open c2" "conn_ok c2"
      "conn_server c2 = fold apply_effect (map (\<lambda>q. (q, [])) xs) (conn_server ?c1)"
    using assms(2,3) by auto
  let ?c3 = "conn_call (EvQuery y (Failed CR_SERVER_LOST)) (Failed CR_SERVER_LOST) c2"
  have "conn_ok ?c3" using c2(4) by simp
  from handle_errno_accepts [OF acc this, of CR_SERVER_LOST default_attempts] obtain c4 where
    c4: "handle_errno env default_attempts CR_SERVER_LOST ?c3 = Ret (True, c4)" "conn_ok c4"
      "conn_server c4 = sv_rollback (conn_server ?c3)" "EvClose \<in> set (c_events c4)"
    by (auto simp: is_lost_def)
  let ?c5 = "conn_call (EvQuery y Okay) Okay c4"
  have op4: "c_open c4" using c4(2) by (simp add: conn_ok_def)
  have "Execute_sql env y c2 = Execute_sql env y c4"
    using c2(2,3) c4(1) lost by (subst Execute_sql.simps) simp
  also have "\<dots> = Some (Ret (True, ?c5))"
    using Execute_sql_okay [OF op4, of env y] lost c4(4) by simp
  finally have ey: "run_queries env (raw_query y # ds) c2 = run_queries env ds ?c5" for ds
    using y by (simp add: raw_query_def Execute_element_def plain_query_def bind_run_def)
  have q1: "c_open ?c5" and q2: "\<And>tr q. q \<in> set zs \<or> q = ''COMMIT'' \<Longrightarrow>
      EvClose \<in> set tr \<longleftrightarrow> EvClose \<in> set (c_events ?c5) \<Longrightarrow> lib_query env tr q = Okay"
    and q3: "\<forall>q \<in> set zs. plain_query q"
    using op4 c4(4) lost assms(5) by auto
  from run_raw_okay [OF q1 q2 q3] obtain c6 where
    c6: "\<And>ds. run_queries env (map raw_query zs @ ds) ?c5 = run_queries env ds c6" "c_open c6"
      "EvClose \<in> set (c_events c6)"
      "conn_server c6 = fold apply_effect (map (\<lambda>q. (q, [])) zs) (conn_server ?c5)"
    using c4(4) by auto
  let ?c7 = "conn_call (EvQuery ''COMMIT'' Okay) Okay c6"
  have e7: "run_queries env [] c6 = Some (Ret (Code NoErrno, ?c7))"
    using Execute_sql_okay [OF c6(2), of env "''COMMIT''"] lost yc
    by (simp add: conn_CommitTransaction_def Execute_control_def bind_run_def)
  have run: "ExecuteTransaction env (map raw_query (xs @ y # zs)) c = Some (Ret (Code NoErrno, ?c7))"
    using b c2(1) [of "raw_query y # map raw_query zs"] ey [of "map raw_query zs"] c6(1) [of "[]"] e7
    by (simp add: ExecuteTransaction_def bind_run_def del: run_queries.simps)
  have "conn_server ?c1 = (conn_server c)\<lparr>sv_open := Some []\<rparr>"
    using assms(4) by (simp add: conn_server_call sv_query_def sv_commit_def)
  with c2(5) have "conn_server c2 = (conn_server c)\<lparr>sv_open := Some (map (\<lambda>q. (q, [])) xs)\<rparr>"
    using apply_effects_open [of "conn_server ?c1" "[]"] by simp
  then have "conn_server c4 = conn_server c"
    using c4(3) assms(4) by (simp add: conn_server_call sv_failed_def is_lost_def sv_rollback_def)
  then have "conn_server ?c5 = (conn_server c)\<lparr>sv_committed := sv_committed (conn_server c) @ [(y, [])]\<rparr>"
    using y assms(4) by (simp add: conn_server_call sv_query_def plain_query_def is_control_def apply_effect_def)
  with c6(4) have "conn_server c6 =
      (conn_server c)\<lparr>sv_committed := sv_committed (conn_server c) @ map (\<lambda>q. (q, [])) (y # zs)\<rparr>"
    using apply_effects_closed [of "conn_server ?c5"] assms(4) by simp
  then have "conn_server ?c7 =
      (conn_server c)\<lparr>sv_committed := sv_committed (conn_server c) @ map (\<lambda>q. (q, [])) (y # zs)\<rparr>"
    using assms(4) by (simp add: conn_server_call sv_query_def sv_commit_def)
  with run assms(4) show ?thesis by simp
qed

subsection \<open>How often a connection is tried again\<close>

definition opens :: "conn \<Rightarrow> nat" where
  "opens c = length (filter (\<lambda>e. e = EvInit True \<or> e = EvInit False) (c_events c))"

lemma opens_simps [simp]:
  "opens (conn_event e c) = opens c + (if e = EvInit True \<or> e = EvInit False then 1 else 0)"
  "opens (conn_call e r c) = opens c + (if e = EvInit True \<or> e = EvInit False then 1 else 0)"
  "opens (c\<lparr>c_open := b\<rparr>) = opens c" "opens (c\<lparr>c_reconnecting := b\<rparr>) = opens c"
  "opens (c\<lparr>c_prepareError := b\<rparr>) = opens c" "opens (c\<lparr>c_stmts := ss\<rparr>) = opens c"
  "opens (c\<lparr>c_info := info\<rparr>) = opens c"
  by (simp_all add: opens_def conn_event_def conn_call_def)

lemma PrepareStatement_at_keeps:
  assumes "PrepareStatement_at env i q f c = Ret c'"
  shows "opens c' = opens c \<and> c_open c' = c_open c \<and> c_reconnecting c' = c_reconnecting c \<and>
    length (c_events c) \<le> length (c_events c')"
  using assms
  by (auto simp: PrepareStatement_at_def Let_def conn_event_def opens_def split: if_splits option.splits)

lemma prepare_all_keeps:
  assumes "prepare_all env ss c = Ret c'"
  shows "opens c' = opens c \<and> c_open c' = c_open c \<and> c_reconnecting c' = c_reconnecting c \<and>
    length (c_events c) \<le> length (c_events c')"
  using assms
proof (induction ss arbitrary: c)
  case (Cons s ss)
  obtain i q f where s: "s = (i, q, f)" by (cases s)
  with Cons.prems obtain c1 where c1: "PrepareStatement_at env i q f c = Ret c1" "prepare_all env ss c1 = Ret c'"
    by auto
  from PrepareStatement_at_keeps [OF c1(1)] Cons.IH [OF c1(2)] show ?case by simp
qed simp

lemma PrepareStatements_keeps:
  assumes "PrepareStatements env c = Ret (ok, c')"
  shows "opens c' = opens c \<and> c_open c' = c_open c \<and> c_reconnecting c' = c_reconnecting c \<and>
    length (c_events c) \<le> length (c_events c') \<and> (ok \<longleftrightarrow> \<not> c_prepareError c')"
proof -
  let ?c1 = "if c_reconnecting c then c else c\<lparr>c_stmts := resize_stmts (max_statements (c_table c)) (c_stmts c)\<rparr>"
  have "prepare_all env (statement_list (c_table c)) ?c1 = Ret c'" "ok \<longleftrightarrow> \<not> c_prepareError c'"
    using assms by (auto simp: PrepareStatements_def DoPrepareStatements_def)
  moreover have "opens ?c1 = opens c" "c_open ?c1 = c_open c" "c_reconnecting ?c1 = c_reconnecting c"
    "c_events ?c1 = c_events c"
    by simp_all
  ultimately show ?thesis using prepare_all_keeps [of env "statement_list (c_table c)" ?c1 c'] by metis
qed

lemma conn_Open_result:
  assumes "conn_Open env c = Ret (e, c')"
  shows "opens c' = opens c + 1 \<and> c_reconnecting c' = c_reconnecting c \<and> length (c_events c) < length (c_events c') \<and>
    (\<not> c_open c \<longrightarrow> e \<noteq> NoErrno \<longrightarrow> \<not> c_open c')"
  using conn_Open_cases [OF assms] by (auto simp: opens_def)

lemma try_reconnect_result:
  assumes "try_reconnect env e c = Ret (again, c')" and "is_lost e \<or> \<not> c_open c"
  shows "opens c' = opens c + 1 \<and> length (c_events c) < length (c_events c') \<and>
    (case again of None \<Rightarrow> \<not> c_reconnecting c' \<and> \<not> c_prepareError c'
     | Some e' \<Rightarrow> e' \<noteq> NoErrno \<and> c_reconnecting c' \<and> \<not> c_open c')"
proof -
  let ?c1 = "(if is_lost e \<and> c_open c then (conn_event EvClose c)\<lparr>c_open := False\<rparr> else c)\<lparr>c_reconnecting := True\<rparr>"
  have c1: "opens ?c1 = opens c" "length (c_events c) \<le> length (c_events ?c1)" "\<not> c_open ?c1" "c_reconnecting ?c1"
    using assms(2) by auto
  from assms(1) obtain lErrno c2 where o2: "conn_Open env ?c1 = Ret (lErrno, c2)"
    and rest: "(if lErrno = NoErrno then
          bind_outcome (PrepareStatements env c2) (\<lambda>(ok, c3).
            if \<not> ok then Crash StdAbort else Ret (None, c3\<lparr>c_reconnecting := False\<rparr>))
        else Ret (Some lErrno, c2)) = Ret (again, c')"
    by (auto simp: try_reconnect_def Let_def)
  note f2 = conn_Open_result [OF o2]
  show ?thesis
  proof (cases "lErrno = NoErrno")
    case True
    with rest obtain c3 where "PrepareStatements env c2 = Ret (True, c3)" "again = None"
      "c' = c3\<lparr>c_reconnecting := False\<rparr>"
      by (auto split: if_splits)
    with PrepareStatements_keeps [OF this(1)] f2 c1 show ?thesis by simp
  next
    case False
    with rest f2 c1 show ?thesis by auto
  qed
qed

lemma handle_errno_result:
  assumes "handle_errno env n e c = Ret (ok, c')" and "errno_class e = Reconnect" and "is_lost e \<or> \<not> c_open c"
  shows "opens c < opens c' \<and> opens c' \<le> opens c + n + 1 \<and> length (c_events c) < length (c_events c') \<and>
    (if ok then \<not> c_reconnecting c' \<and> \<not> c_prepareError c' else \<not> c_open c' \<and> c_reconnecting c')"
  using assms
proof (induction n arbitrary: e c)
  case 0
  then obtain again c1 where t: "try_reconnect env e c = Ret (again, c1)"
    and r: "(case again of None \<Rightarrow> Ret (True, c1) | Some lErrno \<Rightarrow> Crash StdAbort) = Ret (ok, c')"
    by auto
  from try_reconnect_result [OF t 0(3)] r show ?case by (auto split: option.splits)
next
  case (Suc n)
  then obtain again c1 where t: "try_reconnect env e c = Ret (again, c1)"
    and r: "(case again of None \<Rightarrow> Ret (True, c1) | Some lErrno \<Rightarrow> handle_errno env n lErrno c1) = Ret (ok, c')"
    by auto
  note t' = try_reconnect_result [OF t Suc.prems(3)]
  show ?case
  proof (cases again)
    case None
    with r t' show ?thesis by auto
  next
    case (Some e')
    with r t' have h: "handle_errno env n e' c1 = Ret (ok, c')" and c1: "\<not> c_open c1" "c_reconnecting c1" by auto
    show ?thesis
    proof (cases "errno_class e' = Reconnect")
      case True
      from Suc.IH [OF h True] c1 t' show ?thesis by auto
    next
      case False
      with h have "ok = False" "c' = c1" by (cases n; auto split: errno_kind.splits)+
      with c1 t' show ?thesis by auto
    qed
  qed
qed

lemma handle_errno_all_fail:
  assumes "\<And>tr. lib_init env tr" and "\<And>tr a. \<exists>e. lib_connect env tr a = Failed e \<and> errno_class e = Reconnect"
    and "errno_class e = Reconnect" and "tcp_info (c_info c)"
  shows "handle_errno env n e c = Crash StdAbort"
proof -
  have t: "\<exists>e' c'. try_reconnect env e c = Ret (Some e', c') \<and> errno_class e' = Reconnect \<and> c_info c' = c_info c"
    if tcp: "tcp_info (c_info c)" for e c
  proof -
    let ?c1 = "(if is_lost e \<and> c_open c then (conn_event EvClose c)\<lparr>c_open := False\<rparr> else c)\<lparr>c_reconnecting := True\<rparr>"
    have i: "c_info ?c1 = c_info c" by simp
    obtain port where p: "connect_target (c_info c) = Ret (c_info c, port, None)" using connect_target_tcp [OF tcp] by blast
    have "\<exists>e' c2. conn_Open env ?c1 = Ret (e', c2) \<and> errno_class e' = Reconnect \<and> c_info c2 = c_info c"
    proof -
      have "lib_init env (c_events ?c1)" "connect_target (c_info ?c1) = Ret (c_info c, port, None)"
        using assms(1) p i by simp_all
      from conn_Open_connect [OF this] obtain a where a: "conn_Open env ?c1 =
          (let r = lib_connect env (c_events ?c1 @ [EvInit True]) a in
            Ret (reply_errno r, after_connect a r (c_info c) ?c1))"
        by blast
      from assms(2) [of "c_events ?c1 @ [EvInit True]" a] obtain e' where
        "lib_connect env (c_events ?c1 @ [EvInit True]) a = Failed e'" "errno_class e' = Reconnect"
        by blast
      with a show ?thesis by (simp add: reply_errno_def)
    qed
    then obtain e' c2 where c2: "conn_Open env ?c1 = Ret (e', c2)" "errno_class e' = Reconnect" "c_info c2 = c_info c"
      by blast
    have "e' \<noteq> NoErrno" using c2(2) by (auto simp: errno_class_def)
    then have "try_reconnect env e c = Ret (Some e', c2)" using c2(1) by (simp add: try_reconnect_def Let_def)
    with c2 show ?thesis by blast
  qed
  show ?thesis
    using assms(3,4)
  proof (induction n arbitrary: e c)
    case 0
    with t [of c e] show ?case by auto
  next
    case (Suc n)
    with t [of c e] obtain e' c' where "try_reconnect env e c = Ret (Some e', c')" "errno_class e' = Reconnect"
      "c_info c' = c_info c"
      by blast
    with Suc show ?case by simp
  qed
qed

subsection \<open>Whether a statement comes back\<close>

text \<open>From some number of calls on, the library never reports a lost connection for a statement.\<close>

definition settles :: "nat \<Rightarrow> mysql \<Rightarrow> bool" where
  "settles n env \<longleftrightarrow> (\<forall>tr q e. n \<le> length tr \<longrightarrow> lib_query env tr q = Failed e \<longrightarrow> errno_class e \<noteq> Reconnect)"

definition lost_numbers :: "mysql \<Rightarrow> bool" where
  "lost_numbers env \<longleftrightarrow> (\<forall>tr q e. lib_query env tr q = Failed e \<longrightarrow> errno_class e = Reconnect \<longrightarrow> is_lost e)"

lemma handle_errno_not_reconnect:
  assumes "errno_class e \<noteq> Reconnect"
  shows "handle_errno env n e c = Ret (False, c) \<or> handle_errno env n e c = Crash StdAbort"
  using assms by (cases n; cases "errno_class e") simp_all

lemma Execute_sql_settles:
  assumes "settles n env" and "lost_numbers env"
  shows "\<exists>r. Execute_sql env sql c = Some r"
proof (induction "n - length (c_events c)" arbitrary: c rule: less_induct)
  case less
  show ?case
  proof (cases "c_open c \<and> (\<exists>e. lib_query env (c_events c) sql = Failed e \<and> errno_class e = Reconnect)")
    case True
    then obtain e where e: "c_open c" "lib_query env (c_events c) sql = Failed e" "errno_class e = Reconnect" by blast
    then have short: "length (c_events c) < n" using assms(1) by (metis settles_def not_le)
    have lost: "is_lost e" using e assms(2) by (auto simp: lost_numbers_def)
    let ?c1 = "conn_call (EvQuery sql (Failed e)) (Failed e) c"
    show ?thesis
    proof (cases "handle_errno env default_attempts e ?c1")
      case (Ret p)
      obtain retry c2 where p: "p = (retry, c2)" by (cases p)
      have "length (c_events ?c1) < length (c_events c2)"
        using handle_errno_result [of env default_attempts e ?c1 retry c2] Ret p e(3) lost by simp
      then have "n - length (c_events c2) < n - length (c_events c)" using short by simp
      from less.hyps [OF this] show ?thesis
        using e Ret p by (subst Execute_sql.simps) auto
    next
      case (Crash k)
      then show ?thesis using e by (subst Execute_sql.simps) simp
    qed
  next
    case False
    show ?thesis
    proof (cases "c_open c \<and> lib_query env (c_events c) sql \<noteq> Okay")
      case True
      then obtain e where e: "c_open c" "lib_query env (c_events c) sql = Failed e"
        by (cases "lib_query env (c_events c) sql") auto
      with \<open>\<not> (c_open c \<and> _)\<close> have "errno_class e \<noteq> Reconnect" by auto
      from handle_errno_not_reconnect [OF this, of env default_attempts "conn_call (EvQuery sql (Failed e)) (Failed e) c"] e
      show ?thesis by (subst Execute_sql.simps) auto
    next
      case False
      then show ?thesis by (subst Execute_sql.simps) auto
    qed
  qed
qed

lemma Execute_sql_endless:
  assumes "Execute_sql env sql c = Some r" and "accepts env" and "conn_ok c"
    and "\<And>tr. \<exists>e. lib_query env tr sql = Failed e \<and> is_lost e"
  shows False
proof (rule Execute_sql.raw_induct [where P = "\<lambda>env' sql' c r. env' = env \<longrightarrow> sql' = sql \<longrightarrow> conn_ok c \<longrightarrow> False",
      OF _ assms(1), rule_format, OF _ refl refl assms(3)])
  fix F :: "mysql \<Rightarrow> string \<Rightarrow> conn \<Rightarrow> (bool \<times> conn) outcome option" and env' sql' c r
  assume IH: "\<And>env'' sql'' c r. F env'' sql'' c = Some r \<Longrightarrow> env'' = env \<Longrightarrow> sql'' = sql \<Longrightarrow> conn_ok c \<Longrightarrow> False"
    and eq: "env' = env" "sql' = sql" and ok: "conn_ok c"
  assume body: "(if \<not> c_open c then Some (Ret (False, c))
      else
        (case lib_query env' (c_events c) sql' of
           Okay \<Rightarrow> Some (Ret (True, conn_call (EvQuery sql' Okay) Okay c))
         | Failed e \<Rightarrow>
             (case handle_errno env' default_attempts e (conn_call (EvQuery sql' (Failed e)) (Failed e) c) of
                Crash k \<Rightarrow> Some (Crash k)
              | Ret (retry, c') \<Rightarrow> if retry then F env' sql' c' else Some (Ret (False, c'))))) = Some r"
  from assms(4) [of "c_events c"] obtain e where e: "lib_query env (c_events c) sql = Failed e" "is_lost e" by blast
  have ok1: "conn_ok (conn_call (EvQuery sql (Failed e)) (Failed e) c)" using ok by simp
  from handle_errno_accepts [OF assms(2) ok1 e(2), of default_attempts] obtain c' where
    c': "handle_errno env default_attempts e (conn_call (EvQuery sql (Failed e)) (Failed e) c) = Ret (True, c')" "conn_ok c'"
    by blast
  have "F env sql c' = Some r" using body eq e(1) c'(1) ok by (simp add: conn_ok_def)
  with IH c'(2) show False by blast
qed

subsection \<open>The statements of a connection\<close>

lemma PrepareStatement_at_entry:
  assumes "PrepareStatement_at env i q f c = Ret c'" and "\<not> c_prepareError c'"
  shows "\<not> c_prepareError c \<and> length (c_stmts c') = length (c_stmts c) \<and> c_flags c' = c_flags c \<and>
    i < length (c_stmts c) \<and>
    (\<forall>j<length (c_stmts c). j \<noteq> i \<longrightarrow> c_stmts c' ! j = c_stmts c ! j) \<and>
    (if c_flags c AND f = 0 then c_stmts c' ! i = None
     else \<exists>n. c_stmts c' ! i = Some (my_stmt_new n q))"
  using assms
  by (auto simp: PrepareStatement_at_def Let_def conn_event_def split: if_splits option.splits)

lemma prepare_all_entries:
  assumes "prepare_all env ss c = Ret c'" and "\<not> c_prepareError c'" and "distinct (map fst ss)"
  shows "\<not> c_prepareError c \<and> length (c_stmts c') = length (c_stmts c) \<and> c_flags c' = c_flags c \<and>
    (\<forall>j<length (c_stmts c). j \<notin> fst ` set ss \<longrightarrow> c_stmts c' ! j = c_stmts c ! j) \<and>
    (\<forall>(i, q, f) \<in> set ss. i < length (c_stmts c) \<and>
      (if c_flags c AND f = 0 then c_stmts c' ! i = None
       else \<exists>n. c_stmts c' ! i = Some (my_stmt_new n q)))"
  using assms
proof (induction ss arbitrary: c)
  case (Cons s ss)
  obtain i q f where s: "s = (i, q, f)" by (cases s)
  with Cons.prems obtain c1 where c1: "PrepareStatement_at env i q f c = Ret c1" "prepare_all env ss c1 = Ret c'"
    by auto
  from Cons.IH [OF c1(2) Cons.prems(2)] Cons.prems(3)
  have r: "\<not> c_prepareError c1" "length (c_stmts c') = length (c_stmts c1)" "c_flags c' = c_flags c1"
    "\<And>j. j < length (c_stmts c1) \<Longrightarrow> j \<notin> fst ` set ss \<Longrightarrow> c_stmts c' ! j = c_stmts c1 ! j"
    "\<forall>(i, q, f) \<in> set ss. i < length (c_stmts c1) \<and>
      (if c_flags c1 AND f = 0 then c_stmts c' ! i = None
       else \<exists>n. c_stmts c' ! i = Some (my_stmt_new n q))"
    by auto
  note e = PrepareStatement_at_entry [OF c1(1) r(1)]
  have i: "i \<notin> fst ` set ss" using Cons.prems(3) s by force
  have "c_stmts c' ! i = c_stmts c1 ! i" using r(4) [of i] i e by simp
  with r e i s show ?case by (auto split: if_splits)
qed simp

lemma PrepareStatements_entries:
  assumes "PrepareStatements env c = Ret (True, c')" and "\<not> c_reconnecting c"
    and "distinct (map fst (statement_list (c_table c)))"
  shows "length (c_stmts c') = max_statements (c_table c) \<and>
    (\<forall>(i, q, f) \<in> set (statement_list (c_table c)). i < max_statements (c_table c) \<and>
      (if c_flags c AND f = 0 then c_stmts c' ! i = None
       else \<exists>n. c_stmts c' ! i = Some (my_stmt_new n q)))"
proof -
  let ?c = "c\<lparr>c_stmts := resize_stmts (max_statements (c_table c)) (c_stmts c)\<rparr>"
  have "prepare_all env (statement_list (c_table c)) ?c = Ret c'" "\<not> c_prepareError c'"
    using assms(1,2) by (auto simp: PrepareStatements_def DoPrepareStatements_def)
  note e = prepare_all_entries [OF this assms(3)]
  have "length (c_stmts ?c) = max_statements (c_table c)" by (simp add: resize_stmts_def)
  note e [unfolded this]
  then show ?thesis by simp
qed

subsection \<open>Libraries to try the properties on\<close>

definition sample_lib :: "(lib_call list \<Rightarrow> string \<Rightarrow> reply) \<Rightarrow> (lib_call list \<Rightarrow> connect_args \<Rightarrow> reply) \<Rightarrow> mysql" where
  "sample_lib query connect = \<lparr>lib_init = \<lambda>_. True, lib_connect = connect, lib_query = query,
     lib_stmt_init = \<lambda>_. True, lib_prepare = \<lambda>_ _. Some 0, lib_bind = \<lambda>_ _. Okay, lib_execute = \<lambda>_ _. Okay,
     lib_text_result = \<lambda>_. \<lparr>tr_result = None, tr_affected = 0, tr_fieldCount = 0, tr_fields = []\<rparr>,
     lib_stmt_result = \<lambda>_. (sample_result, 0, 0), lib_null_errno = \<lambda>_. NoErrno,
     lib_server_info = \<lambda>_. ''8.0.33'', fmt_float = \<lambda>_. []\<rparr>"

definition sample_info :: conn_info where
  "sample_info = \<lparr>ci_user = ''u'', ci_password = ''p'', ci_database = ''auth'', ci_host = ''db'',
     ci_port_or_socket = dec_int 3306, ci_ssl = []\<rparr>"

definition sample_conn :: conn where
  "sample_conn = (db_conn_new CONNECTION_SYNCH \<lparr>max_statements = 0, statement_list = []\<rparr> sample_info)\<lparr>c_open := True\<rparr>"

lemma sample_info_tcp: "tcp_info sample_info"
proof -
  have "from_string_int ty_uint32 (dec_int 3306) 10 = Some 3306"
    by (rule from_string_int_dec_int) (simp_all add: int_type_defs)
  then show ?thesis by (simp add: tcp_info_def sample_info_def)
qed

lemma sample_conn_facts:
  "c_open sample_conn" "c_events sample_conn = []" "conn_server sample_conn = server_empty"
  "c_info sample_conn = sample_info" "conn_ok sample_conn"
  using sample_info_tcp
  by (simp_all add: sample_conn_def db_conn_new_def conn_server_def conn_ok_def table_fits_def)

subsection \<open>Properties\<close>

text \<open>
  C7. A transaction is atomic while the connection holds. Its elements, statements given as text or
  prepared, may fail with any number on which the program gives up: when \<open>ExecuteTransaction\<close>
  returns 0 the server has committed all of them, in order, and when it returns another number it
  has committed none; no transaction stays open. The detailed calls refine one step of the
  abstract server.
\<close>

theorem transaction_refines_atomic:
  assumes "steady env" and "c_open c" and "queries \<noteq> []" and "\<forall>d \<in> set queries. element_ready d c"
    and "sv_open (conn_server c) = None"
  shows "\<exists>code c' effs. ExecuteTransaction env queries c = Some (Ret (code, c')) \<and>
    conn_server c' = atomic (code = Code NoErrno) effs (conn_server c) \<and>
    map fst effs = map (\<lambda>d. element_text d c) queries"
  using ExecuteTransaction_steady [OF assms] by blast

theorem transaction_refines_atomic_witness:
  "\<exists>env c'. lib_query env [] ''b'' = Failed ER_DUP_ENTRY \<and>
    ExecuteTransaction env [raw_query ''a'', raw_query ''c''] sample_conn = Some (Ret (Code NoErrno, c')) \<and>
    map fst (sv_committed (conn_server c')) = [''a'', ''c'']"
proof -
  define env where "env = sample_lib (\<lambda>_ q. if q = ''b'' then Failed ER_DUP_ENTRY else Okay) (\<lambda>_ _. Okay)"
  have st: "steady env"
    by (auto simp: env_def sample_lib_def steady_def steady_reply_def errno_class_def is_control_def)
  have ready: "\<forall>d \<in> set [raw_query ''a'', raw_query ''c'']. element_ready d sample_conn"
    by (simp add: raw_query_def element_ready_def is_control_def)
  from transaction_refines_atomic [OF st sample_conn_facts(1) _ ready] obtain code c' effs where
    tx: "ExecuteTransaction env [raw_query ''a'', raw_query ''c''] sample_conn = Some (Ret (code, c'))"
      "conn_server c' = atomic (code = Code NoErrno) effs server_empty"
      "map fst effs = [''a'', ''c'']"
    by (auto simp: sample_conn_facts server_empty_def raw_query_def element_text_def)
  moreover have q: "lib_query env tr q = Okay" if "q \<noteq> ''b''" for tr q
    using that by (simp add: env_def sample_lib_def)
  have "code = Code NoErrno"
    using tx(1) sample_conn_facts(1)
    by (simp add: ExecuteTransaction_def conn_BeginTransaction_def conn_CommitTransaction_def Execute_control_def
        Execute_element_def raw_query_def Execute_sql_okay q bind_run_def)
  ultimately show ?thesis
    by (intro exI [of _ env] exI [of _ c']) (simp add: atomic_def env_def sample_lib_def server_empty_def)
qed

text \<open>
  C13. A transaction during which the connection is lost once is not atomic: the statement that
  met the loss is repeated on the new connection, outside any transaction, the ones before it are
  rolled back by the server and never sent again, the ones after it commit one by one, and
  \<open>ExecuteTransaction\<close> returns 0.
\<close>

theorem lost_connection_loses_prefix:
  assumes "loses_once y env" and "conn_ok c" and "EvClose \<notin> set (c_events c)" and "sv_open (conn_server c) = None"
    and "\<forall>q \<in> set (xs @ y # zs). plain_query q" and "y \<notin> set xs"
  shows "\<exists>c'. ExecuteTransaction env (map raw_query (xs @ y # zs)) c = Some (Ret (Code NoErrno, c')) \<and>
    sv_open (conn_server c') = None \<and>
    sv_committed (conn_server c') = sv_committed (conn_server c) @ map (\<lambda>q. (q, [])) (y # zs)"
  by (rule transaction_loses_prefix [OF assms])

theorem lost_connection_loses_prefix_witness:
  "\<exists>env c'. ExecuteTransaction env (map raw_query [''debit'', ''credit'']) sample_conn = Some (Ret (Code NoErrno, c')) \<and>
    sv_committed (conn_server c') = [(''credit'', [])]"
proof -
  define env where "env = sample_lib (\<lambda>tr q. if q = ''credit'' \<and> EvClose \<notin> set tr then Failed CR_SERVER_LOST else Okay)
    (\<lambda>_ _. Okay)"
  have l: "loses_once ''credit'' env" by (simp add: env_def sample_lib_def loses_once_def accepts_def)
  have p: "\<forall>q \<in> set ([''debit''] @ ''credit'' # []). plain_query q" "''credit'' \<notin> set [''debit'']"
    by (simp_all add: plain_query_def is_control_def)
  have e: "EvClose \<notin> set (c_events sample_conn)" "sv_open (conn_server sample_conn) = None"
    by (simp_all add: sample_conn_facts server_empty_def)
  from lost_connection_loses_prefix [OF l sample_conn_facts(5) e p] show ?thesis
    by (auto simp: sample_conn_facts server_empty_def)
qed

text \<open>
  C29. Reconnecting ends: a lost connection is opened again at most five times; when every attempt
  fails to connect for a lost or unreachable server the process is aborted; and whenever the
  handler returns, either it connected, prepared every statement and left the reconnecting state,
  or it gave up with no handle, and the connection still counts as reconnecting.
\<close>

theorem reconnect_is_bounded:
  assumes "is_lost e"
  shows "(\<forall>ok c'. handle_errno env default_attempts e c = Ret (ok, c') \<longrightarrow>
      opens c < opens c' \<and> opens c' \<le> opens c + 5 \<and>
      (if ok then \<not> c_reconnecting c' \<and> \<not> c_prepareError c' else \<not> c_open c' \<and> c_reconnecting c')) \<and>
    ((\<forall>tr. lib_init env tr) \<and> (\<forall>tr a. \<exists>e. lib_connect env tr a = Failed e \<and> errno_class e = Reconnect) \<and> tcp_info (c_info c) \<longrightarrow>
      handle_errno env default_attempts e c = Crash StdAbort)"
proof -
  have r: "errno_class e = Reconnect" using assms by (auto simp: is_lost_def errno_class_def)
  have "opens c < opens c' \<and> opens c' \<le> opens c + 5 \<and>
      (if ok then \<not> c_reconnecting c' \<and> \<not> c_prepareError c' else \<not> c_open c' \<and> c_reconnecting c')"
    if "handle_errno env default_attempts e c = Ret (ok, c')" for ok c'
    using handle_errno_result [OF that r] assms by simp
  then show ?thesis using handle_errno_all_fail [OF _ _ r, of env c default_attempts] by blast
qed

theorem reconnect_is_bounded_witness:
  "handle_errno (sample_lib (\<lambda>_ _. Okay) (\<lambda>_ _. Failed CR_CONN_HOST_ERROR)) default_attempts CR_SERVER_LOST sample_conn =
    Crash StdAbort"
proof -
  have "is_lost CR_SERVER_LOST" by (simp add: is_lost_def)
  from reconnect_is_bounded [OF this, of "sample_lib (\<lambda>_ _. Okay) (\<lambda>_ _. Failed CR_CONN_HOST_ERROR)" sample_conn]
  show ?thesis
    by (simp add: sample_lib_def errno_class_def sample_conn_facts sample_info_tcp del: handle_errno.simps)
qed

text \<open>
  C31. On a connection whose handle is gone, which is how a reconnection that gave up leaves it for
  good, nothing is sent: every statement fails and \<open>ExecuteTransaction\<close> returns the number
  \<open>mysql_errno\<close> gives for a null handle, so that a transaction none of which was executed counts
  as committed when that number is 0.
\<close>

theorem dead_connection_transaction:
  assumes "\<not> c_open c" and "element_ready d c"
  shows "Execute_sql env sql c = Some (Ret (False, c)) \<and>
    ExecuteTransaction env (d # ds) c = Some (Ret (Code (lib_null_errno env (c_events c)), c))"
proof -
  have sql: "Execute_sql env q c = Some (Ret (False, c))" for q
    using assms(1) by (subst Execute_sql.simps) simp
  have "Execute_stmt env st c = Some (Ret (False, st, c))" for st
    using assms(1) by (subst Execute_stmt.simps) simp
  then have "Execute_element env d c = Some (Ret (False, c))"
    using assms(2) sql
    by (auto simp: Execute_element_def element_ready_def split: element.splits option.splits element_type.splits)
  then show ?thesis
    using sql assms(1)
    by (simp add: ExecuteTransaction_def conn_BeginTransaction_def conn_RollbackTransaction_def Execute_control_def
        bind_run_def GetLastError_def Let_def)
qed

theorem dead_connection_transaction_witness:
  "ExecuteTransaction (sample_lib (\<lambda>_ _. Okay) (\<lambda>_ _. Okay)) [raw_query ''a''] (sample_conn\<lparr>c_open := False\<rparr>) =
    Some (Ret (Code NoErrno, sample_conn\<lparr>c_open := False\<rparr>))"
proof -
  have "\<not> c_open (sample_conn\<lparr>c_open := False\<rparr>)" "element_ready (raw_query ''a'') (sample_conn\<lparr>c_open := False\<rparr>)"
    by (simp_all add: raw_query_def element_ready_def is_control_def)
  from dead_connection_transaction [OF this, of "sample_lib (\<lambda>_ _. Okay) (\<lambda>_ _. Okay)" "''a''" "[]"] show ?thesis
    by (simp add: sample_lib_def)
qed

text \<open>
  C33. A statement comes back when the library loses the connection during statements finitely
  often: there is then a result, a crash included, whatever fails in between.
\<close>

theorem statement_returns:
  assumes "settles n env" and "lost_numbers env"
  shows "\<exists>r. Execute_sql env sql c = Some r"
  by (rule Execute_sql_settles [OF assms])

theorem statement_returns_witness:
  "\<exists>r. Execute_sql (sample_lib (\<lambda>tr q. if length tr < 9 then Failed CR_SERVER_LOST else Okay) (\<lambda>_ _. Okay)) ''x'' sample_conn = Some r"
proof -
  have "settles 9 (sample_lib (\<lambda>tr q. if length tr < 9 then Failed CR_SERVER_LOST else Okay) (\<lambda>_ _. Okay))"
    "lost_numbers (sample_lib (\<lambda>tr q. if length tr < 9 then Failed CR_SERVER_LOST else Okay) (\<lambda>_ _. Okay))"
    by (simp_all add: settles_def lost_numbers_def sample_lib_def is_lost_def)
  from statement_returns [OF this] show ?thesis .
qed

text \<open>
  A statement at which the server drops the connection every time, one longer than the
  server's packet limit for instance, is sent again after each reconnection and never comes back:
  the five attempts bound one reconnection, not how often a statement is repeated.
\<close>

theorem dropped_statement_never_returns:
  assumes "accepts env" and "conn_ok c" and "\<And>tr. \<exists>e. lib_query env tr sql = Failed e \<and> is_lost e"
  shows "Execute_sql env sql c = None"
  using Execute_sql_endless [OF _ assms] by (cases "Execute_sql env sql c") auto

theorem dropped_statement_never_returns_witness:
  "Execute_sql (sample_lib (\<lambda>tr q. Failed CR_SERVER_GONE_ERROR) (\<lambda>_ _. Okay)) ''x'' sample_conn = None"
proof -
  have "accepts (sample_lib (\<lambda>tr q. Failed CR_SERVER_GONE_ERROR) (\<lambda>_ _. Okay))"
    by (simp add: accepts_def sample_lib_def)
  moreover have "\<exists>e. lib_query (sample_lib (\<lambda>tr q. Failed CR_SERVER_GONE_ERROR) (\<lambda>_ _. Okay)) tr ''x'' = Failed e \<and> is_lost e" for tr
    by (simp add: sample_lib_def is_lost_def)
  ultimately show ?thesis by (intro dropped_statement_never_returns sample_conn_facts(5))
qed

text \<open>
  C27. Which statements of the login database a connection can execute: after a successful
  \<open>PrepareStatements\<close> a synchronous connection has both of its statements, with the text of the
  source; an asynchronous one has none, and executing or querying either of them on it fails an
  assertion and brings the process down.
\<close>

theorem login_statements_by_kind:
  assumes "PrepareStatements env (c\<lparr>c_table := login_statements\<rparr>) = Ret (True, c')" and "\<not> c_reconnecting c"
    and "c_open c'" and "\<not> st_isPrepared st"
    and "st_index st = LOGIN_SEL_LOGONCHALLENGE \<or> st_index st = LOGIN_UPD_LOGONPROOF"
  shows "(c_flags c = CONNECTION_SYNCH \<longrightarrow>
      (\<exists>m. resolve_stmt st c' = Ret m \<and> my_stmt_ok m \<and> (st_index st, ms_queryString m, CONNECTION_SYNCH) \<in> set (statement_list login_statements))) \<and>
    (c_flags c = CONNECTION_ASYNC \<longrightarrow>
      Execute_stmt env st c' = Some (Crash (AssertFail ''m_mStmt'')) \<and>
      conn_Query_stmt env st c' = Some (Crash (AssertFail ''m_mStmt'')))"
proof -
  let ?c = "c\<lparr>c_table := login_statements\<rparr>"
  have d: "distinct (map fst (statement_list (c_table ?c)))"
    by (simp add: login_statements_def LOGIN_SEL_LOGONCHALLENGE_def LOGIN_UPD_LOGONPROOF_def)
  have "\<not> c_reconnecting ?c" using assms(2) by simp
  note e = PrepareStatements_entries [OF assms(1) this d]
  obtain q where q: "(st_index st, q, CONNECTION_SYNCH) \<in> set (statement_list login_statements)"
    using assms(5) by (auto simp: login_statements_def)
  with e have i: "st_index st < length (c_stmts c')" and
    entry: "if c_flags c AND CONNECTION_SYNCH = 0 then c_stmts c' ! st_index st = None
      else \<exists>n. c_stmts c' ! st_index st = Some (my_stmt_new n q)"
    by auto
  have sync: "CONNECTION_SYNCH AND CONNECTION_SYNCH \<noteq> 0" "CONNECTION_ASYNC AND CONNECTION_SYNCH = 0"
    by (simp_all add: CONNECTION_SYNCH_def CONNECTION_ASYNC_def)
  have r: "resolve_stmt st c' = (case c_stmts c' ! st_index st of None \<Rightarrow> Crash (AssertFail ''m_mStmt'') | Some m \<Rightarrow> Ret m)"
    using assms(4) i by (simp add: resolve_stmt_def GetPreparedStatement_def)
  show ?thesis
  proof (intro conjI impI)
    assume "c_flags c = CONNECTION_SYNCH"
    with entry sync obtain n where "c_stmts c' ! st_index st = Some (my_stmt_new n q)" by auto
    with r q show "\<exists>m. resolve_stmt st c' = Ret m \<and> my_stmt_ok m \<and> (st_index st, ms_queryString m, CONNECTION_SYNCH) \<in> set (statement_list login_statements)"
      by (auto simp: my_stmt_new_def my_stmt_ok_def)
  next
    assume "c_flags c = CONNECTION_ASYNC"
    with entry sync r have a: "attempt_stmt env st c' = Crash (AssertFail ''m_mStmt'')"
      by (simp add: attempt_stmt_def)
    have "Query_stmt_loop env st c' = Some (Crash (AssertFail ''m_mStmt''))"
      using a assms(3) by (subst Query_stmt_loop.simps) simp
    then show "conn_Query_stmt env st c' = Some (Crash (AssertFail ''m_mStmt''))" by (simp add: conn_Query_stmt_def)
    show "Execute_stmt env st c' = Some (Crash (AssertFail ''m_mStmt''))"
      using a assms(3) by (subst Execute_stmt.simps) simp
  qed
qed

theorem login_statements_by_kind_witness:
  "\<exists>c'. PrepareStatements (sample_lib (\<lambda>_ _. Okay) (\<lambda>_ _. Okay))
      (sample_conn\<lparr>c_flags := CONNECTION_ASYNC, c_table := login_statements\<rparr>) = Ret (True, c') \<and>
    Execute_stmt (sample_lib (\<lambda>_ _. Okay) (\<lambda>_ _. Okay)) (stmt_new 3 5) c' = Some (Crash (AssertFail ''m_mStmt''))"
proof -
  let ?env = "sample_lib (\<lambda>_ _. Okay) (\<lambda>_ _. Okay)"
  let ?c = "sample_conn\<lparr>c_flags := CONNECTION_ASYNC\<rparr>"
  have z: "CONNECTION_ASYNC AND CONNECTION_SYNCH = 0" by (simp add: CONNECTION_SYNCH_def CONNECTION_ASYNC_def)
  obtain c' where p: "PrepareStatements ?env (?c\<lparr>c_table := login_statements\<rparr>) = Ret (True, c')" and o1: "c_open c'"
    using z
    by (simp add: PrepareStatements_def DoPrepareStatements_def login_statements_def PrepareStatement_at_def resize_stmts_def
        sample_conn_def db_conn_new_def MAX_LOGINDATABASE_STATEMENTS_def LOGIN_SEL_LOGONCHALLENGE_def LOGIN_UPD_LOGONPROOF_def)
  have "\<not> c_reconnecting ?c" by (simp add: sample_conn_def db_conn_new_def)
  from login_statements_by_kind [OF p this o1, of "stmt_new 3 5"] p show ?thesis
    by (simp add: stmt_new_def LOGIN_UPD_LOGONPROOF_def)
qed

text \<open>
  A pool with the host \<open>"."\<close>, which selects a local socket, opens one connection at most: the
  first \<open>Open\<close> replaces the host in the parameters all connections share, and every later one, of
  another connection or of a reconnection, reads the socket's path as a port number and goes
  through an empty \<open>Optional\<close>.
\<close>

theorem second_socket_connection_fails:
  assumes "ci_host (c_info c) = ''.''" and "from_string_int ty_uint32 (ci_port_or_socket (c_info c)) 10 = None"
    and "lib_init env (c_events c)"
  shows "\<exists>e c'. conn_Open env c = Ret (e, c') \<and>
    (\<forall>c2. c_info c2 = c_info c' \<and> lib_init env (c_events c2) \<longrightarrow> conn_Open env c2 = Crash NullDeref)"
proof -
  have t: "connect_target (c_info c) = Ret ((c_info c)\<lparr>ci_host := ''localhost''\<rparr>, 0, Some (ci_port_or_socket (c_info c)))"
    using assms(1) by (simp add: connect_target_def)
  from conn_Open_connect [OF assms(3) t] obtain e c' where
    o1: "conn_Open env c = Ret (e, c')" "c_info c' = (c_info c)\<lparr>ci_host := ''localhost''\<rparr>"
    by (auto simp: Let_def)
  have "conn_Open env c2 = Crash NullDeref" if "c_info c2 = c_info c'" "lib_init env (c_events c2)" for c2
    using that o1(2) assms(2) by (simp add: conn_Open_def connect_target_def)
  with o1(1) show ?thesis by blast
qed

theorem second_socket_connection_fails_witness:
  "\<exists>c c'. ci_port_or_socket (c_info c) = ''/s'' \<and>
    conn_Open (sample_lib (\<lambda>_ _. Okay) (\<lambda>_ _. Okay)) c = Ret (NoErrno, c') \<and>
    conn_Open (sample_lib (\<lambda>_ _. Okay) (\<lambda>_ _. Okay)) (c\<lparr>c_info := c_info c'\<rparr>) = Crash NullDeref"
proof -
  let ?env = "sample_lib (\<lambda>_ _. Okay) (\<lambda>_ _. Okay)"
  define c where "c = db_conn_new CONNECTION_SYNCH login_statements (sample_info\<lparr>ci_host := ''.'', ci_port_or_socket := ''/s''\<rparr>)"
  have c: "ci_host (c_info c) = ''.''" "ci_port_or_socket (c_info c) = ''/s''" by (simp_all add: c_def db_conn_new_def)
  have n: "from_string_int ty_uint32 (ci_port_or_socket (c_info c)) 10 = None" unfolding c(2) by code_simp
  have i: "lib_init ?env tr" for tr by (simp add: sample_lib_def)
  from second_socket_connection_fails [OF c(1) n i] obtain e c' where
    o1: "conn_Open ?env c = Ret (e, c')" "conn_Open ?env (c\<lparr>c_info := c_info c'\<rparr>) = Crash NullDeref"
    using i by auto
  moreover have "e = NoErrno"
    using o1(1) c(1) by (simp add: conn_Open_def connect_target_def sample_lib_def Let_def split: prod.splits)
  ultimately show ?thesis using c(2) by blast
qed

end
