(* ===== verification/PC_Queue.thy ===== *)
theory PC_Queue
  imports Prelude "HOL-Library.Multiset"
begin

section \<open>The work queue and its worker threads (PCQueue.h, DatabaseWorker.cpp)\<close>

text \<open>
  The producer-consumer queue with its shutdown flag, and the worker threads that share one queue.
  Every operation of the queue holds its lock, so it is one step; a worker's loop and its
  destructor are step relations, interleaved in any order.
\<close>

subsection \<open>The queue\<close>

record 'a pcqueue =
  q_items :: "'a list"
  q_shutdown :: bool

definition pcq_new :: "'a pcqueue" where
  "pcq_new = \<lparr>q_items = [], q_shutdown = False\<rparr>"

definition pcq_Push :: "'a \<Rightarrow> 'a pcqueue \<Rightarrow> 'a pcqueue" where
  "pcq_Push v q = q\<lparr>q_items := q_items q @ [v]\<rparr>"

definition pcq_Empty :: "'a pcqueue \<Rightarrow> bool" where
  "pcq_Empty q = (q_items q = [])"

definition pcq_Size :: "'a pcqueue \<Rightarrow> nat" where
  "pcq_Size q = length (q_items q)"

definition pcq_Pop :: "'a pcqueue \<Rightarrow> 'a pcqueue \<times> 'a option" where
  "pcq_Pop q =
     (if q_items q = [] \<or> q_shutdown q then (q, None)
      else (q\<lparr>q_items := tl (q_items q)\<rparr>, Some (hd (q_items q))))"

text \<open>
  \<open>WaitAndPop\<close>: \<open>None\<close> while it waits on the condition; otherwise the queue and the value taken,
  which is missing when the queue was shut down.
\<close>

definition pcq_WaitAndPop :: "'a pcqueue \<Rightarrow> ('a pcqueue \<times> 'a option) option" where
  "pcq_WaitAndPop q =
     (if q_items q = [] \<and> \<not> q_shutdown q then None
      else if q_items q = [] \<or> q_shutdown q then Some (q, None)
      else Some (q\<lparr>q_items := tl (q_items q)\<rparr>, Some (hd (q_items q))))"

text \<open>\<open>Cancel\<close> deletes what is queued; the second component is what was deleted, in order.\<close>

definition pcq_Cancel :: "'a pcqueue \<Rightarrow> 'a pcqueue \<times> 'a list" where
  "pcq_Cancel q = (q\<lparr>q_items := [], q_shutdown := True\<rparr>, q_items q)"

subsection \<open>What a client relies on\<close>

text \<open>
  The contract of a queue: what is in it is a list, adding goes to the end, taking is from the
  front as long as the queue is open. A client that only adds and takes sees the elements in the
  order in which they were added.
\<close>

locale fifo =
  fixes content :: "'q \<Rightarrow> 'a list"
    and is_open :: "'q \<Rightarrow> bool"
    and enq :: "'a \<Rightarrow> 'q \<Rightarrow> 'q"
    and deq :: "'q \<Rightarrow> 'q \<times> 'a option"
  assumes content_enq: "content (enq x q) = content q @ [x]"
    and open_enq: "is_open (enq x q) = is_open q"
    and deq_open: "is_open q \<Longrightarrow> content q = x # xs \<Longrightarrow>
      snd (deq q) = Some x \<and> content (fst (deq q)) = xs \<and> is_open (fst (deq q))"
    and deq_empty: "is_open q \<Longrightarrow> content q = [] \<Longrightarrow> deq q = (q, None)"
begin

primrec client :: "('a option) list \<Rightarrow> 'q \<Rightarrow> 'a list \<Rightarrow> 'q \<times> 'a list" where
  "client [] q got = (q, got)"
| "client (c # cs) q got =
     (case c of
        Some x \<Rightarrow> client cs (enq x q) got
      | None \<Rightarrow> client cs (fst (deq q)) (case snd (deq q) of None \<Rightarrow> got | Some y \<Rightarrow> got @ [y]))"

lemma client_in_order:
  assumes "client cs q got = (q', got')" and "is_open q"
  shows "got' @ content q' = got @ content q @ map the (filter (\<lambda>c. c \<noteq> None) cs) \<and> is_open q'"
  using assms
proof (induction cs arbitrary: q got)
  case (Cons c cs)
  show ?case
  proof (cases c)
    case None
    show ?thesis
    proof (cases "content q")
      case Nil
      with Cons None show ?thesis by (auto simp: deq_empty)
    next
      case (Cons x xs)
      from deq_open [OF Cons.prems(2) this] Cons.IH [of "fst (deq q)" "got @ [x]"] Cons.prems(1) None this
      show ?thesis by auto
    qed
  next
    case (Some x)
    with Cons.prems Cons.IH [of "enq x q" got] show ?thesis by (simp add: content_enq open_enq)
  qed
qed simp

end

text \<open>
  What the workers rely on besides: waiting takes the next element as soon as there is one, and after
  the queue was closed it comes back with nothing. A worker that takes until it would wait gets all
  there is, in order; from a closed queue it never gets anything, whatever is added.
\<close>

locale closable_fifo = fifo content is_open enq deq
  for content :: "'q \<Rightarrow> 'a list" and is_open and enq and deq +
  fixes wait :: "'q \<Rightarrow> ('q \<times> 'a option) option"
    and close :: "'q \<Rightarrow> 'q \<times> 'a list"
  assumes wait_takes: "is_open q \<Longrightarrow> content q \<noteq> [] \<Longrightarrow> wait q = Some (deq q)"
    and wait_blocks: "is_open q \<Longrightarrow> content q = [] \<Longrightarrow> wait q = None"
    and wait_closed: "\<not> is_open q \<Longrightarrow> wait q = Some (q, None)"
    and close_drops: "\<not> is_open (fst (close q)) \<and> content (fst (close q)) = [] \<and> snd (close q) = content q"
begin

primrec take_all :: "nat \<Rightarrow> 'q \<Rightarrow> 'a list \<times> 'q" where
  "take_all 0 q = ([], q)"
| "take_all (Suc n) q = (case wait q of Some (q', Some x) \<Rightarrow> map_prod (Cons x) id (take_all n q') | _ \<Rightarrow> ([], q))"

lemma take_all_content:
  assumes "is_open q" and "length (content q) \<le> n"
  shows "fst (take_all n q) = content q \<and> content (snd (take_all n q)) = [] \<and> wait (snd (take_all n q)) = None"
  using assms
proof (induction n arbitrary: q)
  case (Suc n)
  show ?case
  proof (cases "content q")
    case Nil
    with Suc.prems show ?thesis by (simp add: wait_blocks)
  next
    case (Cons x xs)
    then have w: "wait q = Some (deq q)" using Suc.prems(1) by (simp add: wait_takes)
    obtain q' where "deq q = (q', Some x)" "content q' = xs" "is_open q'"
      using deq_open [OF Suc.prems(1) Cons] by (cases "deq q") auto
    with w Suc.IH [of q'] Suc.prems(2) Cons show ?thesis by simp
  qed
qed (simp add: wait_blocks)

lemma closed_for_good: "\<not> is_open q \<Longrightarrow> \<not> is_open (fold enq xs q) \<and> wait (fold enq xs q) = Some (fold enq xs q, None)"
  by (induction xs arbitrary: q) (simp_all add: wait_closed open_enq)

lemma after_close: "wait (fold enq xs (fst (close q))) = Some (fold enq xs (fst (close q)), None)"
  using closed_for_good close_drops by blast

end

interpretation pcq: closable_fifo q_items "\<lambda>q. \<not> q_shutdown q" pcq_Push pcq_Pop pcq_WaitAndPop pcq_Cancel
  by unfold_locales (auto simp: pcq_Push_def pcq_Pop_def pcq_WaitAndPop_def pcq_Cancel_def)

text \<open>A queue that was shut down gives nothing any more, whatever is added.\<close>

lemma pcq_shut_Push [simp]: "q_shutdown (pcq_Push v q) = q_shutdown q"
  by (simp add: pcq_Push_def)

lemma pcq_Pop_shut: "q_shutdown q \<Longrightarrow> pcq_Pop q = (q, None)"
  by (simp add: pcq_Pop_def)

lemma pcq_WaitAndPop_shut: "q_shutdown q \<Longrightarrow> pcq_WaitAndPop q = Some (q, None)"
  by (simp add: pcq_WaitAndPop_def)

subsection \<open>The workers\<close>

text \<open>
  Where a worker's thread is in its loop: before \<open>WaitAndPop\<close>, between it and the check of the
  token, in \<open>call\<close>, or returned. Where its destructor is: not running, after the token, after
  \<open>Cancel\<close>, after the join.
\<close>

datatype 'a worker_pc = Waiting | Popped "'a option" | Executing 'a | Exited

datatype dtor_pc = Alive | TokenSet | Cancelled | Gone

text \<open>The stages of a destructor are ordered: it passes them one after the other.\<close>

instantiation dtor_pc :: linorder
begin

primrec dtor_stage :: "dtor_pc \<Rightarrow> nat" where
  "dtor_stage Alive = 0"
| "dtor_stage TokenSet = 1"
| "dtor_stage Cancelled = 2"
| "dtor_stage Gone = 3"

definition less_eq_dtor_pc :: "dtor_pc \<Rightarrow> dtor_pc \<Rightarrow> bool" where
  "less_eq_dtor_pc d e \<longleftrightarrow> dtor_stage d \<le> dtor_stage e"

definition less_dtor_pc :: "dtor_pc \<Rightarrow> dtor_pc \<Rightarrow> bool" where
  "less_dtor_pc d e \<longleftrightarrow> dtor_stage d < dtor_stage e"

lemma dtor_stage_inject: "dtor_stage d = dtor_stage e \<Longrightarrow> d = e"
  by (cases d; cases e) simp_all

instance
  by standard (auto simp: less_eq_dtor_pc_def less_dtor_pc_def dtor_stage_inject)

end

lemma Cancelled_le [simp]: "Cancelled \<le> d \<longleftrightarrow> d = Cancelled \<or> d = Gone"
  by (cases d) (simp_all add: less_eq_dtor_pc_def)

lemma le_Alive [simp]: "d \<le> Alive \<longleftrightarrow> d = Alive"
  by (cases d) (simp_all add: less_eq_dtor_pc_def)

record 'a worker =
  w_pc :: "'a worker_pc"
  w_token :: bool
  w_dtor :: dtor_pc

text \<open>
  The queue, the workers and the history: what was pushed, what each worker executed in order,
  what \<open>Cancel\<close> deleted and what a worker dropped because its token was set. A crash in one thread
  ends the process, and with it every step of every thread.
\<close>

record 'a system =
  sys_queue :: "'a pcqueue"
  sys_workers :: "'a worker list"
  sys_pushed :: "'a list"
  sys_done :: "(nat \<times> 'a) list"
  sys_deleted :: "'a list"
  sys_dropped :: "'a list"
  sys_crashed :: "crash option"

text \<open>
  What comes of a call and of the deletion of the operation after it: \<open>None\<close> when it never comes back,
  a crash, or its return. It may depend on the
  worker, whose connection it uses, on the operations this worker has executed before, and on the
  operation. The relations below have it as a parameter.
\<close>

type_synonym 'a calls = "nat \<Rightarrow> 'a list \<Rightarrow> 'a \<Rightarrow> unit outcome option"

definition done_by :: "nat \<Rightarrow> 'a system \<Rightarrow> 'a list" where
  "done_by i s = map snd (filter (\<lambda>(j, op). j = i) (sys_done s))"

definition worker_new :: "'a worker" where
  "worker_new = \<lparr>w_pc = Waiting, w_token = False, w_dtor = Alive\<rparr>"

definition sys_new :: "nat \<Rightarrow> 'a system" where
  "sys_new n = \<lparr>sys_queue = pcq_new, sys_workers = replicate n worker_new, sys_pushed = [], sys_done = [],
     sys_deleted = [], sys_dropped = [], sys_crashed = None\<rparr>"

definition set_worker :: "nat \<Rightarrow> 'a worker \<Rightarrow> 'a system \<Rightarrow> 'a system" where
  "set_worker i w s = s\<lparr>sys_workers := (sys_workers s)[i := w]\<rparr>"

definition do_push :: "'a \<Rightarrow> 'a system \<Rightarrow> 'a system" where
  "do_push op s = s\<lparr>sys_queue := pcq_Push op (sys_queue s), sys_pushed := sys_pushed s @ [op]\<rparr>"

text \<open>
  One step of the loop of \<open>WorkerThread\<close>; \<open>None\<close> when the thread waits, has returned, or is in a call
  that never comes back.
\<close>

definition worker_step :: "'a calls \<Rightarrow> nat \<Rightarrow> 'a system \<Rightarrow> 'a system option" where
  "worker_step calls i s =
     (let w = sys_workers s ! i in
      case w_pc w of
        Waiting \<Rightarrow>
          (case pcq_WaitAndPop (sys_queue s) of
             None \<Rightarrow> None
           | Some (q, operation) \<Rightarrow> Some (set_worker i (w\<lparr>w_pc := Popped operation\<rparr>) (s\<lparr>sys_queue := q\<rparr>)))
      | Popped operation \<Rightarrow>
          (if w_token w \<or> operation = None then
             Some (set_worker i (w\<lparr>w_pc := Exited\<rparr>)
               (s\<lparr>sys_dropped := sys_dropped s @ (case operation of None \<Rightarrow> [] | Some op \<Rightarrow> [op])\<rparr>))
           else Some (set_worker i (w\<lparr>w_pc := Executing (the operation)\<rparr>) s))
      | Executing op \<Rightarrow>
          (case calls i (done_by i s) op of
             None \<Rightarrow> None
           | Some (Crash k) \<Rightarrow> Some (s\<lparr>sys_crashed := Some k\<rparr>)
           | Some (Ret u) \<Rightarrow>
               Some (set_worker i (w\<lparr>w_pc := Waiting\<rparr>) (s\<lparr>sys_done := sys_done s @ [(i, op)]\<rparr>)))
      | Exited \<Rightarrow> None)"

text \<open>One step of the destructor of worker \<open>i\<close>; \<open>None\<close> while the join waits.\<close>

definition dtor_step :: "nat \<Rightarrow> 'a system \<Rightarrow> 'a system option" where
  "dtor_step i s =
     (let w = sys_workers s ! i in
      case w_dtor w of
        Alive \<Rightarrow> Some (set_worker i (w\<lparr>w_token := True, w_dtor := TokenSet\<rparr>) s)
      | TokenSet \<Rightarrow>
          (let (q, gone) = pcq_Cancel (sys_queue s) in
           Some (set_worker i (w\<lparr>w_dtor := Cancelled\<rparr>)
             (s\<lparr>sys_queue := q, sys_deleted := sys_deleted s @ gone\<rparr>)))
      | Cancelled \<Rightarrow> (if w_pc w = Exited then Some (set_worker i (w\<lparr>w_dtor := Gone\<rparr>) s) else None)
      | Gone \<Rightarrow> None)"

text \<open>A step of the process, as long as it lives.\<close>

inductive sys_step :: "'a calls \<Rightarrow> 'a system \<Rightarrow> 'a system \<Rightarrow> bool" for calls where
  step_push: "sys_crashed s = None \<Longrightarrow> sys_step calls s (do_push op s)"
| step_worker: "sys_crashed s = None \<Longrightarrow> i < length (sys_workers s) \<Longrightarrow> worker_step calls i s = Some s' \<Longrightarrow>
    sys_step calls s s'"
| step_dtor: "sys_crashed s = None \<Longrightarrow> i < length (sys_workers s) \<Longrightarrow> dtor_step i s = Some s' \<Longrightarrow>
    sys_step calls s s'"

inductive_cases sys_stepE: "sys_step calls s s'"

inductive reachable :: "'a calls \<Rightarrow> 'a system \<Rightarrow> 'a system \<Rightarrow> bool" for calls s where
  reach_refl: "reachable calls s s"
| reach_step: "reachable calls s s' \<Longrightarrow> sys_step calls s' s'' \<Longrightarrow> reachable calls s s''"


subsection \<open>Accounting\<close>

definition in_flight :: "'a worker \<Rightarrow> 'a list" where
  "in_flight w = (case w_pc w of Popped (Some op) \<Rightarrow> [op] | Executing op \<Rightarrow> [op] | _ \<Rightarrow> [])"

definition all_in_flight :: "'a system \<Rightarrow> 'a list" where
  "all_in_flight s = concat (map in_flight (sys_workers s))"

lemma mset_concat_update:
  assumes "i < length ws"
  shows "mset (concat (map f (ws[i := w]))) + mset (f (ws ! i)) = mset (concat (map f ws)) + mset (f w)"
  using assms
proof (induction ws arbitrary: i)
  case (Cons a ws)
  then show ?case by (cases i) (auto simp: ac_simps)
qed simp

lemma set_worker_simps [simp]:
  "sys_queue (set_worker i w s) = sys_queue s" "sys_pushed (set_worker i w s) = sys_pushed s"
  "sys_done (set_worker i w s) = sys_done s" "sys_deleted (set_worker i w s) = sys_deleted s"
  "sys_dropped (set_worker i w s) = sys_dropped s" "sys_crashed (set_worker i w s) = sys_crashed s"
  "sys_workers (set_worker i w s) = (sys_workers s)[i := w]"
  by (simp_all add: set_worker_def)

lemma do_push_simps [simp]:
  "sys_queue (do_push op s) = pcq_Push op (sys_queue s)" "sys_pushed (do_push op s) = sys_pushed s @ [op]"
  "sys_done (do_push op s) = sys_done s" "sys_deleted (do_push op s) = sys_deleted s"
  "sys_dropped (do_push op s) = sys_dropped s" "sys_workers (do_push op s) = sys_workers s"
  "sys_crashed (do_push op s) = sys_crashed s"
  by (simp_all add: do_push_def)

definition accounted :: "'a system \<Rightarrow> bool" where
  "accounted s \<longleftrightarrow> mset (sys_pushed s) =
     mset (q_items (sys_queue s)) + mset (all_in_flight s) + mset (map snd (sys_done s)) +
     mset (sys_deleted s) + mset (sys_dropped s)"

text \<open>The ways a worker moves, as equations.\<close>

lemma worker_step_cases:
  assumes "worker_step calls i s = Some s'"
  obtains (shut) "w_pc (sys_workers s ! i) = Waiting" "q_shutdown (sys_queue s)"
      "s' = set_worker i ((sys_workers s ! i)\<lparr>w_pc := Popped None\<rparr>) s"
  | (pop) op ops where "w_pc (sys_workers s ! i) = Waiting" "\<not> q_shutdown (sys_queue s)"
      "q_items (sys_queue s) = op # ops"
      "s' = set_worker i ((sys_workers s ! i)\<lparr>w_pc := Popped (Some op)\<rparr>)
        (s\<lparr>sys_queue := (sys_queue s)\<lparr>q_items := ops\<rparr>\<rparr>)"
  | (leave) operation where "w_pc (sys_workers s ! i) = Popped operation"
      "w_token (sys_workers s ! i) \<or> operation = None"
      "s' = set_worker i ((sys_workers s ! i)\<lparr>w_pc := Exited\<rparr>)
        (s\<lparr>sys_dropped := sys_dropped s @ (case operation of None \<Rightarrow> [] | Some op \<Rightarrow> [op])\<rparr>)"
  | (execute) op where "w_pc (sys_workers s ! i) = Popped (Some op)" "\<not> w_token (sys_workers s ! i)"
      "s' = set_worker i ((sys_workers s ! i)\<lparr>w_pc := Executing op\<rparr>) s"
  | (crash) op k where "w_pc (sys_workers s ! i) = Executing op" "calls i (done_by i s) op = Some (Crash k)"
      "s' = s\<lparr>sys_crashed := Some k\<rparr>"
  | (finish) op where "w_pc (sys_workers s ! i) = Executing op" "calls i (done_by i s) op = Some (Ret ())"
      "s' = set_worker i ((sys_workers s ! i)\<lparr>w_pc := Waiting\<rparr>) (s\<lparr>sys_done := sys_done s @ [(i, op)]\<rparr>)"
proof (cases "w_pc (sys_workers s ! i)")
  case Waiting
  show thesis
  proof (cases "q_shutdown (sys_queue s)")
    case True
    with assms Waiting show thesis
      by (intro shut) (auto simp: worker_step_def pcq_WaitAndPop_shut Let_def)
  next
    case False
    with assms Waiting obtain op ops where "q_items (sys_queue s) = op # ops"
      by (cases "q_items (sys_queue s)") (auto simp: worker_step_def pcq_WaitAndPop_def Let_def)
    with assms Waiting False show thesis
      by (intro pop) (auto simp: worker_step_def pcq_WaitAndPop_def Let_def)
  qed
next
  case (Popped operation)
  show thesis
  proof (cases "w_token (sys_workers s ! i) \<or> operation = None")
    case True
    with assms Popped show thesis by (intro leave) (auto simp: worker_step_def Let_def)
  next
    case False
    with assms Popped show thesis by (intro execute [of "the operation"]) (auto simp: worker_step_def Let_def)
  qed
next
  case (Executing op)
  show thesis
  proof (cases "calls i (done_by i s) op")
    case None
    with assms Executing show thesis by (simp add: worker_step_def Let_def)
  next
    case (Some r)
    with assms Executing crash finish show thesis by (cases r) (simp_all add: worker_step_def Let_def)
  qed
next
  case Exited
  with assms show thesis by (simp add: worker_step_def Let_def)
qed

lemma dtor_step_cases:
  assumes "dtor_step i s = Some s'"
  obtains (token) "w_dtor (sys_workers s ! i) = Alive"
      "s' = set_worker i ((sys_workers s ! i)\<lparr>w_token := True, w_dtor := TokenSet\<rparr>) s"
  | (cancel) "w_dtor (sys_workers s ! i) = TokenSet"
      "s' = set_worker i ((sys_workers s ! i)\<lparr>w_dtor := Cancelled\<rparr>)
        (s\<lparr>sys_queue := fst (pcq_Cancel (sys_queue s)), sys_deleted := sys_deleted s @ q_items (sys_queue s)\<rparr>)"
  | (join) "w_dtor (sys_workers s ! i) = Cancelled" "w_pc (sys_workers s ! i) = Exited"
      "s' = set_worker i ((sys_workers s ! i)\<lparr>w_dtor := Gone\<rparr>) s"
  using assms
  by (cases "w_dtor (sys_workers s ! i)") (auto simp: dtor_step_def pcq_Cancel_def Let_def split: if_splits)


lemma flight_update:
  assumes "i < length (sys_workers s)"
  shows "mset (all_in_flight (set_worker i w s)) + mset (in_flight (sys_workers s ! i)) =
    mset (all_in_flight s) + mset (in_flight w)"
  using mset_concat_update [OF assms, of in_flight w] by (simp add: all_in_flight_def)

lemma all_in_flight_simps [simp]:
  "all_in_flight (s\<lparr>sys_queue := q\<rparr>) = all_in_flight s" "all_in_flight (s\<lparr>sys_done := d\<rparr>) = all_in_flight s"
  "all_in_flight (s\<lparr>sys_deleted := l\<rparr>) = all_in_flight s" "all_in_flight (s\<lparr>sys_dropped := l\<rparr>) = all_in_flight s"
  "all_in_flight (do_push op s) = all_in_flight s" "all_in_flight (s\<lparr>sys_crashed := k\<rparr>) = all_in_flight s"
  by (simp_all add: all_in_flight_def)

lemma in_flight_simps [simp]:
  "in_flight (w\<lparr>w_pc := Popped (Some op)\<rparr>) = [op]" "in_flight (w\<lparr>w_pc := Popped None\<rparr>) = []"
  "in_flight (w\<lparr>w_pc := Executing op\<rparr>) = [op]" "in_flight (w\<lparr>w_pc := Waiting\<rparr>) = []"
  "in_flight (w\<lparr>w_pc := Exited\<rparr>) = []" "in_flight (w\<lparr>w_token := b\<rparr>) = in_flight w"
  "in_flight (w\<lparr>w_dtor := d\<rparr>) = in_flight w"
  by (simp_all add: in_flight_def)

lemma in_flight_pc:
  "w_pc w = Waiting \<Longrightarrow> in_flight w = []" "w_pc w = Executing op \<Longrightarrow> in_flight w = [op]"
  "w_pc w = Popped operation \<Longrightarrow> in_flight w = (case operation of None \<Rightarrow> [] | Some op \<Rightarrow> [op])"
  "w_pc w = Exited \<Longrightarrow> in_flight w = []"
  by (simp_all add: in_flight_def split: option.splits)

lemma accounted_worker:
  assumes "accounted s" and "i < length (sys_workers s)" and "worker_step calls i s = Some s'"
  shows "accounted s'"
  using assms(3)
proof (cases rule: worker_step_cases)
  case shut
  with assms(1) flight_update [OF assms(2), of "(sys_workers s ! i)\<lparr>w_pc := Popped None\<rparr>"] show ?thesis
    by (simp add: accounted_def in_flight_pc)
next
  case (pop op ops)
  let ?s = "s\<lparr>sys_queue := (sys_queue s)\<lparr>q_items := ops\<rparr>\<rparr>"
  from pop assms(1) flight_update [of i ?s "(sys_workers s ! i)\<lparr>w_pc := Popped (Some op)\<rparr>"] assms(2)
  show ?thesis by (simp add: accounted_def in_flight_pc)
next
  case (leave operation)
  let ?s = "s\<lparr>sys_dropped := sys_dropped s @ (case operation of None \<Rightarrow> [] | Some op \<Rightarrow> [op])\<rparr>"
  from leave assms(1) flight_update [of i ?s "(sys_workers s ! i)\<lparr>w_pc := Exited\<rparr>"] assms(2)
  show ?thesis by (simp add: accounted_def in_flight_pc ac_simps)
next
  case (execute op)
  with assms(1) flight_update [OF assms(2), of "(sys_workers s ! i)\<lparr>w_pc := Executing op\<rparr>"] show ?thesis
    by (simp add: accounted_def in_flight_pc)
next
  case (crash op k)
  with assms(1) show ?thesis by (simp add: accounted_def)
next
  case (finish op)
  let ?s = "s\<lparr>sys_done := sys_done s @ [(i, op)]\<rparr>"
  from finish assms(1) flight_update [of i ?s "(sys_workers s ! i)\<lparr>w_pc := Waiting\<rparr>"] assms(2)
  show ?thesis by (simp add: accounted_def in_flight_pc)
qed

lemma accounted_dtor:
  assumes "accounted s" and "i < length (sys_workers s)" and "dtor_step i s = Some s'"
  shows "accounted s'"
  using assms(3)
proof (cases rule: dtor_step_cases)
  case token
  with assms(1) flight_update [OF assms(2), of "(sys_workers s ! i)\<lparr>w_token := True, w_dtor := TokenSet\<rparr>"]
  show ?thesis by (simp add: accounted_def)
next
  case cancel
  let ?s = "s\<lparr>sys_queue := fst (pcq_Cancel (sys_queue s)), sys_deleted := sys_deleted s @ q_items (sys_queue s)\<rparr>"
  from cancel assms(1) flight_update [of i ?s "(sys_workers s ! i)\<lparr>w_dtor := Cancelled\<rparr>"] assms(2)
  show ?thesis by (simp add: accounted_def pcq_Cancel_def ac_simps)
next
  case join
  with assms(1) flight_update [OF assms(2), of "(sys_workers s ! i)\<lparr>w_dtor := Gone\<rparr>"]
  show ?thesis by (simp add: accounted_def)
qed

lemma accounted_push: "accounted s \<Longrightarrow> accounted (do_push op s)"
  by (simp add: accounted_def pcq_Push_def)

lemma accounted_step: "sys_step calls s s' \<Longrightarrow> accounted s \<Longrightarrow> accounted s'"
  by (erule sys_stepE) (auto intro: accounted_push accounted_worker accounted_dtor)

lemma accounted_reachable: "reachable calls s s' \<Longrightarrow> accounted s \<Longrightarrow> accounted s'"
  by (induction rule: reachable.induct) (auto intro: accounted_step)

lemma accounted_new: "accounted (sys_new n)"
  by (induction n) (simp_all add: accounted_def sys_new_def pcq_new_def all_in_flight_def in_flight_def worker_new_def)

subsection \<open>After the queue was shut down\<close>

text \<open>What can still be executed: what a worker holds at that moment.\<close>

definition may_finish :: "'a system \<Rightarrow> 'a multiset" where
  "may_finish s = mset (map snd (sys_done s)) + mset (all_in_flight s)"

lemma shut_step:
  assumes "sys_step calls s s'" and "q_shutdown (sys_queue s)"
  shows "q_shutdown (sys_queue s') \<and> may_finish s' \<subseteq># may_finish s"
  using assms(1)
proof (cases rule: sys_step.cases)
  case (step_push op)
  then show ?thesis using assms(2) by (simp add: may_finish_def)
next
  case (step_worker i)
  show ?thesis
    using step_worker(3)
  proof (cases rule: worker_step_cases)
    case shut
    with assms(2) flight_update [OF step_worker(2), of "(sys_workers s ! i)\<lparr>w_pc := Popped None\<rparr>"]
    show ?thesis by (simp add: may_finish_def in_flight_pc)
  next
    case (pop op ops)
    with assms(2) show ?thesis by simp
  next
    case (leave operation)
    let ?s = "s\<lparr>sys_dropped := sys_dropped s @ (case operation of None \<Rightarrow> [] | Some op \<Rightarrow> [op])\<rparr>"
    have "mset (all_in_flight s') + mset (in_flight (sys_workers s ! i)) = mset (all_in_flight s)"
      using leave(3) flight_update [of i ?s "(sys_workers s ! i)\<lparr>w_pc := Exited\<rparr>"] step_worker(2) by simp
    then have "mset (all_in_flight s') \<subseteq># mset (all_in_flight s)"
      by (metis mset_subset_eq_add_left)
    with leave assms(2) show ?thesis by (simp add: may_finish_def)
  next
    case (execute op)
    with assms(2) flight_update [OF step_worker(2), of "(sys_workers s ! i)\<lparr>w_pc := Executing op\<rparr>"]
    show ?thesis by (simp add: may_finish_def in_flight_pc)
  next
    case (crash op k)
    with assms(2) show ?thesis by (simp add: may_finish_def)
  next
    case (finish op)
    let ?s = "s\<lparr>sys_done := sys_done s @ [(i, op)]\<rparr>"
    from finish assms(2) flight_update [of i ?s "(sys_workers s ! i)\<lparr>w_pc := Waiting\<rparr>"] step_worker(2)
    show ?thesis by (simp add: may_finish_def in_flight_pc)
  qed
next
  case (step_dtor i)
  show ?thesis
    using step_dtor(3)
  proof (cases rule: dtor_step_cases)
    case token
    with assms(2) flight_update [OF step_dtor(2), of "(sys_workers s ! i)\<lparr>w_token := True, w_dtor := TokenSet\<rparr>"]
    show ?thesis by (simp add: may_finish_def)
  next
    case cancel
    let ?s = "s\<lparr>sys_queue := fst (pcq_Cancel (sys_queue s)), sys_deleted := sys_deleted s @ q_items (sys_queue s)\<rparr>"
    from cancel assms(2) flight_update [of i ?s "(sys_workers s ! i)\<lparr>w_dtor := Cancelled\<rparr>"] step_dtor(2)
    show ?thesis by (simp add: may_finish_def pcq_Cancel_def)
  next
    case join
    with assms(2) flight_update [OF step_dtor(2), of "(sys_workers s ! i)\<lparr>w_dtor := Gone\<rparr>"]
    show ?thesis by (simp add: may_finish_def)
  qed
qed

lemma shut_reachable:
  "reachable calls s s' \<Longrightarrow> q_shutdown (sys_queue s) \<Longrightarrow>
   q_shutdown (sys_queue s') \<and> may_finish s' \<subseteq># may_finish s"
  by (induction rule: reachable.induct) (auto dest: shut_step)


subsection \<open>Destruction and order\<close>

definition dtor_inv :: "'a system \<Rightarrow> bool" where
  "dtor_inv s \<longleftrightarrow> list_all (\<lambda>w. (w_token w \<longleftrightarrow> w_dtor w \<noteq> Alive) \<and>
     (w_dtor w = Cancelled \<or> w_dtor w = Gone \<longrightarrow> q_shutdown (sys_queue s))) (sys_workers s)"

lemma dtor_inv_crashed [simp]: "dtor_inv (s\<lparr>sys_crashed := k\<rparr>) = dtor_inv s"
  by (simp add: dtor_inv_def)

lemma dtor_inv_update:
  assumes "dtor_inv s" and "q_shutdown (sys_queue s) \<longrightarrow> q_shutdown (sys_queue s')"
    and "sys_workers s' = (sys_workers s)[i := w]" and "w_token w \<longleftrightarrow> w_dtor w \<noteq> Alive"
    and "w_dtor w = Cancelled \<or> w_dtor w = Gone \<longrightarrow> q_shutdown (sys_queue s')"
  shows "dtor_inv s'"
  using assms by (auto simp: dtor_inv_def list_all_iff dest!: set_update_subset_insert [THEN subsetD])

lemma dtor_inv_nth:
  "dtor_inv s \<Longrightarrow> i < length (sys_workers s) \<Longrightarrow>
   (w_token (sys_workers s ! i) \<longleftrightarrow> w_dtor (sys_workers s ! i) \<noteq> Alive) \<and>
   (w_dtor (sys_workers s ! i) = Cancelled \<or> w_dtor (sys_workers s ! i) = Gone \<longrightarrow> q_shutdown (sys_queue s))"
  by (auto simp: dtor_inv_def list_all_length)

lemma dtor_inv_step:
  assumes "sys_step calls s s'" and "dtor_inv s"
  shows "dtor_inv s' \<and> length (sys_workers s') = length (sys_workers s)"
  using assms(1)
proof (cases rule: sys_step.cases)
  case (step_push op)
  then show ?thesis using assms(2) by (simp add: dtor_inv_def)
next
  case (step_worker i)
  note inv = dtor_inv_nth [OF assms(2) step_worker(2)]
  show ?thesis
  proof (cases "\<exists>k. s' = s\<lparr>sys_crashed := Some k\<rparr>")
    case True
    with assms(2) show ?thesis by auto
  next
    case False
    from step_worker(3) show ?thesis
      by (cases rule: worker_step_cases)
        (use assms(2) inv False in \<open>auto intro!: dtor_inv_update [OF assms(2)]\<close>)
  qed
next
  case (step_dtor i)
  note inv = dtor_inv_nth [OF assms(2) step_dtor(2)]
  from step_dtor(3) show ?thesis
    by (cases rule: dtor_step_cases)
      (use assms(2) inv in \<open>auto simp: pcq_Cancel_def intro!: dtor_inv_update [OF assms(2)]\<close>)
qed

lemma dtor_inv_reachable:
  "reachable calls s s' \<Longrightarrow> dtor_inv s \<Longrightarrow> dtor_inv s' \<and> length (sys_workers s') = length (sys_workers s)"
  by (induction rule: reachable.induct) (auto dest: dtor_inv_step)

lemma dtor_inv_new: "dtor_inv (sys_new n)"
  by (simp add: dtor_inv_def sys_new_def worker_new_def list_all_iff)

text \<open>With one worker that is not being destroyed, operations run in the order they were queued.\<close>

definition in_order :: "'a system \<Rightarrow> bool" where
  "in_order s \<longleftrightarrow> (w_token (sys_workers s ! 0) \<or>
     sys_pushed s = map snd (sys_done s) @ in_flight (sys_workers s ! 0) @ q_items (sys_queue s) \<and>
     \<not> q_shutdown (sys_queue s))"

lemma in_order_step:
  assumes "sys_step calls s s'" and "in_order s" and "length (sys_workers s) = 1" and "dtor_inv s"
  shows "in_order s'"
  using assms(1)
proof (cases rule: sys_step.cases)
  case (step_push op)
  then show ?thesis using assms(2) by (auto simp: in_order_def pcq_Push_def)
next
  case (step_worker i)
  then have i: "i = 0" using assms(3) by simp
  from step_worker(3) show ?thesis
    by (cases rule: worker_step_cases)
      (use assms(2,3) in \<open>auto simp: in_order_def i in_flight_pc split: option.splits\<close>)
next
  case (step_dtor i)
  then have i: "i = 0" using assms(3) by simp
  from step_dtor(3) show ?thesis
    by (cases rule: dtor_step_cases)
      (use assms(2,3) dtor_inv_nth [OF assms(4) step_dtor(2)] in \<open>auto simp: in_order_def i\<close>)
qed

lemma in_order_reachable:
  "reachable calls (sys_new 1) s \<Longrightarrow> in_order s \<and> dtor_inv s \<and> length (sys_workers s) = 1"
proof (induction rule: reachable.induct)
  case reach_refl
  then show ?case
    using dtor_inv_new [of 1] by (simp add: in_order_def sys_new_def pcq_new_def worker_new_def in_flight_def)
next
  case (reach_step s' s'')
  then show ?case using in_order_step dtor_inv_step by metis
qed

subsection \<open>Properties\<close>

text \<open>
  First in, first out: a program that only pushes and pops gets the values in the order pushed,
  and what it did not get is still queued, in order.
\<close>

theorem pcq_first_in_first_out:
  assumes "pcq.client cs pcq_new [] = (q, got)"
  shows "got @ q_items q = map the (filter (\<lambda>c. c \<noteq> None) cs)"
  using pcq.client_in_order [OF assms] by (simp add: pcq_new_def)

theorem pcq_first_in_first_out_witness:
  "\<exists>q got. pcq.client [Some 1, Some 2, None, Some (3 :: nat), None] pcq_new [] = (q, got) \<and>
     got @ q_items q = [1, 2, 3]"
proof -
  obtain q got where c: "pcq.client [Some 1, Some 2, None, Some (3 :: nat), None] pcq_new [] = (q, got)"
    by fastforce
  from pcq_first_in_first_out [OF c] c show ?thesis by simp
qed

text \<open>
  C18. No operation is lost or run twice: in every state the workers and their destructors can reach,
  under every interleaving and whatever comes of the calls, each pushed operation is exactly one of: queued, held by a worker,
  executed, deleted by a shutdown, or dropped by a worker that was told to stop.
\<close>

theorem every_operation_accounted:
  assumes "reachable calls (sys_new n) s"
  shows "mset (sys_pushed s) =
     mset (q_items (sys_queue s)) + mset (all_in_flight s) + mset (map snd (sys_done s)) +
     mset (sys_deleted s) + mset (sys_dropped s)"
  using accounted_reachable [OF assms accounted_new] by (simp only: accounted_def)

text \<open>
  One worker and two operations: it takes the first, its call comes back, and then its destructor
  stops it and deletes the second.
\<close>

definition all_return :: "'a calls" where "all_return i before op = Some (Ret ())"

lemma sample_run:
  "reachable calls (sys_new 1) (do_push 2 (do_push (7 :: nat) (sys_new 1)))"
  by (rule reach_step [OF reach_step [OF reach_refl step_push] step_push]) (simp_all add: sys_new_def)

lemma sample_full_run:
  "\<exists>s. reachable all_return (sys_new 1) s \<and> sys_pushed s = [7 :: nat, 2] \<and> sys_done s = [(0, 7)] \<and>
     q_items (sys_queue s) = [] \<and> all_in_flight s = [] \<and> sys_dropped s = []"
proof -
  let ?st = "\<lambda>pc tok d q dn del. \<lparr>sys_queue = \<lparr>q_items = q, q_shutdown = (d = Cancelled)\<rparr>,
    sys_workers = [\<lparr>w_pc = pc, w_token = tok, w_dtor = d\<rparr>], sys_pushed = [7 :: nat, 2], sys_done = dn,
    sys_deleted = del, sys_dropped = [], sys_crashed = None\<rparr> :: nat system"
  have "do_push 2 (do_push (7 :: nat) (sys_new 1)) = ?st Waiting False Alive [7, 2] [] []"
    by (simp add: do_push_def sys_new_def pcq_Push_def pcq_new_def worker_new_def)
  with sample_run [of all_return] have r0: "reachable all_return (sys_new 1) (?st Waiting False Alive [7, 2] [] [])"
    by simp
  have r1: "reachable all_return (sys_new 1) (?st (Popped (Some 7)) False Alive [2] [] [])"
    by (rule reach_step [OF r0 step_worker [of _ 0]])
      (simp_all add: worker_step_def pcq_WaitAndPop_def set_worker_def)
  have r2: "reachable all_return (sys_new 1) (?st (Executing 7) False Alive [2] [] [])"
    by (rule reach_step [OF r1 step_worker [of _ 0]]) (simp_all add: worker_step_def set_worker_def)
  have r3: "reachable all_return (sys_new 1) (?st Waiting False Alive [2] [(0, 7)] [])"
    by (rule reach_step [OF r2 step_worker [of _ 0]]) (simp_all add: worker_step_def set_worker_def all_return_def)
  have r4: "reachable all_return (sys_new 1) (?st Waiting True TokenSet [2] [(0, 7)] [])"
    by (rule reach_step [OF r3 step_dtor [of _ 0]]) (simp_all add: dtor_step_def set_worker_def)
  have r5: "reachable all_return (sys_new 1) (?st Waiting True Cancelled [] [(0, 7)] [2])"
    by (rule reach_step [OF r4 step_dtor [of _ 0]]) (simp_all add: dtor_step_def set_worker_def pcq_Cancel_def)
  then show ?thesis by (intro exI [of _ "?st Waiting True Cancelled [] [(0, 7)] [2]"])
    (simp add: all_in_flight_def in_flight_def)
qed

theorem every_operation_accounted_witness:
  "\<exists>s. reachable all_return (sys_new 1) s \<and> sys_pushed s = [7 :: nat, 2] \<and> sys_done s = [(0, 7)] \<and>
     mset (sys_deleted s) = {#2#}"
proof -
  obtain s :: "nat system" where s: "reachable all_return (sys_new 1) s" "sys_pushed s = [7, 2]" "sys_done s = [(0, 7)]"
    "q_items (sys_queue s) = []" "all_in_flight s = []" "sys_dropped s = []"
    using sample_full_run by blast
  from every_operation_accounted [OF s(1)] s show ?thesis by (intro exI [of _ s]) simp
qed

text \<open>
  Order: with one worker that was not told to stop, the operations executed so far, the one it
  holds and the queued ones are the pushed ones in their order.
\<close>

theorem single_worker_in_order:
  assumes "reachable calls (sys_new 1) s" and "\<not> w_token (sys_workers s ! 0)"
  shows "sys_pushed s = map snd (sys_done s) @ in_flight (sys_workers s ! 0) @ q_items (sys_queue s)"
  using in_order_reachable [OF assms(1)] assms(2) by (simp add: in_order_def)

theorem single_worker_in_order_witness:
  "sys_pushed (do_push 2 (do_push (7 :: nat) (sys_new 1))) = [7, 2]"
proof -
  have "\<not> w_token (sys_workers (do_push 2 (do_push (7 :: nat) (sys_new 1))) ! 0)"
    by (simp add: sys_new_def worker_new_def)
  from single_worker_in_order [OF sample_run this] show ?thesis
    by (simp add: sys_new_def pcq_new_def pcq_Push_def in_flight_def worker_new_def)
qed

text \<open>
  C20. Destroying one worker stops them all: from the moment one destructor has cancelled the shared
  queue, the queue stays shut down, and whatever happens later the operations executed are those
  executed or held by a worker at that moment. An operation pushed afterwards never runs.
\<close>

theorem one_destructor_stops_all:
  assumes "reachable calls (sys_new n) s" and "i < n" and "Cancelled \<le> w_dtor (sys_workers s ! i)"
    and "reachable calls s s'"
  shows "q_shutdown (sys_queue s') \<and>
    mset (map snd (sys_done s')) \<subseteq># mset (map snd (sys_done s)) + mset (all_in_flight s)"
proof -
  have inv: "dtor_inv s" and len: "length (sys_workers s) = n"
    using dtor_inv_reachable [OF assms(1) dtor_inv_new] by (simp_all add: sys_new_def)
  then have "q_shutdown (sys_queue s)" using dtor_inv_nth [OF inv, of i] assms(2,3) by auto
  from shut_reachable [OF assms(4) this] show ?thesis
    by (metis may_finish_def mset_subset_eq_add_left subset_mset.order_trans)
qed

lemma sample_destroyed:
  "\<exists>s :: 'a system. reachable calls (sys_new 2) s \<and> w_dtor (sys_workers s ! 0) = Cancelled \<and> sys_done s = [] \<and>
     all_in_flight s = [] \<and> sys_crashed s = None"
proof -
  have ws: "sys_workers (sys_new 2) = [worker_new, worker_new]"
    by (simp add: sys_new_def numeral_2_eq_2)
  define s1 where "s1 = set_worker 0 (worker_new\<lparr>w_token := True, w_dtor := TokenSet\<rparr>) (sys_new 2 :: 'a system)"
  define s2 where "s2 = set_worker 0 (worker_new\<lparr>w_token := True, w_dtor := Cancelled\<rparr>)
    (s1\<lparr>sys_queue := fst (pcq_Cancel (sys_queue s1)), sys_deleted := sys_deleted s1 @ q_items (sys_queue s1)\<rparr>)"
  have ws1: "sys_workers s1 = [worker_new\<lparr>w_token := True, w_dtor := TokenSet\<rparr>, worker_new]"
    by (simp add: s1_def ws)
  have "dtor_step 0 (sys_new 2) = Some s1"
    by (simp add: dtor_step_def ws s1_def worker_new_def Let_def)
  then have "sys_step calls (sys_new 2) s1" by (intro step_dtor [of _ 0]) (simp_all add: ws sys_new_def)
  then have r1: "reachable calls (sys_new 2) s1" by (rule reach_step [OF reach_refl])
  have "dtor_step 0 s1 = Some s2"
    by (simp add: dtor_step_def ws1 s2_def pcq_Cancel_def Let_def)
  then have "sys_step calls s1 s2" by (intro step_dtor [of _ 0]) (simp_all add: ws1 s1_def sys_new_def)
  then have "reachable calls (sys_new 2) s2" by (rule reach_step [OF r1])
  moreover have "sys_workers s2 = [worker_new\<lparr>w_token := True, w_dtor := Cancelled\<rparr>, worker_new]"
    by (simp add: s2_def ws1)
  moreover from this have "all_in_flight s2 = []"
    by (simp add: all_in_flight_def in_flight_def worker_new_def)
  moreover have "sys_done s2 = []" "sys_crashed s2 = None" by (simp_all add: s2_def s1_def sys_new_def)
  ultimately show ?thesis by (intro exI [of _ s2]) simp
qed

theorem one_destructor_stops_all_witness:
  "\<exists>s. reachable all_return (sys_new 2) s \<and> sys_done (do_push (5 :: nat) s) = [] \<and>
     (\<forall>s'. reachable all_return (do_push 5 s) s' \<longrightarrow> sys_done s' = [])"
proof -
  obtain s :: "nat system" where s: "reachable all_return (sys_new 2) s" "w_dtor (sys_workers s ! 0) = Cancelled"
    "sys_done s = []" "all_in_flight s = []" "sys_crashed s = None"
    using sample_destroyed by blast
  have r: "reachable all_return (sys_new 2) (do_push 5 s)" by (rule reach_step [OF s(1) step_push]) (use s(5) in simp)
  have "sys_done s' = []" if "reachable all_return (do_push 5 s) s'" for s'
    using one_destructor_stops_all [OF r _ _ that, of 0] s by (simp add: subset_mset.le_zero_eq)
  with s r show ?thesis by (intro exI [of _ s]) simp
qed

definition pc_rank :: "'a worker_pc \<Rightarrow> nat" where
  "pc_rank pc = (case pc of Exited \<Rightarrow> 0 | Popped None \<Rightarrow> 1 | Waiting \<Rightarrow> 2 | Executing op \<Rightarrow> 3
     | Popped (Some op) \<Rightarrow> 4)"

text \<open>
  The join of a destructor returns: once the queue is shut down no worker waits any more; each
  one that has not returned, and whose call does return, can always take a step, and each of its
  steps brings it closer to the end of its loop, which is at most four steps away.
\<close>

theorem workers_exit_after_shutdown:
  assumes "q_shutdown (sys_queue s)" and "i < length (sys_workers s)"
    and "w_pc (sys_workers s ! i) \<noteq> Exited"
    and "\<And>op. w_pc (sys_workers s ! i) = Executing op \<Longrightarrow> calls i (done_by i s) op = Some (Ret ())"
  shows "\<exists>s'. worker_step calls i s = Some s' \<and> q_shutdown (sys_queue s') \<and>
    pc_rank (w_pc (sys_workers s' ! i)) < pc_rank (w_pc (sys_workers s ! i)) \<and>
    pc_rank (w_pc (sys_workers s ! i)) \<le> 4"
  using assms
  by (cases "w_pc (sys_workers s ! i)")
    (auto simp: worker_step_def pcq_WaitAndPop_shut pc_rank_def Let_def split: option.splits)

theorem workers_exit_after_shutdown_witness:
  "\<exists>s'. worker_step all_return 0 ((sys_new 1)\<lparr>sys_queue := \<lparr>q_items = [4 :: nat], q_shutdown = True\<rparr>\<rparr>) = Some s' \<and>
    pc_rank (w_pc (sys_workers s' ! 0)) < 2"
  using workers_exit_after_shutdown [of "(sys_new 1)\<lparr>sys_queue := \<lparr>q_items = [4 :: nat], q_shutdown = True\<rparr>\<rparr>" 0 all_return]
  by (auto simp: sys_new_def worker_new_def pc_rank_def)

end
