(* ===== verification/Async_Query.thy ===== *)
theory Async_Query
  imports PC_Queue
begin

section \<open>Asynchronous results (AsyncCallbackProcessor.h, QueryCallback.cpp, QueryHolder.cpp)\<close>

text \<open>
  How the thread that asked for a query learns of its result: the list of pending callbacks, the
  chain of callbacks of one query, and the holder of several queries. A future is invalid,
  pending or ready with a result; the worker threads of the queue make pending ones ready between
  the calls modelled here.
\<close>

datatype 'r future = FInvalid | FPending | FReady 'r

definition valid :: "'r future \<Rightarrow> bool" where
  "valid f \<longleftrightarrow> f \<noteq> FInvalid"

subsection \<open>AsyncCallbackProcessor\<close>

text \<open>
  \<open>invoke\<close> is \<open>InvokeIfReady\<close> of one callback: the callback afterwards, whether it is complete, the
  callbacks it added to the same processor while it ran, and the rest of the program's state.
\<close>

type_synonym ('cb, 's) invoke_fun = "'cb \<Rightarrow> 's \<Rightarrow> ('cb \<times> bool \<times> 'cb list \<times> 's) outcome"

definition AddCallback :: "'cb \<Rightarrow> 'cb list \<Rightarrow> 'cb list" where
  "AddCallback query callbacks = callbacks @ [query]"

text \<open>\<open>std::remove_if\<close> over the moved list: what it keeps, and what was added meanwhile.\<close>

primrec remove_ready :: "('cb, 's) invoke_fun \<Rightarrow> 'cb list \<Rightarrow> 'cb list \<Rightarrow> 'cb list \<Rightarrow> 's \<Rightarrow>
    ('cb list \<times> 'cb list \<times> 's) outcome" where
  "remove_ready invoke [] kept added s = Ret (kept, added, s)"
| "remove_ready invoke (cb # cbs) kept added s =
     bind_outcome (invoke cb s) (\<lambda>(cb', complete, new, s').
       remove_ready invoke cbs (if complete then kept else kept @ [cb']) (added @ new) s')"

definition ProcessReadyCallbacks :: "('cb, 's) invoke_fun \<Rightarrow> 'cb list \<Rightarrow> 's \<Rightarrow> ('cb list \<times> 's) outcome" where
  "ProcessReadyCallbacks invoke callbacks s =
     (if callbacks = [] then Ret (callbacks, s)
      else bind_outcome (remove_ready invoke callbacks [] [] s) (\<lambda>(kept, added, s').
        Ret (added @ kept, s')))"

subsection \<open>QueryCallback\<close>

text \<open>
  One query and the queue of its callbacks. Of the union only the member that \<open>_isPrepared\<close> selects
  exists. A callback is a name; what calling it does is a parameter of \<open>InvokeIfReady\<close>, which
  gets the query callback itself and may change it.
\<close>

record ('r, 'id) qcb =
  qc_isPrepared :: bool
  qc_future :: "'r future"
  qc_callbacks :: "(bool \<times> 'id) list"

definition qc_new :: "bool \<Rightarrow> 'r future \<Rightarrow> ('r, 'id) qcb" where
  "qc_new prepared result = \<lparr>qc_isPrepared = prepared, qc_future = result, qc_callbacks = []\<rparr>"

text \<open>\<open>MoveFrom\<close> of two query callbacks: only the future moves.\<close>

definition qc_MoveFrom :: "('r, 'id) qcb \<Rightarrow> ('r, 'id) qcb \<Rightarrow> ('r, 'id) qcb outcome" where
  "qc_MoveFrom to from =
     (if qc_isPrepared to \<noteq> qc_isPrepared from then Crash (AssertFail ''to->_isPrepared == from._isPrepared'')
      else Ret (to\<lparr>qc_future := qc_future from\<rparr>))"

definition qc_assign :: "('r, 'id) qcb \<Rightarrow> ('r, 'id) qcb \<Rightarrow> ('r, 'id) qcb outcome" where
  "qc_assign this right =
     bind_outcome (qc_MoveFrom (if qc_isPrepared this \<noteq> qc_isPrepared right
         then this\<lparr>qc_isPrepared := qc_isPrepared right, qc_future := FInvalid\<rparr> else this) right)
       (\<lambda>t. Ret (t\<lparr>qc_callbacks := qc_callbacks right\<rparr>))"

definition WithChainingCallback :: "'id \<Rightarrow> ('r, 'id) qcb \<Rightarrow> ('r, 'id) qcb outcome" where
  "WithChainingCallback callback c =
     (if \<not> (qc_callbacks c \<noteq> [] \<or> \<not> qc_isPrepared c)
      then Crash (AssertFail ''Attempted to set callback function for string query on a prepared async query'')
      else Ret (c\<lparr>qc_callbacks := qc_callbacks c @ [(False, callback)]\<rparr>))"

definition WithChainingPreparedCallback :: "'id \<Rightarrow> ('r, 'id) qcb \<Rightarrow> ('r, 'id) qcb outcome" where
  "WithChainingPreparedCallback callback c =
     (if \<not> (qc_callbacks c \<noteq> [] \<or> qc_isPrepared c)
      then Crash (AssertFail ''Attempted to set callback function for prepared query on a string async query'')
      else Ret (c\<lparr>qc_callbacks := qc_callbacks c @ [(True, callback)]\<rparr>))"

definition WithCallback :: "'id \<Rightarrow> ('r, 'id) qcb \<Rightarrow> ('r, 'id) qcb outcome" where
  "WithCallback callback c = WithChainingCallback callback c"

definition WithPreparedCallback :: "'id \<Rightarrow> ('r, 'id) qcb \<Rightarrow> ('r, 'id) qcb outcome" where
  "WithPreparedCallback callback c = WithChainingPreparedCallback callback c"

definition SetNextQuery :: "('r, 'id) qcb \<Rightarrow> ('r, 'id) qcb \<Rightarrow> ('r, 'id) qcb outcome" where
  "SetNextQuery c next = qc_MoveFrom c next"

text \<open>The lambda \<open>checkStateAndReturnCompletion\<close>.\<close>

definition check_completion :: "('r, 'id) qcb \<Rightarrow> (('r, 'id) qcb \<times> bool) outcome" where
  "check_completion c =
     (let c1 = c\<lparr>qc_callbacks := tl (qc_callbacks c)\<rparr>; hasNext = valid (qc_future c1) in
      if qc_callbacks c1 = [] then
        (if hasNext then Crash (AssertFail ''!hasNext'') else Ret (c1, True))
      else if \<not> hasNext then Ret (c1, True)
      else if qc_isPrepared c1 \<noteq> fst (hd (qc_callbacks c1)) then
        Crash (AssertFail ''_isPrepared == _callbacks.front()._isPrepared'')
      else Ret (c1, False))"

text \<open>
  With no callback the front of the queue does not exist; a front of the other kind would read the
  wrong member of its union.
\<close>

definition qc_InvokeIfReady ::
  "('id \<Rightarrow> 'r \<Rightarrow> ('r, 'id) qcb \<Rightarrow> ('r, 'id) qcb outcome) \<Rightarrow> ('r, 'id) qcb \<Rightarrow> (('r, 'id) qcb \<times> bool) outcome" where
  "qc_InvokeIfReady call c =
     (case qc_callbacks c of
        [] \<Rightarrow> Crash OutOfBounds
      | (kind, callback) # _ \<Rightarrow>
          (case qc_future c of
             FReady r \<Rightarrow>
               if kind \<noteq> qc_isPrepared c then Crash NullDeref
               else bind_outcome (call callback r (c\<lparr>qc_future := FInvalid\<rparr>)) check_completion
           | _ \<Rightarrow> Ret (c, False)))"

subsection \<open>QueryHolder\<close>

text \<open>
  A prepared statement and its result per index; \<open>'st\<close> is a statement, \<open>'rs\<close> a result set.
\<close>

type_synonym ('st, 'rs) holder = "('st option \<times> 'rs option) list"

definition SetSize :: "nat \<Rightarrow> ('st, 'rs) holder \<Rightarrow> ('st, 'rs) holder" where
  "SetSize n qs = take n qs @ replicate (n - length qs) (None, None)"

definition SetPreparedQueryImpl :: "nat \<Rightarrow> 'st option \<Rightarrow> ('st, 'rs) holder \<Rightarrow> ('st, 'rs) holder \<times> bool" where
  "SetPreparedQueryImpl index stmt qs =
     (if length qs \<le> index then (qs, False) else (qs[index := (stmt, snd (qs ! index))], True))"

definition GetPreparedResult :: "nat \<Rightarrow> ('st, 'rs) holder \<Rightarrow> 'rs option outcome" where
  "GetPreparedResult index qs =
     (if index < length qs then Ret (snd (qs ! index))
      else Crash (AssertFail ''Query holder result index out of range''))"

definition SetPreparedResult ::
  "('rs \<Rightarrow> nat) \<Rightarrow> nat \<Rightarrow> 'rs option \<Rightarrow> ('st, 'rs) holder \<Rightarrow> ('st, 'rs) holder" where
  "SetPreparedResult rows index result qs =
     (let result = (case result of None \<Rightarrow> None | Some r \<Rightarrow> if rows r = 0 then None else Some r) in
      if index < length qs then qs[index := (fst (qs ! index), result)] else qs)"

text \<open>\<open>SQLQueryHolderTask::Execute\<close>: \<open>query\<close> is the connection's \<open>Query\<close> on its state \<open>'c\<close>.\<close>

primrec holder_loop ::
  "('st \<Rightarrow> 'c \<Rightarrow> 'rs option \<times> 'c) \<Rightarrow> ('rs \<Rightarrow> nat) \<Rightarrow> nat list \<Rightarrow> ('st, 'rs) holder \<Rightarrow> 'c \<Rightarrow> ('st, 'rs) holder \<times> 'c" where
  "holder_loop query rows [] qs c = (qs, c)"
| "holder_loop query rows (i # is) qs c =
     (case fst (qs ! i) of
        None \<Rightarrow> holder_loop query rows is qs c
      | Some stmt \<Rightarrow>
          (let (r, c') = query stmt c in holder_loop query rows is (SetPreparedResult rows i r qs) c'))"

definition holder_Execute ::
  "('st \<Rightarrow> 'c \<Rightarrow> 'rs option \<times> 'c) \<Rightarrow> ('rs \<Rightarrow> nat) \<Rightarrow> ('st, 'rs) holder \<Rightarrow> 'c \<Rightarrow> ('st, 'rs) holder \<times> 'c \<times> bool" where
  "holder_Execute query rows qs c =
     (let (qs', c') = holder_loop query rows [0..<length qs] qs c in (qs', c', True))"

text \<open>The future of the holder's task stays valid: the callback runs again on every later call.\<close>

definition holder_InvokeIfReady :: "unit future \<Rightarrow> ('st, 'rs) holder \<Rightarrow> ('st, 'rs) holder option \<times> bool" where
  "holder_InvokeIfReady fut qs = (if fut = FReady () then (Some qs, True) else (None, False))"

subsection \<open>Lemmas\<close>

lemma remove_ready_eq:
  assumes "\<And>cb s. cb \<in> set cbs \<Longrightarrow> invoke cb s = Ret (f cb, complete cb, new cb, upd cb s)"
  shows "remove_ready invoke cbs kept added s =
    Ret (kept @ map f (filter (\<lambda>cb. \<not> complete cb) cbs), added @ concat (map new cbs), fold upd cbs s)"
  using assms by (induction cbs arbitrary: kept added s) auto

text \<open>
  A query callback that is polled: before each poll the pending future may have become ready. The
  callbacks that were called, and whether the chain is complete.
\<close>

definition arrive :: "'r option \<Rightarrow> ('r, 'id) qcb \<Rightarrow> ('r, 'id) qcb" where
  "arrive m c = (case m of Some r \<Rightarrow> if qc_future c = FPending then c\<lparr>qc_future := FReady r\<rparr> else c | None \<Rightarrow> c)"

definition invoked_by :: "('r, 'id) qcb \<Rightarrow> (bool \<times> 'id) list" where
  "invoked_by c = (case qc_future c of FReady r \<Rightarrow> [hd (qc_callbacks c)] | _ \<Rightarrow> [])"

fun poll_run :: "('id \<Rightarrow> 'r \<Rightarrow> ('r, 'id) qcb \<Rightarrow> ('r, 'id) qcb outcome) \<Rightarrow> 'r option list \<Rightarrow> ('r, 'id) qcb \<Rightarrow>
    (('r, 'id) qcb \<times> (bool \<times> 'id) list \<times> bool) outcome" where
  "poll_run call [] c = Ret (c, [], False)"
| "poll_run call (m # ms) c =
     bind_outcome (qc_InvokeIfReady call (arrive m c)) (\<lambda>(c', complete).
       if complete then Ret (c', invoked_by (arrive m c), True)
       else bind_outcome (poll_run call ms c') (\<lambda>(c'', is, done). Ret (c'', invoked_by (arrive m c) @ is, done)))"

definition front_ok :: "('r, 'id) qcb \<Rightarrow> bool" where
  "front_ok c \<longleftrightarrow> qc_callbacks c \<noteq> [] \<and> fst (hd (qc_callbacks c)) = qc_isPrepared c"

lemma arrive_simps [simp]:
  "qc_callbacks (arrive m c) = qc_callbacks c" "qc_isPrepared (arrive m c) = qc_isPrepared c"
  by (auto simp: arrive_def split: option.splits)

lemma InvokeIfReady_step:
  assumes "\<And>id r c c'. call id r c = Ret c' \<Longrightarrow>
      qc_isPrepared c' = qc_isPrepared c \<and> qc_callbacks c' = qc_callbacks c"
    and "front_ok c" and "qc_InvokeIfReady call c = Ret (c', complete)"
  shows "invoked_by c @ qc_callbacks c' = qc_callbacks c \<and> qc_isPrepared c' = qc_isPrepared c \<and>
    list_all (\<lambda>p. fst p = qc_isPrepared c) (invoked_by c) \<and> (\<not> complete \<longrightarrow> front_ok c')"
proof (cases "qc_future c")
  case (FReady r)
  obtain id cbs where cbs: "qc_callbacks c = (qc_isPrepared c, id) # cbs"
    using assms(2) by (cases "qc_callbacks c") (auto simp: front_ok_def)
  with assms(3) FReady obtain c1 where c1: "call id r (c\<lparr>qc_future := FInvalid\<rparr>) = Ret c1"
    and chk: "check_completion c1 = Ret (c', complete)"
    by (auto simp: qc_InvokeIfReady_def)
  have "qc_isPrepared c1 = qc_isPrepared c" "qc_callbacks c1 = qc_callbacks c"
    using assms(1) [OF c1] by simp_all
  with chk cbs FReady show ?thesis
    by (auto simp: check_completion_def Let_def front_ok_def invoked_by_def split: if_splits)
qed (use assms(2,3) in \<open>auto simp: qc_InvokeIfReady_def invoked_by_def front_ok_def split: list.splits prod.splits\<close>)

lemma poll_run_chain:
  assumes "\<And>id r c c'. call id r c = Ret c' \<Longrightarrow>
      qc_isPrepared c' = qc_isPrepared c \<and> qc_callbacks c' = qc_callbacks c"
    and "front_ok c" and "poll_run call ms c = Ret (c', called, complete)"
  shows "called @ qc_callbacks c' = qc_callbacks c \<and> list_all (\<lambda>p. fst p = qc_isPrepared c) called"
  using assms(2,3)
proof (induction ms arbitrary: c called)
  case (Cons m ms)
  obtain c1 b where s: "qc_InvokeIfReady call (arrive m c) = Ret (c1, b)"
    using Cons.prems(2) by auto
  have "front_ok (arrive m c)" using Cons.prems(1) by (simp add: front_ok_def)
  note step = InvokeIfReady_step [OF assms(1) this s]
  show ?case
  proof (cases b)
    case True
    with Cons.prems(2) s step show ?thesis by auto
  next
    case False
    with Cons.prems(2) s obtain called' where r: "poll_run call ms c1 = Ret (c', called', complete)"
      and c: "called = invoked_by (arrive m c) @ called'" by auto
    from Cons.IH [OF _ r] step False c show ?thesis by auto
  qed
qed simp

text \<open>What the task leaves in a slot, when the connection answers statement \<open>st\<close> with \<open>answer st\<close>.\<close>

definition slot_after :: "('st \<Rightarrow> 'rs option) \<Rightarrow> ('rs \<Rightarrow> nat) \<Rightarrow> 'st option \<times> 'rs option \<Rightarrow> 'st option \<times> 'rs option" where
  "slot_after answer rows p =
     (case fst p of
        None \<Rightarrow> p
      | Some st \<Rightarrow> (Some st, case answer st of None \<Rightarrow> None | Some r \<Rightarrow> if rows r = 0 then None else Some r))"

lemma slot_after_None: "fst p = None \<Longrightarrow> slot_after answer rows p = p"
  by (simp add: slot_after_def)

lemma SetPreparedResult_slot:
  assumes "i < length qs" and "fst (qs ! i) = Some st"
  shows "SetPreparedResult rows i (answer st) qs = qs[i := slot_after answer rows (qs ! i)]"
  using assms by (simp add: SetPreparedResult_def slot_after_def Let_def)

lemma holder_loop_spec:
  assumes "distinct is" and "\<forall>i\<in>set is. i < length qs"
    and "\<And>st log. query st log = (answer st, log @ [st])"
  shows "length (fst (holder_loop query rows is qs log)) = length qs \<and>
    (\<forall>j<length qs. fst (holder_loop query rows is qs log) ! j =
       (if j \<in> set is then slot_after answer rows (qs ! j) else qs ! j)) \<and>
    snd (holder_loop query rows is qs log) =
      log @ concat (map (\<lambda>i. case fst (qs ! i) of Some st \<Rightarrow> [st] | None \<Rightarrow> []) is)"
  using assms(1,2)
proof (induction "is" arbitrary: qs log)
  case (Cons i "is")
  show ?case
  proof (cases "fst (qs ! i)")
    case None
    then have "holder_loop query rows (i # is) qs log = holder_loop query rows is qs log" by simp
    with Cons None show ?thesis by (auto simp: slot_after_None)
  next
    case (Some st)
    let ?qs = "qs[i := slot_after answer rows (qs ! i)]"
    have i: "i < length qs" "i \<notin> set is" using Cons.prems by simp_all
    have step: "holder_loop query rows (i # is) qs log = holder_loop query rows is ?qs (log @ [st])"
      using Some SetPreparedResult_slot [OF i(1) Some] by (simp add: assms(3))
    have eq: "map (\<lambda>i. case fst (?qs ! i) of Some st \<Rightarrow> [st] | None \<Rightarrow> []) is =
        map (\<lambda>i. case fst (qs ! i) of Some st \<Rightarrow> [st] | None \<Rightarrow> []) is"
    proof (intro map_cong refl)
      fix j assume "j \<in> set is"
      then have "i \<noteq> j" using i(2) by auto
      then show "(case fst (?qs ! j) of Some st \<Rightarrow> [st] | None \<Rightarrow> []) =
          (case fst (qs ! j) of Some st \<Rightarrow> [st] | None \<Rightarrow> [])" by simp
    qed
    have "distinct is" "\<forall>i\<in>set is. i < length ?qs" using Cons.prems by simp_all
    note ih = Cons.IH [OF this, of "log @ [st]", unfolded eq]
    show ?thesis
      unfolding step using ih i Some by (auto simp: nth_list_update)
  qed
qed simp

subsection \<open>Properties\<close>

text \<open>
  One pass over the pending callbacks asks each one once, in order; those that were not ready
  stay in their order, behind the ones that were added during the pass.
\<close>

theorem ready_callbacks_pass:
  assumes "\<And>cb s. invoke cb s = Ret (f cb, complete cb, new cb, upd cb s)"
  shows "ProcessReadyCallbacks invoke cbs s =
    Ret (concat (map new cbs) @ map f (filter (\<lambda>cb. \<not> complete cb) cbs), fold upd cbs s)"
  using remove_ready_eq [of cbs invoke f complete new upd "[]" "[]" s] assms
  by (simp add: ProcessReadyCallbacks_def)

theorem ready_callbacks_pass_witness:
  "ProcessReadyCallbacks (\<lambda>cb s. Ret (cb, even cb, if cb = 4 then [9] else [], s @ [cb])) [1, 4, 3 :: nat] [] =
    Ret ([9, 1, 3], [1, 4, 3])"
  using ready_callbacks_pass [of "\<lambda>cb s. Ret (cb, even cb, if cb = 4 then [9] else [], s @ [cb])" id even
      "\<lambda>cb. if cb = 4 then [9] else []" "\<lambda>cb s. s @ [cb]" "[1, 4, 3 :: nat]" "[]"] by simp

text \<open>
  C40. The callbacks of one query are called in the order in which they were attached, each at most
  once, and only those of the query's own kind: a chain that starts on a text query never calls a
  callback for a prepared one, it ends there or fails an assertion. Callbacks may set the next
  query but not change the chain.
\<close>

theorem chained_callbacks_in_order:
  assumes "\<And>id r c c'. call id r c = Ret c' \<Longrightarrow>
      qc_isPrepared c' = qc_isPrepared c \<and> qc_callbacks c' = qc_callbacks c"
    and "qc_callbacks c \<noteq> []" and "fst (hd (qc_callbacks c)) = qc_isPrepared c"
    and "poll_run call ms c = Ret (c', called, complete)"
  shows "called @ qc_callbacks c' = qc_callbacks c \<and> list_all (\<lambda>p. fst p = qc_isPrepared c) called"
  using poll_run_chain [OF assms(1) _ assms(4)] assms(2,3) by (simp add: front_ok_def)

theorem chained_callbacks_in_order_witness:
  "\<exists>c'. poll_run (\<lambda>id r c. if id = ''a'' then SetNextQuery c (qc_new False FPending) else Ret c)
      [None, Some 1, Some (2 :: nat)]
      \<lparr>qc_isPrepared = False, qc_future = FPending, qc_callbacks = [(False, ''a''), (False, ''b'')]\<rparr> =
    Ret (c', [(False, ''a''), (False, ''b'')], True) \<and> qc_callbacks c' = []"
proof -
  let ?call = "\<lambda>id (r :: nat) c. if id = ''a'' then SetNextQuery c (qc_new False FPending) else Ret c"
  let ?c = "\<lparr>qc_isPrepared = False, qc_future = FPending, qc_callbacks = [(False, ''a''), (False, ''b'')]\<rparr>
    :: (nat, string) qcb"
  have frame: "qc_isPrepared c' = qc_isPrepared c \<and> qc_callbacks c' = qc_callbacks c"
    if "?call id r c = Ret c'" for id r and c c' :: "(nat, string) qcb"
    using that by (auto simp: SetNextQuery_def qc_MoveFrom_def split: if_splits)
  obtain c' where run: "poll_run ?call [None, Some 1, Some 2] ?c = Ret (c', [(False, ''a''), (False, ''b'')], True)"
    by (simp add: arrive_def qc_InvokeIfReady_def check_completion_def SetNextQuery_def qc_MoveFrom_def qc_new_def
        valid_def invoked_by_def Let_def)
  have "[(False, ''a''), (False, ''b'')] @ qc_callbacks c' = qc_callbacks ?c \<and>
      list_all (\<lambda>p. fst p = qc_isPrepared ?c) [(False, ''a''), (False, ''b'')]"
    by (rule chained_callbacks_in_order [OF _ _ _ run]) (use frame in blast, simp_all)
  then have "qc_callbacks c' = []" by simp
  with run show ?thesis by (intro exI conjI)
qed

text \<open>
  The task of a query holder runs the statements that are set, once each and in index order, and
  stores for each the result unless it has no row; indexes without a statement keep what they had.
\<close>

theorem holder_runs_all:
  assumes "\<And>st log. query st log = (answer st, log @ [st])"
  shows "holder_Execute query rows qs log =
    (map (slot_after answer rows) qs, log @ concat (map (\<lambda>p. case fst p of Some st \<Rightarrow> [st] | None \<Rightarrow> []) qs), True)"
proof -
  have "distinct [0..<length qs]" "\<forall>i\<in>set [0..<length qs]. i < length qs" by simp_all
  note s = holder_loop_spec [OF this assms, of rows log]
  have "fst (holder_loop query rows [0..<length qs] qs log) = map (slot_after answer rows) qs"
    by (rule nth_equalityI) (use s in simp_all)
  moreover have "map (\<lambda>i. case fst (qs ! i) of Some st \<Rightarrow> [st] | None \<Rightarrow> []) [0..<length qs] =
      map (\<lambda>p. case fst p of Some st \<Rightarrow> [st] | None \<Rightarrow> []) qs"
    by (rule nth_equalityI) simp_all
  ultimately show ?thesis using s by (simp add: holder_Execute_def Let_def split_beta)
qed

theorem holder_runs_all_witness:
  "holder_Execute (\<lambda>st log. (if st = ''b'' then None else Some (length st), log @ [st])) id
     [(Some ''aa'', None), (None, None), (Some ''b'', Some 3)] [] =
   ([(Some ''aa'', Some 2), (None, None), (Some ''b'', None)], [''aa'', ''b''], True)"
  using holder_runs_all [of "\<lambda>st log. (if st = ''b'' then None else Some (length st), log @ [st])"
      "\<lambda>st. if st = ''b'' then None else Some (length st)" id "[(Some ''aa'', None), (None, None), (Some ''b'', Some 3)]" "[]"]
  by (simp add: slot_after_def)

end
