(* ===== verification/Timers.thy ===== *)
theory Timers
  imports Text_Util
begin

section \<open>Time (common/Utilities/Timer.h, Timer.cpp)\<close>

text \<open>
  Millisecond counters, the four timer structures, durations to and from text and the calendar
  helpers. \<open>time_t\<close> is an integer without bound, the 32-bit counters are words. \<open>fmt::format\<close>,
  the clock, \<open>localtime\<close> and \<open>mktime\<close> are arguments.
\<close>

subsection \<open>Millisecond counters\<close>

definition GetMSTimeDiff :: "int \<Rightarrow> int \<Rightarrow> int" where
  "GetMSTimeDiff oldMSTime newMSTime =
     (if oldMSTime > newMSTime then oldMSTime - newMSTime else newMSTime - oldMSTime)"

text \<open>\<open>uint32(duration_cast<milliseconds>(now - start).count())\<close>, the times in nanoseconds.\<close>

definition getMSTime :: "nat \<Rightarrow> nat \<Rightarrow> uint32" where
  "getMSTime start now = of_nat ((now - start) div 1000000)"

definition getMSTimeDiff :: "uint32 \<Rightarrow> uint32 \<Rightarrow> uint32" where
  "getMSTimeDiff oldMSTime newMSTime =
     (if oldMSTime > newMSTime then (0xFFFFFFFF - oldMSTime) + newMSTime else newMSTime - oldMSTime)"

definition getMSTimeDiff_to :: "nat \<Rightarrow> uint32 \<Rightarrow> nat \<Rightarrow> uint32" where
  "getMSTimeDiff_to start oldMSTime newTime = getMSTimeDiff oldMSTime (getMSTime start newTime)"

definition GetMSTimeDiffToNow :: "nat \<Rightarrow> nat \<Rightarrow> uint32 \<Rightarrow> uint32" where
  "GetMSTimeDiffToNow start now oldMSTime = getMSTimeDiff oldMSTime (getMSTime start now)"

subsection \<open>IntervalTimer\<close>

record interval_timer =
  it_interval :: int
  it_current :: int

definition it_new :: interval_timer where
  "it_new = \<lparr>it_interval = 0, it_current = 0\<rparr>"

definition it_Update :: "int \<Rightarrow> interval_timer \<Rightarrow> interval_timer" where
  "it_Update diff t =
     (let t1 = t\<lparr>it_current := it_current t + diff\<rparr> in
      if it_current t1 < 0 then t1\<lparr>it_current := 0\<rparr> else t1)"

definition it_Passed :: "interval_timer \<Rightarrow> bool" where
  "it_Passed t = (it_current t \<ge> it_interval t)"

text \<open>The remainder has the sign of the dividend in C++; by zero it is undefined.\<close>

definition c_rem :: "int \<Rightarrow> int \<Rightarrow> int" where
  "c_rem a b = sgn a * (\<bar>a\<bar> mod \<bar>b\<bar>)"

definition it_Reset :: "interval_timer \<Rightarrow> interval_timer outcome" where
  "it_Reset t =
     (if it_current t \<ge> it_interval t then
        (if it_interval t = 0 then Crash DivByZero
         else Ret (t\<lparr>it_current := c_rem (it_current t) (it_interval t)\<rparr>))
      else Ret t)"

definition it_SetCurrent :: "int \<Rightarrow> interval_timer \<Rightarrow> interval_timer" where
  "it_SetCurrent c t = t\<lparr>it_current := c\<rparr>"

definition it_SetInterval :: "int \<Rightarrow> interval_timer \<Rightarrow> interval_timer" where
  "it_SetInterval i t = t\<lparr>it_interval := i\<rparr>"

definition it_GetInterval :: "interval_timer \<Rightarrow> int" where
  "it_GetInterval t = it_interval t"

definition it_GetCurrent :: "interval_timer \<Rightarrow> int" where
  "it_GetCurrent t = it_current t"

subsection \<open>TimeTracker and TimeTrackerSmall\<close>

text \<open>
  The two structures differ in the width of the remaining time only; overflow of either is
  undefined in C++, so both are the same integer.
\<close>

record time_tracker =
  i_expiryTime :: int

definition tt_new :: "int \<Rightarrow> time_tracker" where
  "tt_new expiry = \<lparr>i_expiryTime = expiry\<rparr>"

definition tt_Update :: "int \<Rightarrow> time_tracker \<Rightarrow> time_tracker" where
  "tt_Update diff t = t\<lparr>i_expiryTime := i_expiryTime t - diff\<rparr>"

definition tt_Passed :: "time_tracker \<Rightarrow> bool" where
  "tt_Passed t = (i_expiryTime t \<le> 0)"

definition tt_Reset :: "int \<Rightarrow> time_tracker \<Rightarrow> time_tracker" where
  "tt_Reset interval t = t\<lparr>i_expiryTime := interval\<rparr>"

definition tt_GetExpiry :: "time_tracker \<Rightarrow> int" where
  "tt_GetExpiry t = i_expiryTime t"

subsection \<open>PeriodicTimer\<close>

text \<open>
  \<open>TimeTrackerSmall\<close>: the same on an \<open>int32\<close>. The subtraction must not overflow; where it does, the
  language leaves the result open and the model takes it modulo \<open>2 ^ 32\<close>.
\<close>

record time_tracker_small =
  i_smallExpiry :: uint32

definition ts_new :: "uint32 \<Rightarrow> time_tracker_small" where
  "ts_new expiry = \<lparr>i_smallExpiry = expiry\<rparr>"

definition ts_Update :: "uint32 \<Rightarrow> time_tracker_small \<Rightarrow> time_tracker_small" where
  "ts_Update diff t = t\<lparr>i_smallExpiry := i_smallExpiry t - diff\<rparr>"

definition ts_Passed :: "time_tracker_small \<Rightarrow> bool" where
  "ts_Passed t = (sint (i_smallExpiry t) \<le> 0)"

definition ts_Reset :: "uint32 \<Rightarrow> time_tracker_small \<Rightarrow> time_tracker_small" where
  "ts_Reset interval t = t\<lparr>i_smallExpiry := interval\<rparr>"

definition ts_GetExpiry :: "time_tracker_small \<Rightarrow> int" where
  "ts_GetExpiry t = sint (i_smallExpiry t)"

text \<open>
  Both fields are \<open>int32\<close>; \<open>Update\<close> takes a \<open>uint32\<close>, so its arithmetic is modulo \<open>2 ^ 32\<close> and its
  comparisons are signed.
\<close>

record periodic_timer =
  i_period :: uint32
  i_expireTime :: uint32

definition pt_new :: "uint32 \<Rightarrow> uint32 \<Rightarrow> periodic_timer" where
  "pt_new period start_time = \<lparr>i_period = period, i_expireTime = start_time\<rparr>"

definition pt_Update :: "uint32 \<Rightarrow> periodic_timer \<Rightarrow> periodic_timer \<times> bool" where
  "pt_Update diff t =
     (let t1 = t\<lparr>i_expireTime := i_expireTime t - diff\<rparr> in
      if sint (i_expireTime t1) > 0 then (t1, False)
      else (t1\<lparr>i_expireTime := i_expireTime t1 + (if sint (i_period t1) > sint diff then i_period t1 else diff)\<rparr>,
            True))"

definition pt_SetPeriodic :: "uint32 \<Rightarrow> uint32 \<Rightarrow> periodic_timer \<Rightarrow> periodic_timer" where
  "pt_SetPeriodic period start_time t = t\<lparr>i_expireTime := start_time, i_period := period\<rparr>"

definition pt_TUpdate :: "uint32 \<Rightarrow> periodic_timer \<Rightarrow> periodic_timer" where
  "pt_TUpdate diff t = t\<lparr>i_expireTime := i_expireTime t - diff\<rparr>"

definition pt_TPassed :: "periodic_timer \<Rightarrow> bool" where
  "pt_TPassed t = (sint (i_expireTime t) \<le> 0)"

definition pt_TReset :: "uint32 \<Rightarrow> uint32 \<Rightarrow> periodic_timer \<Rightarrow> periodic_timer" where
  "pt_TReset diff period t =
     t\<lparr>i_expireTime := i_expireTime t + (if sint period > sint diff then period else diff)\<rparr>"

subsection \<open>Durations from text\<close>

definition is_digit :: "char \<Rightarrow> bool" where
  "is_digit c \<longleftrightarrow> 48 \<le> (of_char c :: nat) \<and> (of_char c :: nat) \<le> 57"

definition MINUTE where "MINUTE = (60 :: nat)"
definition HOUR where "HOUR = MINUTE * 60"
definition DAY where "DAY = HOUR * 24"

definition unit_multiplier :: "char \<Rightarrow> uint32 option" where
  "unit_multiplier itr =
     (if itr = CHR ''d'' then Some (of_nat DAY)
      else if itr = CHR ''h'' then Some (of_nat HOUR)
      else if itr = CHR ''m'' then Some (of_nat MINUTE)
      else if itr = CHR ''s'' then Some 1
      else None)"

text \<open>The loop: \<open>secs\<close> and \<open>buffer\<close>; a character that is neither digit nor unit gives 0 at once.\<close>

primrec time_string_loop :: "string \<Rightarrow> uint32 \<Rightarrow> uint32 \<Rightarrow> uint32" where
  "time_string_loop [] secs buffer = secs"
| "time_string_loop (itr # rest) secs buffer =
     (if is_digit itr then time_string_loop rest secs (buffer * 10 + (of_nat (of_char itr) - 48))
      else case unit_multiplier itr of
             None \<Rightarrow> 0
           | Some multiplier \<Rightarrow> time_string_loop rest (secs + buffer * multiplier) 0)"

definition TimeStringTo :: "string \<Rightarrow> uint32" where
  "TimeStringTo timeString = time_string_loop timeString 0 0"

subsection \<open>Durations to text\<close>

datatype time_format = FullText | ShortText | Numeric

datatype time_output = Days | Hours | Minutes | Seconds | Milliseconds | Microseconds

text \<open>
  \<open>fmt::format\<close> on numbers: \<open>Inl\<close> the message of a \<open>format_error\<close>, \<open>Inr\<close> the text.
\<close>

type_synonym fmt_fun = "string \<Rightarrow> nat list \<Rightarrow> string + string"

definition StringFormatFmt :: "fmt_fun \<Rightarrow> string \<Rightarrow> nat list \<Rightarrow> string" where
  "StringFormatFmt fmt f args =
     (case fmt f args of
        Inr s \<Rightarrow> s
      | Inl what \<Rightarrow> ''An error occurred formatting string '' @ [CHR 0x22] @ f @ [CHR 0x22] @ '' : '' @ what)"

definition TD_MILLISECONDS where "TD_MILLISECONDS = (1000 :: uint64)"
definition TD_SECONDS where "TD_SECONDS = 1000 * TD_MILLISECONDS"
definition TD_MINUTES where "TD_MINUTES = 60 * TD_SECONDS"
definition TD_HOURS where "TD_HOURS = 60 * TD_MINUTES"
definition TD_DAYS where "TD_DAYS = 24 * TD_HOURS"

definition numeric_time :: "fmt_fun \<Rightarrow> nat \<Rightarrow> nat \<Rightarrow> nat \<Rightarrow> nat \<Rightarrow> nat \<Rightarrow> nat \<Rightarrow> string" where
  "numeric_time fmt days hours minutes secs millisecs microsecs =
     (if days \<noteq> 0 then StringFormatFmt fmt ''{}:{:02}:{:02}:{:02}:{:02}:{:02}'' [days, hours, minutes, secs, millisecs]
      else if hours \<noteq> 0 then StringFormatFmt fmt ''{}:{:02}:{:02}:{:02}:{:02}'' [hours, minutes, secs, millisecs]
      else if minutes \<noteq> 0 then StringFormatFmt fmt ''{}:{:02}:{:02}:{:02}'' [minutes, secs, millisecs]
      else if secs \<noteq> 0 then StringFormatFmt fmt ''{}:{:02}:{:02}'' [secs, millisecs]
      else if millisecs \<noteq> 0 then StringFormatFmt fmt ''{}:{:02}'' [millisecs]
      else StringFormatFmt fmt ''{}'' [microsecs])"

definition GetStringFormat :: "time_format \<Rightarrow> nat \<Rightarrow> string \<Rightarrow> string \<Rightarrow> string \<Rightarrow> string" where
  "GetStringFormat timeFormat timeType shortText fullText1 fullText =
     dec_digits timeType @
     (case timeFormat of
        ShortText \<Rightarrow> shortText
      | FullText \<Rightarrow> (if timeType = 1 then fullText1 else fullText)
      | Numeric \<Rightarrow> ''<Unknown time format>'')"

text \<open>
  One unit after the other is appended to the stream when it is not zero, and the text so far is
  kept when the unit is the one asked for.
\<close>

primrec text_time ::
  "time_format \<Rightarrow> time_output \<Rightarrow> (time_output \<times> nat \<times> string \<times> string \<times> string) list \<Rightarrow> string \<Rightarrow> string \<Rightarrow> string" where
  "text_time timeFormat timeOutput [] ss stringTime = stringTime"
| "text_time timeFormat timeOutput (u # us) ss stringTime =
     (case u of (output, n, shortText, fullText1, fullText) \<Rightarrow>
       let ss1 = (if n \<noteq> 0 then ss @ GetStringFormat timeFormat n shortText fullText1 fullText else ss)
       in text_time timeFormat timeOutput us ss1 (if timeOutput = output then ss1 else stringTime))"

definition ToTimeString :: "fmt_fun \<Rightarrow> uint64 \<Rightarrow> time_output \<Rightarrow> time_format \<Rightarrow> string" where
  "ToTimeString fmt durationTime timeOutput timeFormat =
     (let microsecs = unat (durationTime mod 1000);
          millisecs = unat ((durationTime div TD_MILLISECONDS) mod 1000);
          secs = unat ((durationTime div TD_SECONDS) mod 60);
          minutes = unat ((durationTime div TD_MINUTES) mod 60);
          hours = unat ((durationTime div TD_HOURS) mod 24);
          days = unat (durationTime div TD_DAYS)
      in if timeFormat = Numeric then numeric_time fmt days hours minutes secs millisecs microsecs
         else trim_right_in_place (text_time timeFormat timeOutput
           [(Days, days, ''d '', '' Day '', '' Days ''),
            (Hours, hours, ''h '', '' Hour '', '' Hours ''),
            (Minutes, minutes, ''m '', '' Minute '', '' Minutes ''),
            (Seconds, secs, ''s '', '' Second '', '' Seconds ''),
            (Milliseconds, millisecs, ''ms '', '' Millisecond '', '' Milliseconds ''),
            (Microseconds, microsecs, ''us '', '' MicroSecond '', '' MicroSeconds '')] [] []))"

definition ToTimeString_ms :: "fmt_fun \<Rightarrow> uint64 \<Rightarrow> time_output \<Rightarrow> time_format \<Rightarrow> string" where
  "ToTimeString_ms fmt durationTime = ToTimeString fmt (durationTime * TD_MILLISECONDS)"

definition ToTimeString_s :: "fmt_fun \<Rightarrow> uint64 \<Rightarrow> time_output \<Rightarrow> time_format \<Rightarrow> string" where
  "ToTimeString_s fmt durationTime = ToTimeString fmt (durationTime * TD_SECONDS)"

definition ToTimeString_m :: "fmt_fun \<Rightarrow> uint64 \<Rightarrow> time_output \<Rightarrow> time_format \<Rightarrow> string" where
  "ToTimeString_m fmt durationTime = ToTimeString fmt (durationTime * TD_MINUTES)"

definition ToTimeString_text :: "fmt_fun \<Rightarrow> string \<Rightarrow> time_output \<Rightarrow> time_format \<Rightarrow> string" where
  "ToTimeString_text fmt durationTime = ToTimeString_s fmt (ucast (TimeStringTo durationTime))"

subsection \<open>Calendar\<close>

record tm =
  tm_sec :: int
  tm_min :: int
  tm_hour :: int
  tm_mday :: int
  tm_mon :: int
  tm_year :: int
  tm_wday :: int
  tm_yday :: int

text \<open>The C library: the clock in seconds, \<open>localtime\<close> and \<open>mktime\<close>.\<close>

record clib =
  now_epoch :: int
  localtime :: "int \<Rightarrow> tm"
  mktime :: "tm \<Rightarrow> int"
  timezone :: int

definition TimeBreakdown :: "clib \<Rightarrow> int \<Rightarrow> tm" where
  "TimeBreakdown lc time = localtime lc (if time = 0 then now_epoch lc else time)"

definition LocalTimeToUTCTime :: "clib \<Rightarrow> int \<Rightarrow> int" where
  "LocalTimeToUTCTime lc time = time + timezone lc"

definition GetLocalHourTimestamp :: "clib \<Rightarrow> int \<Rightarrow> uint8 \<Rightarrow> bool \<Rightarrow> int" where
  "GetLocalHourTimestamp lc time hour onlyAfterTime =
     (let timeLocal = (TimeBreakdown lc time)\<lparr>tm_hour := 0, tm_min := 0, tm_sec := 0\<rparr>;
          midnightLocal = mktime lc timeLocal;
          hourLocal = midnightLocal + uint hour * int HOUR
      in if onlyAfterTime \<and> hourLocal \<le> time then hourLocal + int DAY else hourLocal)"

text \<open>\<open>add\<close> is a \<open>uint32\<close>; the days are between 1 and 7, so it never wraps.\<close>

definition GetNextTimeWithDayAndHour :: "clib \<Rightarrow> int \<Rightarrow> int \<Rightarrow> int" where
  "GetNextTimeWithDayAndHour lc dayOfWeek hour =
     (let hour = (if hour < 0 \<or> hour > 23 then 0 else hour);
          localTm = (TimeBreakdown lc 0)\<lparr>tm_hour := hour, tm_min := 0, tm_sec := 0\<rparr>;
          dayOfWeek = (if dayOfWeek < 0 \<or> dayOfWeek > 6 then (tm_wday localTm + 1) mod 7 else dayOfWeek);
          add = (if tm_wday localTm \<ge> dayOfWeek then (7 - (tm_wday localTm - dayOfWeek)) * int DAY
                 else (dayOfWeek - tm_wday localTm) * int DAY)
      in mktime lc localTm + add mod 2 ^ 32)"

definition next_month_tm :: "clib \<Rightarrow> int \<Rightarrow> int \<Rightarrow> tm" where
  "next_month_tm lc month hour =
     (let hour = (if hour < 0 \<or> hour > 23 then 0 else hour);
          localTm = (TimeBreakdown lc 0)\<lparr>tm_mday := 1, tm_hour := hour, tm_min := 0, tm_sec := 0\<rparr>
      in if month < 0 \<or> month > 11 then
           (let month = (tm_mon localTm + 1) mod 12 in
            (if month = 0 then localTm\<lparr>tm_year := tm_year localTm + 1\<rparr> else localTm)\<lparr>tm_mon := month\<rparr>)
         else
           (if tm_mon localTm \<ge> month then localTm\<lparr>tm_year := tm_year localTm + 1\<rparr> else localTm)\<lparr>tm_mon := month\<rparr>)"

definition GetNextTimeWithMonthAndHour :: "clib \<Rightarrow> int \<Rightarrow> int \<Rightarrow> int" where
  "GetNextTimeWithMonthAndHour lc month hour = mktime lc (next_month_tm lc month hour)"

definition GetSeconds :: "clib \<Rightarrow> int \<Rightarrow> uint32" where
  "GetSeconds lc time = of_int (tm_sec (TimeBreakdown lc (if time = 0 then now_epoch lc else time)))"

definition GetMinutes :: "clib \<Rightarrow> int \<Rightarrow> uint32" where
  "GetMinutes lc time = of_int (tm_min (TimeBreakdown lc (if time = 0 then now_epoch lc else time)))"

definition GetHours :: "clib \<Rightarrow> int \<Rightarrow> uint32" where
  "GetHours lc time = of_int (tm_hour (TimeBreakdown lc (if time = 0 then now_epoch lc else time)))"

definition GetDayInWeek :: "clib \<Rightarrow> int \<Rightarrow> uint32" where
  "GetDayInWeek lc time = of_int (tm_wday (TimeBreakdown lc (if time = 0 then now_epoch lc else time)))"

definition GetDayInMonth :: "clib \<Rightarrow> int \<Rightarrow> uint32" where
  "GetDayInMonth lc time = of_int (tm_mday (TimeBreakdown lc (if time = 0 then now_epoch lc else time)))"

definition GetDayInYear :: "clib \<Rightarrow> int \<Rightarrow> uint32" where
  "GetDayInYear lc time = of_int (tm_yday (TimeBreakdown lc (if time = 0 then now_epoch lc else time)))"

definition GetMonth :: "clib \<Rightarrow> int \<Rightarrow> uint32" where
  "GetMonth lc time = of_int (tm_mon (TimeBreakdown lc (if time = 0 then now_epoch lc else time)))"

definition GetYear :: "clib \<Rightarrow> int \<Rightarrow> uint32" where
  "GetYear lc time = of_int (tm_year (TimeBreakdown lc (if time = 0 then now_epoch lc else time)))"

text \<open>The format strings of the two printers; \<open>put_time\<close> is the C++ library.\<close>

definition TimeToTimestampStr :: "(tm \<Rightarrow> string \<Rightarrow> string) \<Rightarrow> clib \<Rightarrow> int \<Rightarrow> string \<Rightarrow> string" where
  "TimeToTimestampStr put_time lc time fmt =
     put_time (localtime lc time) (if fmt = [] then ''%Y-%m-%d %X'' else fmt)"

definition TimeToHumanReadable :: "(tm \<Rightarrow> string \<Rightarrow> string) \<Rightarrow> clib \<Rightarrow> int \<Rightarrow> string \<Rightarrow> string" where
  "TimeToHumanReadable put_time lc time fmt =
     put_time (localtime lc time) (if fmt = [] then ''%a %b %d %Y %X'' else fmt)"


subsection \<open>Lemmas\<close>

lemma is_digit_iff: "is_digit c \<longleftrightarrow> digit_in_base 10 c"
  by (auto simp: is_digit_def digit_in_base_def digit_value_def Let_def)

lemma digit_value_is_digit: "is_digit c \<Longrightarrow> digit_value c = Some (of_char c - 48)"
  by (simp add: is_digit_def digit_value_def Let_def)

lemma time_string_digits:
  assumes "list_all is_digit ds"
  shows "time_string_loop (ds @ rest) s 0 = time_string_loop rest s (of_nat (digits_value 10 ds))"
proof -
  have step: "time_string_loop (ds @ rest) s b =
      time_string_loop rest s (foldl (\<lambda>v c. v * 10 + (of_nat (of_char c) - 48)) b ds)" for b
    using assms by (induction ds arbitrary: b) auto
  have "foldl (\<lambda>v c. v * 10 + (of_nat (of_char c) - 48)) 0 ds = (of_nat (digits_value 10 ds) :: uint32)"
    using assms
  proof (induction ds rule: rev_induct)
    case (snoc c ds)
    then have c: "is_digit c" by simp
    then have "(of_nat (of_char c - 48) :: uint32) = of_nat (of_char c) - 48"
      by (simp add: is_digit_def of_nat_diff)
    with snoc c show ?case
      by (simp add: digits_value_snoc digit_value_is_digit algebra_simps)
  qed (simp add: digits_value_def)
  then show ?thesis by (simp add: step)
qed

lemma dec_digits_are_digits: "list_all is_digit (dec_digits n)"
  using dec_digits_in_base [of n] by (simp add: is_digit_iff [abs_def])

lemma time_string_unit:
  assumes "\<not> is_digit u" and "unit_multiplier u = Some m"
  shows "time_string_loop (dec_digits n @ u # rest) s 0 = time_string_loop rest (s + of_nat n * m) 0"
  using assms by (simp add: time_string_digits [OF dec_digits_are_digits])

lemma time_units [simp]:
  "\<not> is_digit CHR ''d''" "\<not> is_digit CHR ''h''" "\<not> is_digit CHR ''m''" "\<not> is_digit CHR ''s''"
  "unit_multiplier CHR ''d'' = Some 86400" "unit_multiplier CHR ''h'' = Some 3600"
  "unit_multiplier CHR ''m'' = Some 60" "unit_multiplier CHR ''s'' = Some 1"
  by (simp_all add: is_digit_def unit_multiplier_def DAY_def HOUR_def MINUTE_def)

lemma time_string_bad:
  "\<exists>c \<in> set str. \<not> is_digit c \<and> unit_multiplier c = None \<Longrightarrow> time_string_loop str s b = 0"
  by (induction str arbitrary: s b) (auto split: option.splits)

subsection \<open>Properties\<close>

text \<open>
  The elapsed time between two readings of the 32-bit millisecond counter is exact as long as
  the counter did not wrap, and one millisecond short when it did.
\<close>

theorem ms_diff_wrap:
  "getMSTimeDiff old (old + d) = (if old + d < old then d - 1 else d)"
  by (simp add: getMSTimeDiff_def)

text \<open>
  A duration written as days, hours, minutes and seconds without blanks is read as the total
  number of seconds modulo \<open>2 ^ 32\<close>; any character that is neither digit nor unit, a blank
  included, makes the whole text 0. So what \<open>ToTimeString\<close> prints is not read back.
\<close>

theorem time_string_value:
  "TimeStringTo (dec_digits d @ ''d'' @ dec_digits h @ ''h'' @ dec_digits m @ ''m'' @ dec_digits s @ ''s'') =
     of_nat (d * 86400 + h * 3600 + m * 60 + s) \<and>
   TimeStringTo (t @ '' '' @ u) = 0"
proof
  show "TimeStringTo (dec_digits d @ ''d'' @ dec_digits h @ ''h'' @ dec_digits m @ ''m'' @ dec_digits s @ ''s'') =
     of_nat (d * 86400 + h * 3600 + m * 60 + s)"
    by (simp add: TimeStringTo_def time_string_unit)
  have "\<exists>c \<in> set (t @ '' '' @ u). \<not> is_digit c \<and> unit_multiplier c = None"
    by (intro bexI [of _ "CHR '' ''"]) (simp_all add: is_digit_def unit_multiplier_def)
  then show "TimeStringTo (t @ '' '' @ u) = 0" by (simp only: TimeStringTo_def time_string_bad)
qed

primrec interval_run :: "int list \<Rightarrow> interval_timer \<Rightarrow> interval_timer outcome" where
  "interval_run [] t = Ret t"
| "interval_run (d # ds) t =
     (let t1 = it_Update d t in
      bind_outcome (if it_Passed t1 then it_Reset t1 else Ret t1) (interval_run ds))"

lemma it_step:
  assumes "0 < it_interval t" and "0 \<le> d" and "0 \<le> it_current t" and "it_current t < it_interval t"
  shows "(if it_Passed (it_Update d t) then it_Reset (it_Update d t) else Ret (it_Update d t)) =
    Ret (t\<lparr>it_current := (it_current t + d) mod it_interval t\<rparr>)"
  using assms
  by (auto simp: it_Passed_def it_Update_def it_Reset_def c_rem_def Let_def sgn_if)

lemma interval_run_eq:
  assumes "0 < it_interval t" and "list_all (\<lambda>d. 0 \<le> d) ds" and "0 \<le> it_current t" and "it_current t < it_interval t"
  shows "interval_run ds t = Ret (t\<lparr>it_current := (it_current t + sum_list ds) mod it_interval t\<rparr>)"
  using assms
proof (induction ds arbitrary: t)
  case (Cons d ds)
  let ?t = "t\<lparr>it_current := (it_current t + d) mod it_interval t\<rparr>"
  have d: "0 \<le> d" using Cons.prems by simp
  have "interval_run (d # ds) t = interval_run ds ?t"
    unfolding interval_run.simps Let_def it_step [OF Cons.prems(1) d Cons.prems(3,4)] by simp
  also have "\<dots> = Ret (?t\<lparr>it_current := (it_current ?t + sum_list ds) mod it_interval ?t\<rparr>)"
    by (rule Cons.IH) (use Cons.prems in simp_all)
  also have "\<dots> = Ret (t\<lparr>it_current := (it_current t + sum_list (d # ds)) mod it_interval t\<rparr>)"
    by (simp add: mod_add_left_eq add.assoc)
  finally show ?case .
qed simp

text \<open>
  An interval timer that is reset whenever it has passed does not drift: after any updates by
  non-negative amounts the time left over is the total elapsed time modulo the interval. A timer
  whose interval was never set has always passed, and resetting it divides by zero.
\<close>

theorem interval_timer_no_drift:
  assumes "0 < interval" and "list_all (\<lambda>d. 0 \<le> d) ds"
  shows "interval_run ds (it_SetInterval interval it_new) =
      Ret \<lparr>it_interval = interval, it_current = sum_list ds mod interval\<rparr> \<and>
    it_Passed it_new \<and> it_Reset it_new = Crash DivByZero"
  using interval_run_eq [of "it_SetInterval interval it_new" ds] assms
  by (simp add: it_SetInterval_def it_new_def it_Passed_def it_Reset_def)

theorem interval_timer_no_drift_witness:
  "interval_run [30, 80, 7] (it_SetInterval 50 it_new) = Ret \<lparr>it_interval = 50, it_current = 17\<rparr>"
  using interval_timer_no_drift [of 50 "[30, 80, 7]"] by simp

text \<open>The number of replacement fields of a format string without literal braces.\<close>

definition fields :: "string \<Rightarrow> nat" where
  "fields f = length (filter (\<lambda>c. c = CHR ''{'') f)"

text \<open>
  In the numeric format every duration of a millisecond or more comes out as an error text: the
  format strings have more fields than arguments. The hypothesis is the documented behaviour of
  \<open>fmt::format\<close> when arguments are missing.
\<close>

theorem numeric_time_is_an_error:
  assumes "\<forall>f args. length args < fields f \<longrightarrow> fmt f args = Inl (what f args)"
    and "1000 \<le> unat d"
  shows "take 35 (ToTimeString fmt d timeOutput Numeric) = ''An error occurred formatting string''"
proof -
  have err: "StringFormatFmt fmt f args =
      ''An error occurred formatting string '' @ [CHR 0x22] @ f @ [CHR 0x22] @ '' : '' @ what f args"
    if "length args < fields f" for f args
    using assms(1) that by (simp add: StringFormatFmt_def)
  define n where "n = unat d"
  have units: "unat (d div TD_DAYS) = n div 86400000000"
    "unat ((d div TD_HOURS) mod 24) = (n div 3600000000) mod 24"
    "unat ((d div TD_MINUTES) mod 60) = (n div 60000000) mod 60"
    "unat ((d div TD_SECONDS) mod 60) = (n div 1000000) mod 60"
    "unat ((d div TD_MILLISECONDS) mod 1000) = (n div 1000) mod 1000"
    by (simp_all add: n_def TD_DAYS_def TD_HOURS_def TD_MINUTES_def TD_SECONDS_def TD_MILLISECONDS_def
        unat_div unat_mod)
  have carry: "x mod k \<noteq> 0 \<or> x div k \<noteq> 0" if "x \<noteq> 0" for x k :: nat
    using that by (metis add_0 div_mult_mod_eq mult_0)
  have div: "n div 1000000 = n div 1000 div 1000" "n div 60000000 = n div 1000000 div 60"
    "n div 3600000000 = n div 60000000 div 60" "n div 86400000000 = n div 3600000000 div 24"
    by (simp_all flip: div_mult2_eq)
  have "n div 1000 \<noteq> 0" using assms(2) unfolding n_def [symmetric] by simp
  then have "n div 86400000000 \<noteq> 0 \<or> (n div 3600000000) mod 24 \<noteq> 0 \<or> (n div 60000000) mod 60 \<noteq> 0 \<or>
      (n div 1000000) mod 60 \<noteq> 0 \<or> (n div 1000) mod 1000 \<noteq> 0"
    using carry div by metis
  then show ?thesis
    by (auto simp: ToTimeString_def numeric_time_def Let_def units err fields_def)
qed


theorem numeric_time_is_an_error_witness:
  "take 35 (ToTimeString (\<lambda>f args. if length args < fields f then Inl ''argument not found'' else Inr ''ok'')
     1500000 Seconds Numeric) = ''An error occurred formatting string''"
  by (rule numeric_time_is_an_error [where what = "\<lambda>f args. ''argument not found''"]) simp_all

text \<open>
  The next time with a given week day and hour is the hour of today moved by one to seven days
  to a day with that week day; a day out of range means tomorrow. It is never today, even when the
  hour is still to come.
\<close>

theorem next_week_day:
  assumes "w = tm_wday (TimeBreakdown lc 0)" and "0 \<le> w" and "w \<le> 6"
  shows "\<exists>k. 1 \<le> k \<and> k \<le> 7 \<and> (w + k) mod 7 = (if day < 0 \<or> day > 6 then (w + 1) mod 7 else day) \<and>
    GetNextTimeWithDayAndHour lc day hour =
      mktime lc ((TimeBreakdown lc 0)\<lparr>tm_hour := if hour < 0 \<or> hour > 23 then 0 else hour, tm_min := 0, tm_sec := 0\<rparr>)
      + k * 86400"
proof -
  define target where "target = (if day < 0 \<or> day > 6 then (w + 1) mod 7 else day)"
  define k where "k = (if w \<ge> target then 7 - (w - target) else target - w)"
  have t: "0 \<le> target" "target \<le> 6"
    using pos_mod_bound [of 7 "w + 1"] by (auto simp: target_def simp del: pos_mod_bound)
  then have k: "1 \<le> k" "k \<le> 7" using assms(2,3) by (simp_all add: k_def)
  have "(w + k) mod 7 = target"
    using t by (simp add: k_def)
  moreover have "k * 86400 mod 2 ^ 32 = k * 86400" using k by simp
  moreover have "(if w \<ge> target then (7 - (w - target)) * int DAY else (target - w) * int DAY) = k * 86400"
    by (simp add: k_def DAY_def HOUR_def MINUTE_def)
  moreover have "GetNextTimeWithDayAndHour lc day hour =
      mktime lc ((TimeBreakdown lc 0)\<lparr>tm_hour := if hour < 0 \<or> hour > 23 then 0 else hour, tm_min := 0, tm_sec := 0\<rparr>)
      + (if w \<ge> target then (7 - (w - target)) * int DAY else (target - w) * int DAY) mod 2 ^ 32"
    unfolding GetNextTimeWithDayAndHour_def Let_def target_def assms(1) by simp
  ultimately show ?thesis
    using k unfolding target_def [symmetric] by (intro exI [of _ k] conjI) (assumption | simp only:)+
qed

definition sample_clib :: clib where
  "sample_clib = \<lparr>now_epoch = 1700000000,
     localtime = (\<lambda>t. \<lparr>tm_sec = t mod 60, tm_min = t div 60 mod 60, tm_hour = t div 3600 mod 24,
       tm_mday = 1 + t div 86400 mod 28, tm_mon = t div 2419200 mod 12, tm_year = t div 29030400,
       tm_wday = (t div 86400 + 4) mod 7, tm_yday = t div 86400 mod 336\<rparr>),
     mktime = (\<lambda>b. tm_sec b + 60 * tm_min b + 3600 * tm_hour b + 86400 * (tm_mday b - 1) +
       2419200 * tm_mon b + 29030400 * tm_year b),
     timezone = 0\<rparr>"

theorem next_week_day_witness:
  "\<exists>k. 1 \<le> k \<and> k \<le> 7 \<and> (2 + k) mod 7 = 2 \<and> GetNextTimeWithDayAndHour sample_clib 2 6 =
     mktime sample_clib ((TimeBreakdown sample_clib 0)\<lparr>tm_hour := 6, tm_min := 0, tm_sec := 0\<rparr>) + k * 86400"
proof -
  have "tm_wday (TimeBreakdown sample_clib 0) = 2" by (simp add: sample_clib_def TimeBreakdown_def)
  from next_week_day [OF this [symmetric], of 2 6] show ?thesis by simp
qed

end
