(* ===== verification/Operations.thy ===== *)
theory Operations
  imports Connection_Facts Async_Query Timers
begin

section \<open>The operations of the queue (Transaction.h/.cpp, AdhocStatement.cpp, PreparedStatement.cpp, DatabaseWorkerPool.cpp)\<close>

text \<open>
  What the worker threads run on their connection: transactions, with the retries after a
  deadlock, statements given as text, prepared statements, query holders and pings. The clock is
  a parameter: \<open>clock n\<close> is what \<open>GetTimeMS\<close> gives the \<open>n\<close>-th time. The text an operation prints and
  the lock of the retry loop are left out.
\<close>

subsection \<open>Transactions\<close>

text \<open>
  \<open>tx_deleted\<close> are the pointers of the statements that have been deleted, in order; a pointer stands
  for one object for good. \<open>Cleanup\<close> gives up in the middle when a tag does not fit its variant, and
  then leaves the elements in the vector.
\<close>

record transaction =
  tx_queries :: "sql_data list"
  tx_cleanedUp :: bool
  tx_deleted :: "nat list"

definition tx_new :: transaction where
  "tx_new = \<lparr>tx_queries = [], tx_cleanedUp = False, tx_deleted = []\<rparr>"

definition tx_Append :: "string \<Rightarrow> transaction \<Rightarrow> transaction" where
  "tx_Append sql t = t\<lparr>tx_queries := tx_queries t @ [\<lparr>sd_element = ElemString sql, sd_type = SQL_ELEMENT_RAW, sd_ptr = 0\<rparr>]\<rparr>"

definition AppendPreparedStatement :: "nat \<Rightarrow> stmt option \<Rightarrow> transaction \<Rightarrow> transaction" where
  "AppendPreparedStatement ptr st t =
     t\<lparr>tx_queries := tx_queries t @ [\<lparr>sd_element = ElemStmt st, sd_type = SQL_ELEMENT_PREPARED, sd_ptr = ptr\<rparr>]\<rparr>"

definition tx_GetSize :: "transaction \<Rightarrow> nat" where
  "tx_GetSize t = length (tx_queries t)"

text \<open>The loop of \<open>Cleanup\<close> from position \<open>i\<close>; whether it came to the end.\<close>

primrec cleanup_loop :: "sql_data list \<Rightarrow> nat \<Rightarrow> transaction \<Rightarrow> (bool \<times> transaction) outcome" where
  "cleanup_loop [] i t = Ret (True, t)"
| "cleanup_loop (d # ds) i t =
     (case sd_type d of
        SQL_ELEMENT_PREPARED \<Rightarrow>
          (case sd_element d of
             ElemString s \<Rightarrow> Ret (False, t)
           | ElemStmt None \<Rightarrow> Crash (AssertFail ''stmt'')
           | ElemStmt (Some st) \<Rightarrow>
               if sd_ptr d \<in> set (tx_deleted t) then Crash DoubleFree
               else cleanup_loop ds (i + 1) (t\<lparr>tx_deleted := tx_deleted t @ [sd_ptr d]\<rparr>))
      | SQL_ELEMENT_RAW \<Rightarrow>
          (case sd_element d of
             ElemStmt st \<Rightarrow> Ret (False, t)
           | ElemString s \<Rightarrow>
               cleanup_loop ds (i + 1) (t\<lparr>tx_queries := (tx_queries t)[i := d\<lparr>sd_element := ElemString []\<rparr>]\<rparr>)))"

definition Cleanup :: "transaction \<Rightarrow> transaction outcome" where
  "Cleanup t =
     (if tx_cleanedUp t then Ret t
      else bind_outcome (cleanup_loop (tx_queries t) 0 t) (\<lambda>(finished, t').
        Ret (if finished then t'\<lparr>tx_queries := [], tx_cleanedUp := True\<rparr> else t')))"

subsection \<open>The transaction tasks\<close>

definition DEADLOCK_MAX_RETRY_TIME_MS :: int where "DEADLOCK_MAX_RETRY_TIME_MS = 60000"

definition TryExecute :: "mysql \<Rightarrow> transaction \<Rightarrow> conn \<Rightarrow> (tx_code \<times> conn) outcome option" where
  "TryExecute env t c = ExecuteTransaction env (tx_queries t) c"

definition CleanupOnFailure :: "transaction \<Rightarrow> transaction outcome" where
  "CleanupOnFailure t = Cleanup t"

text \<open>
  The retries; the \<open>n\<close>-th reading of the clock is the next one, and \<open>loopDuration\<close> the time since
  the first. Every code other than 0 is tried again, not only a deadlock.
\<close>

partial_function (option) retry_loop ::
  "mysql \<Rightarrow> (nat \<Rightarrow> int) \<Rightarrow> transaction \<Rightarrow> nat \<Rightarrow> int \<Rightarrow> conn \<Rightarrow> (bool \<times> conn) outcome option" where
  "retry_loop env clock t n loopDuration c =
     (if loopDuration > DEADLOCK_MAX_RETRY_TIME_MS then Some (Ret (False, c))
      else
        (case TryExecute env t c of
           None \<Rightarrow> None
         | Some r \<Rightarrow>
             (case r of
                Crash k \<Rightarrow> Some (Crash k)
              | Ret (code, c') \<Rightarrow>
                  if code = Code NoErrno then Some (Ret (True, c'))
                  else retry_loop env clock t (Suc n) (GetMSTimeDiff (clock 0) (clock n)) c')))"

definition TransactionTask_Execute ::
  "mysql \<Rightarrow> (nat \<Rightarrow> int) \<Rightarrow> transaction \<Rightarrow> conn \<Rightarrow> (bool \<times> transaction \<times> conn) outcome option" where
  "TransactionTask_Execute env clock t c =
     bind_run (TryExecute env t c) (\<lambda>(errorCode, c).
       if errorCode = Code NoErrno then Some (Ret (True, t, c))
       else
         bind_run (if errorCode = Code ER_LOCK_DEADLOCK then retry_loop env clock t 1 0 c else Some (Ret (False, c)))
           (\<lambda>(ok, c).
             if ok then Some (Ret (True, t, c))
             else Some (bind_outcome (CleanupOnFailure t) (\<lambda>t. Ret (False, t, c)))))"

text \<open>The task of \<open>AsyncCommitTransaction\<close>: the same, and the promise is set on every path that returns.\<close>

definition TransactionWithResultTask_Execute ::
  "mysql \<Rightarrow> (nat \<Rightarrow> int) \<Rightarrow> transaction \<Rightarrow> conn \<Rightarrow> (bool \<times> bool future \<times> transaction \<times> conn) outcome option" where
  "TransactionWithResultTask_Execute env clock t c =
     bind_run (TryExecute env t c) (\<lambda>(errorCode, c).
       if errorCode = Code NoErrno then Some (Ret (True, FReady True, t, c))
       else
         bind_run (if errorCode = Code ER_LOCK_DEADLOCK then retry_loop env clock t 1 0 c else Some (Ret (False, c)))
           (\<lambda>(ok, c).
             if ok then Some (Ret (True, FReady True, t, c))
             else Some (bind_outcome (CleanupOnFailure t) (\<lambda>t. Ret (False, FReady False, t, c)))))"

text \<open>\<open>TransactionCallback::InvokeIfReady\<close>: \<open>get\<close> leaves the future invalid, so the callback runs once.\<close>

definition tc_InvokeIfReady :: "bool future \<Rightarrow> (bool option \<times> bool future \<times> bool)" where
  "tc_InvokeIfReady fut =
     (case fut of FReady success \<Rightarrow> (Some success, FInvalid, True) | _ \<Rightarrow> (None, fut, False))"

subsection \<open>Statements given as text\<close>

text \<open>\<open>None\<close>: the task has no promise; \<open>Some\<close> of the future it fulfils.\<close>

record basic_task =
  bt_sql :: string
  bt_has_result :: bool
  bt_result :: "result_set option future option"

definition BasicStatementTask :: "string \<Rightarrow> bool \<Rightarrow> basic_task" where
  "BasicStatementTask sql async =
     \<lparr>bt_sql = sql, bt_has_result = async, bt_result = (if async then Some FPending else None)\<rparr>"

text \<open>\<open>!result || !result->GetRowCount() || !result->NextRow()\<close>; the result that is handed on.\<close>

definition first_row :: "result_set option \<Rightarrow> result_set option outcome" where
  "first_row result =
     (case result of
        None \<Rightarrow> Ret None
      | Some rs \<Rightarrow>
          if rs_rowCount rs = 0 then Ret None
          else bind_outcome (rs_NextRow rs) (\<lambda>(ok, rs'). Ret (if ok then Some rs' else None)))"

definition BasicStatementTask_Execute ::
  "mysql \<Rightarrow> basic_task \<Rightarrow> conn \<Rightarrow> (bool \<times> basic_task \<times> conn) outcome option" where
  "BasicStatementTask_Execute env b c =
     (if bt_has_result b then
        bind_run (conn_Query_sql env (bt_sql b) c) (\<lambda>(result, c).
          Some (bind_outcome (first_row result) (\<lambda>result.
            Ret (result \<noteq> None, b\<lparr>bt_result := Some (FReady result)\<rparr>, c))))
      else map_option (map_outcome (\<lambda>(ok, c). (ok, b, c))) (Execute_sql env (bt_sql b) c))"

subsection \<open>Prepared statements\<close>

record prepared_task =
  pt_stmt :: stmt
  pt_has_result :: bool
  pt_result :: "prepared_set option future option"

definition PreparedStatementTask :: "stmt \<Rightarrow> bool \<Rightarrow> prepared_task" where
  "PreparedStatementTask st async =
     \<lparr>pt_stmt = st, pt_has_result = async, pt_result = (if async then Some FPending else None)\<rparr>"

text \<open>\<open>!result || !result->GetRowCount()\<close>.\<close>

definition non_empty :: "prepared_set option \<Rightarrow> prepared_set option" where
  "non_empty result = (case result of None \<Rightarrow> None | Some ps \<Rightarrow> if ps_rowCount ps = 0 then None else Some ps)"

text \<open>
  The statement the task executes: the caller's, or, when it brings its text along, a new one
  prepared on the worker's connection with the caller's parameters.
\<close>

definition task_stmt :: "mysql \<Rightarrow> stmt \<Rightarrow> conn \<Rightarrow> (stmt \<times> conn) outcome" where
  "task_stmt env st c =
     (if \<not> st_isPrepared st then Ret (st, c)
      else
        bind_outcome (PrepareStatement_sql env (st_sql st) CONNECTION_ASYNC c) (\<lambda>(m, c).
          case m of
            None \<Rightarrow> Crash NullDeref
          | Some my \<Rightarrow>
              if \<not> ms_paramCount my < 255 then Crash (AssertFail ''paramCount < std::numeric_limits<uint8>::max()'')
              else
                let just = SetParameters (statement_data st) (stmt_new_prepared m (word_of_nat (ms_paramCount my)))
                in Ret (just\<lparr>st_sql := [], st_isPrepared := st_isPrepared st\<rparr>, c)))"

definition PreparedStatementTask_Execute ::
  "mysql \<Rightarrow> prepared_task \<Rightarrow> conn \<Rightarrow> (bool \<times> prepared_task \<times> conn) outcome option" where
  "PreparedStatementTask_Execute env p c =
     bind_run (Some (task_stmt env (pt_stmt p) c)) (\<lambda>(st, c).
       if pt_has_result p then
         bind_run (conn_Query_stmt env st c) (\<lambda>(result, st', c).
           Some (Ret (non_empty result \<noteq> None, p\<lparr>pt_result := Some (FReady (non_empty result))\<rparr>, c)))
       else
         bind_run (Execute_stmt env st c) (\<lambda>(ok, st', c). Some (Ret (ok, p, c))))"

subsection \<open>Query holders and pings\<close>

text \<open>
  The state of the holder's loop is a run on the connection: \<open>None\<close> when a query does not come back.
  A crash or an endless query ends the task.
\<close>

definition holder_query ::
  "mysql \<Rightarrow> stmt \<Rightarrow> conn outcome option \<Rightarrow> prepared_set option \<times> conn outcome option" where
  "holder_query env st run =
     (case run of
        Some (Ret c) \<Rightarrow>
          (case conn_Query_stmt env st c of
             None \<Rightarrow> (None, None)
           | Some (Crash k) \<Rightarrow> (None, Some (Crash k))
           | Some (Ret (result, st', c')) \<Rightarrow> (result, Some (Ret c')))
      | _ \<Rightarrow> (None, run))"

definition SQLQueryHolderTask_Execute ::
  "mysql \<Rightarrow> (stmt, prepared_set) holder \<Rightarrow> conn \<Rightarrow>
    (bool \<times> (stmt, prepared_set) holder \<times> unit future \<times> conn) outcome option" where
  "SQLQueryHolderTask_Execute env qs c =
     (case holder_Execute (holder_query env) ps_rowCount qs (Some (Ret c)) of (qs', run, ok) \<Rightarrow>
        bind_run run (\<lambda>c. Some (Ret (ok, qs', FReady (), c))))"

definition PingOperation_Execute :: "conn \<Rightarrow> (bool \<times> conn) outcome" where
  "PingOperation_Execute c = map_outcome (Pair True) (Ping c)"

subsection \<open>Operations\<close>

text \<open>\<open>SQLOperation\<close> and its subclasses; \<open>call\<close> executes and returns 0.\<close>

datatype operation =
    OpBasic basic_task
  | OpPrepared prepared_task
  | OpTransaction transaction
  | OpTransactionResult transaction "bool future"
  | OpHolder "(stmt, prepared_set) holder" "unit future"
  | OpPing

definition op_Execute ::
  "mysql \<Rightarrow> (nat \<Rightarrow> int) \<Rightarrow> operation \<Rightarrow> conn \<Rightarrow> (bool \<times> operation \<times> conn) outcome option" where
  "op_Execute env clock op c =
     (case op of
        OpBasic b \<Rightarrow> bind_run (BasicStatementTask_Execute env b c) (\<lambda>(ok, b, c). Some (Ret (ok, OpBasic b, c)))
      | OpPrepared p \<Rightarrow> bind_run (PreparedStatementTask_Execute env p c) (\<lambda>(ok, p, c). Some (Ret (ok, OpPrepared p, c)))
      | OpTransaction t \<Rightarrow> bind_run (TransactionTask_Execute env clock t c) (\<lambda>(ok, t, c). Some (Ret (ok, OpTransaction t, c)))
      | OpTransactionResult t fut \<Rightarrow>
          bind_run (TransactionWithResultTask_Execute env clock t c) (\<lambda>(ok, fut, t, c).
            Some (Ret (ok, OpTransactionResult t fut, c)))
      | OpHolder qs fut \<Rightarrow>
          bind_run (SQLQueryHolderTask_Execute env qs c) (\<lambda>(ok, qs, fut, c). Some (Ret (ok, OpHolder qs fut, c)))
      | OpPing \<Rightarrow> bind_run (Some (PingOperation_Execute c)) (\<lambda>(ok, c). Some (Ret (ok, OpPing, c))))"

definition op_call ::
  "mysql \<Rightarrow> (nat \<Rightarrow> int) \<Rightarrow> operation \<Rightarrow> conn \<Rightarrow> (int \<times> operation \<times> conn) outcome option" where
  "op_call env clock op c = bind_run (op_Execute env clock op c) (\<lambda>(ok, op, c). Some (Ret (0, op, c)))"

text \<open>
  What the future of a query callback can give: the result of a statement given as text or of a
  prepared one. \<open>open_question\<close>: a task that has a promise to answer; \<open>task_answer\<close> is what it has put in.
\<close>

datatype answer = TextAnswer "result_set option" | RowsAnswer "prepared_set option"

definition open_question :: "operation \<Rightarrow> bool" where
  "open_question op =
     (case op of OpBasic b \<Rightarrow> bt_has_result b | OpPrepared p \<Rightarrow> pt_has_result p | _ \<Rightarrow> False)"

definition task_answer :: "operation \<Rightarrow> answer option" where
  "task_answer op =
     (case op of
        OpBasic b \<Rightarrow> (case bt_result b of Some (FReady r) \<Rightarrow> Some (TextAnswer r) | _ \<Rightarrow> None)
      | OpPrepared p \<Rightarrow> (case pt_result p of Some (FReady r) \<Rightarrow> Some (RowsAnswer r) | _ \<Rightarrow> None)
      | _ \<Rightarrow> None)"

text \<open>A worker on one connection: the operations of the queue in order, one clock for each.\<close>

primrec run_operations ::
  "mysql \<Rightarrow> ((nat \<Rightarrow> int) \<times> operation) list \<Rightarrow> conn \<Rightarrow> (operation list \<times> conn) outcome option" where
  "run_operations env [] c = Some (Ret ([], c))"
| "run_operations env (x # xs) c =
     bind_run (op_call env (fst x) (snd x) c) (\<lambda>(r, op, c).
       bind_run (run_operations env xs c) (\<lambda>(ops, c). Some (Ret (op # ops, c))))"

subsection \<open>Lemmas on transactions\<close>

definition well_tagged :: "sql_data \<Rightarrow> bool" where
  "well_tagged d \<longleftrightarrow>
     (case sd_type d of
        SQL_ELEMENT_RAW \<Rightarrow> (case sd_element d of ElemString s \<Rightarrow> True | ElemStmt st \<Rightarrow> False)
      | SQL_ELEMENT_PREPARED \<Rightarrow> (case sd_element d of ElemStmt st \<Rightarrow> st \<noteq> None | ElemString s \<Rightarrow> False))"

text \<open>The pointers of the statements in a list of elements, in order.\<close>

definition stmt_ptr :: "sql_data \<Rightarrow> nat option" where
  "stmt_ptr d = (case sd_element d of ElemStmt (Some st) \<Rightarrow> Some (sd_ptr d) | _ \<Rightarrow> None)"

definition tx_ptrs :: "sql_data list \<Rightarrow> nat list" where
  "tx_ptrs ds = List.map_filter stmt_ptr ds"

lemma tx_ptrs_simps [simp]:
  "tx_ptrs [] = []" "tx_ptrs (ds @ es) = tx_ptrs ds @ tx_ptrs es"
  "tx_ptrs (d # ds) = (case stmt_ptr d of None \<Rightarrow> [] | Some p \<Rightarrow> [p]) @ tx_ptrs ds"
  by (induction ds) (auto simp: tx_ptrs_def map_filter_simps split: option.splits)

definition tx_cleaned :: "transaction \<Rightarrow> transaction" where
  "tx_cleaned t = \<lparr>tx_queries = [], tx_cleanedUp = True, tx_deleted = tx_deleted t @ tx_ptrs (tx_queries t)\<rparr>"

text \<open>A tag that fits its variant, the statement null or not.\<close>

definition fits_tag :: "sql_data \<Rightarrow> bool" where
  "fits_tag d \<longleftrightarrow>
     (case sd_type d of
        SQL_ELEMENT_RAW \<Rightarrow> (case sd_element d of ElemString s \<Rightarrow> True | ElemStmt st \<Rightarrow> False)
      | SQL_ELEMENT_PREPARED \<Rightarrow> (case sd_element d of ElemStmt st \<Rightarrow> True | ElemString s \<Rightarrow> False))"

lemma element_cases:
  assumes "fits_tag d"
  obtains (raw) s where "sd_type d = SQL_ELEMENT_RAW" "sd_element d = ElemString s" "stmt_ptr d = None" "well_tagged d"
  | (null) "sd_type d = SQL_ELEMENT_PREPARED" "sd_element d = ElemStmt None" "stmt_ptr d = None" "\<not> well_tagged d"
  | (stmt) st where "sd_type d = SQL_ELEMENT_PREPARED" "sd_element d = ElemStmt (Some st)" "stmt_ptr d = Some (sd_ptr d)"
      "well_tagged d"
proof (cases "sd_type d")
  case SQL_ELEMENT_RAW
  with assms raw show thesis
    by (cases "sd_element d") (auto simp: fits_tag_def stmt_ptr_def well_tagged_def)
next
  case SQL_ELEMENT_PREPARED
  with assms null stmt show thesis
    by (cases "sd_element d") (auto simp: fits_tag_def stmt_ptr_def well_tagged_def split: option.splits)
qed

lemma well_tagged_fits: "well_tagged d \<Longrightarrow> fits_tag d"
  by (auto simp: well_tagged_def fits_tag_def split: element_type.splits element.splits)

text \<open>\<open>Cleanup\<close> deletes each statement once and comes to the end, or it meets a null or a deleted one.\<close>

lemma cleanup_loop_ends:
  assumes "\<forall>d \<in> set ds. fits_tag d"
  shows "if (\<forall>d \<in> set ds. well_tagged d) \<and> distinct (tx_deleted t @ tx_ptrs ds) \<or> ds = []
    then \<exists>qs. cleanup_loop ds i t = Ret (True, t\<lparr>tx_queries := qs, tx_deleted := tx_deleted t @ tx_ptrs ds\<rparr>)
    else distinct (tx_deleted t) \<longrightarrow> (\<exists>k. cleanup_loop ds i t = Crash k \<and>
      k \<in> (if \<forall>d \<in> set ds. well_tagged d then {} else {AssertFail ''stmt''}) \<union>
        (if distinct (tx_deleted t @ tx_ptrs ds) then {} else {DoubleFree}))"
  using assms
proof (induction ds arbitrary: i t)
  case Nil
  then show ?case by (auto intro!: exI [of _ "tx_queries t"])
next
  case (Cons d ds)
  have "fits_tag d" and ds: "\<forall>d \<in> set ds. fits_tag d" using Cons.prems by simp_all
  from this(1) show ?case
  proof (cases rule: element_cases)
    case (raw s)
    with Cons.IH [OF ds, of "t\<lparr>tx_queries := (tx_queries t)[i := d\<lparr>sd_element := ElemString []\<rparr>]\<rparr>" "i + 1"] show ?thesis
      by (cases "ds = []") (auto split: if_splits)
  next
    case null
    then show ?thesis by simp
  next
    case (stmt st)
    show ?thesis
    proof (cases "sd_ptr d \<in> set (tx_deleted t)")
      case True
      with stmt show ?thesis by auto
    next
      case False
      with stmt Cons.IH [OF ds, of "t\<lparr>tx_deleted := tx_deleted t @ [sd_ptr d]\<rparr>" "i + 1"] show ?thesis
        by (cases "ds = []") (auto split: if_splits)
    qed
  qed
qed

lemma Cleanup_ok:
  assumes "\<forall>d \<in> set (tx_queries t). well_tagged d" and "distinct (tx_deleted t @ tx_ptrs (tx_queries t))"
    and "\<not> tx_cleanedUp t"
  shows "Cleanup t = Ret (tx_cleaned t)"
  using cleanup_loop_ends [of "tx_queries t" t 0] assms well_tagged_fits by (auto simp: Cleanup_def tx_cleaned_def)

lemma Cleanup_bad:
  assumes "\<forall>d \<in> set (tx_queries t). fits_tag d" and "distinct (tx_deleted t)" and "\<not> tx_cleanedUp t"
    and "\<not> ((\<forall>d \<in> set (tx_queries t). well_tagged d) \<and> distinct (tx_deleted t @ tx_ptrs (tx_queries t)))"
  shows "\<exists>k. Cleanup t = Crash k \<and>
    k \<in> (if \<forall>d \<in> set (tx_queries t). well_tagged d then {} else {AssertFail ''stmt''}) \<union>
      (if distinct (tx_deleted t @ tx_ptrs (tx_queries t)) then {} else {DoubleFree})"
proof -
  have "tx_queries t \<noteq> []" using assms(2,4) by auto
  with cleanup_loop_ends [OF assms(1), of t 0] assms(2-4) show ?thesis
    by (auto simp: Cleanup_def split: if_splits)
qed

text \<open>
  The life of a transaction: calls in any order; a statement is given by its pointer, which may be
  null. The destructor is one more \<open>Cleanup\<close>.
\<close>

datatype tx_step = StepText string | StepStmt nat "stmt option" | StepCleanup

definition tx_do :: "tx_step \<Rightarrow> transaction \<Rightarrow> transaction outcome" where
  "tx_do s t =
     (case s of
        StepText sql \<Rightarrow> Ret (tx_Append sql t)
      | StepStmt ptr st \<Rightarrow> Ret (AppendPreparedStatement ptr st t)
      | StepCleanup \<Rightarrow> Cleanup t)"

primrec tx_run :: "tx_step list \<Rightarrow> transaction \<Rightarrow> transaction outcome" where
  "tx_run [] t = Ret t"
| "tx_run (s # ss) t = bind_outcome (tx_do s t) (tx_run ss)"

text \<open>What the appending calls of such a sequence put into the vector.\<close>

definition step_element :: "tx_step \<Rightarrow> sql_data list" where
  "step_element s =
     (case s of
        StepText sql \<Rightarrow> [\<lparr>sd_element = ElemString sql, sd_type = SQL_ELEMENT_RAW, sd_ptr = 0\<rparr>]
      | StepStmt ptr st \<Rightarrow> [\<lparr>sd_element = ElemStmt st, sd_type = SQL_ELEMENT_PREPARED, sd_ptr = ptr\<rparr>]
      | StepCleanup \<Rightarrow> [])"

definition appended :: "tx_step list \<Rightarrow> sql_data list" where
  "appended ss = concat (map step_element ss)"

lemma tx_run_append: "tx_run (ss @ ss') t = bind_outcome (tx_run ss t) (tx_run ss')"
proof (induction ss arbitrary: t)
  case (Cons s ss)
  have "tx_run (ss @ ss') = (\<lambda>t. bind_outcome (tx_run ss t) (tx_run ss'))" by (rule ext) (rule Cons.IH)
  then show ?case by (simp add: bind_outcome_assoc)
qed simp

lemma tx_run_adds:
  assumes "tx_cleanedUp t \<or> StepCleanup \<notin> set ss"
  shows "tx_run ss t = Ret (t\<lparr>tx_queries := tx_queries t @ appended ss\<rparr>)"
  using assms
proof (induction ss arbitrary: t)
  case (Cons s ss)
  have "tx_do s t = Ret (t\<lparr>tx_queries := tx_queries t @ step_element s\<rparr>)"
    using Cons.prems
    by (cases s) (auto simp: tx_do_def tx_Append_def AppendPreparedStatement_def step_element_def Cleanup_def)
  with Cons show ?case by (auto simp: appended_def)
qed (simp add: appended_def)

lemma appended_fits: "d \<in> set (appended ss) \<Longrightarrow> fits_tag d"
proof -
  have "d \<in> set (step_element s) \<Longrightarrow> fits_tag d" for s
    by (cases s) (simp_all add: step_element_def fits_tag_def)
  then show "d \<in> set (appended ss) \<Longrightarrow> fits_tag d" by (auto simp: appended_def)
qed

lemma appended_null: "(\<forall>d \<in> set (appended ss). well_tagged d) \<longleftrightarrow> (\<forall>p. StepStmt p None \<notin> set ss)"
proof (induction ss)
  case (Cons s ss)
  have "(\<forall>d \<in> set (step_element s). well_tagged d) \<longleftrightarrow> (\<forall>p. s \<noteq> StepStmt p None)"
    by (cases s) (auto simp: step_element_def well_tagged_def)
  with Cons show ?case by (auto simp: appended_def)
qed (simp add: appended_def)

lemma element_ready_well_tagged: "element_ready d c \<Longrightarrow> well_tagged d"
  by (auto simp: element_ready_def well_tagged_def split: element_type.splits element.splits option.splits)

text \<open>
  A transaction that can be run on a connection between two transactions; no statement is in it
  twice, since \<open>Cleanup\<close> would delete it twice.
\<close>

definition tx_ready :: "transaction \<Rightarrow> conn \<Rightarrow> bool" where
  "tx_ready t c \<longleftrightarrow> tx_queries t \<noteq> [] \<and> (\<forall>d \<in> set (tx_queries t). element_ready d c) \<and> tx_deleted t = [] \<and>
     distinct (tx_ptrs (tx_queries t)) \<and> \<not> tx_cleanedUp t"

definition tx_texts :: "transaction \<Rightarrow> conn \<Rightarrow> string list" where
  "tx_texts t c = map (\<lambda>d. element_text d c) (tx_queries t)"

definition idle :: "mysql \<Rightarrow> conn \<Rightarrow> bool" where
  "idle env c \<longleftrightarrow> steady env \<and> c_open c \<and> sv_open (conn_server c) = None"

lemma Cleanup_ready: "tx_ready t c \<Longrightarrow> Cleanup t = Ret (tx_cleaned t)"
  using Cleanup_ok [of t] by (auto simp: tx_ready_def dest: element_ready_well_tagged)

text \<open>What runs of transactions keep: which elements are ready, and their texts.\<close>

definition same_view :: "conn \<Rightarrow> conn \<Rightarrow> bool" where
  "same_view c c' \<longleftrightarrow> (\<forall>d. element_ready d c' = element_ready d c \<and> element_text d c' = element_text d c)"

lemma same_view_trans: "same_view c c' \<Longrightarrow> same_view c' c'' \<Longrightarrow> same_view c c''"
  by (simp add: same_view_def)

lemma same_view_ready: "same_view c c' \<Longrightarrow> tx_ready t c' = tx_ready t c \<and> tx_texts t c' = tx_texts t c"
  by (simp add: same_view_def tx_ready_def tx_texts_def)

lemma atomic_open [simp]: "sv_open sv = None \<Longrightarrow> sv_open (atomic ok effs sv) = None"
  by (simp add: atomic_def)

lemma TryExecute_steady:
  assumes "idle env c" and "tx_ready t c"
  shows "\<exists>code c' effs. TryExecute env t c = Some (Ret (code, c')) \<and> idle env c' \<and> same_view c c' \<and>
    conn_server c' = atomic (code = Code NoErrno) effs (conn_server c) \<and> map fst effs = tx_texts t c"
proof -
  from ExecuteTransaction_steady [of env c "tx_queries t"] assms obtain code c' effs where
    "ExecuteTransaction env (tx_queries t) c = Some (Ret (code, c'))" "c_open c'"
    "conn_server c' = atomic (code = Code NoErrno) effs (conn_server c)"
    "map fst effs = map (\<lambda>d. element_text d c) (tx_queries t)"
    "\<forall>d. element_ready d c' = element_ready d c \<and> element_text d c' = element_text d c"
    by (auto simp: idle_def tx_ready_def)
  with assms(1) show ?thesis
    by (intro exI [of _ code] exI [of _ c'] exI [of _ effs])
      (simp add: TryExecute_def idle_def same_view_def tx_texts_def)
qed

lemma Execute_sql_gives_up:
  assumes "c_open c" and "lib_query env (c_events c) q = Failed e" and "errno_class e = GiveUp"
  shows "Execute_sql env q c = Some (Ret (False, conn_call (EvQuery q (Failed e)) (Failed e) c))"
  using assms by (subst Execute_sql.simps) (simp add: handle_errno_give_up)

text \<open>The clock passes the limit at some reading.\<close>

definition clock_passes :: "(nat \<Rightarrow> int) \<Rightarrow> nat \<Rightarrow> bool" where
  "clock_passes clock n \<longleftrightarrow> (\<exists>m \<ge> n. GetMSTimeDiff (clock 0) (clock m) > DEADLOCK_MAX_RETRY_TIME_MS)"

lemma retry_loop_step:
  assumes "idle env c" and "tx_ready t c"
    and "\<And>c'. idle env c' \<Longrightarrow> same_view c c' \<Longrightarrow> conn_server c' = conn_server c \<Longrightarrow>
      \<exists>ok c'' effs. retry_loop env clock t (Suc n) (GetMSTimeDiff (clock 0) (clock n)) c' = Some (Ret (ok, c'')) \<and>
        idle env c'' \<and> same_view c' c'' \<and>
        conn_server c'' = atomic ok effs (conn_server c') \<and> map fst effs = tx_texts t c'"
  shows "\<exists>ok c' effs. retry_loop env clock t n d c = Some (Ret (ok, c')) \<and> idle env c' \<and> same_view c c' \<and>
    conn_server c' = atomic ok effs (conn_server c) \<and> map fst effs = tx_texts t c"
proof (cases "d > DEADLOCK_MAX_RETRY_TIME_MS")
  case True
  then show ?thesis
    using assms(1)
    by (intro exI [of _ False] exI [of _ c] exI [of _ "map (\<lambda>q. (q, [])) (tx_texts t c)"])
      (subst retry_loop.simps, simp add: atomic_def same_view_def comp_def)
next
  case False
  from TryExecute_steady [OF assms(1,2)] obtain code c1 effs where
    c1: "TryExecute env t c = Some (Ret (code, c1))" "idle env c1" "same_view c c1"
      "conn_server c1 = atomic (code = Code NoErrno) effs (conn_server c)" "map fst effs = tx_texts t c"
    by blast
  show ?thesis
  proof (cases "code = Code NoErrno")
    case True
    with False c1 show ?thesis
      by (intro exI [of _ True] exI [of _ c1] exI [of _ effs]) (subst retry_loop.simps, simp)
  next
    case fail: False
    then have sv: "conn_server c1 = conn_server c" using c1(4) by (simp add: atomic_def)
    from assms(3) [OF c1(2,3) sv] obtain ok c2 effs2 where
      "retry_loop env clock t (Suc n) (GetMSTimeDiff (clock 0) (clock n)) c1 = Some (Ret (ok, c2))"
      "idle env c2" "same_view c1 c2" "conn_server c2 = atomic ok effs2 (conn_server c1)"
      "map fst effs2 = tx_texts t c1"
      by blast
    with False fail c1 sv show ?thesis
      by (intro exI [of _ ok] exI [of _ c2] exI [of _ effs2])
        (subst retry_loop.simps, use same_view_trans same_view_ready in \<open>auto\<close>)
  qed
qed

lemma retry_loop_steady:
  assumes "idle env c" and "tx_ready t c" and "clock_passes clock n"
  shows "\<exists>ok c' effs. retry_loop env clock t n d c = Some (Ret (ok, c')) \<and> idle env c' \<and> same_view c c' \<and>
    conn_server c' = atomic ok effs (conn_server c) \<and> map fst effs = tx_texts t c"
proof -
  obtain m where m: "m \<ge> n" "GetMSTimeDiff (clock 0) (clock m) > DEADLOCK_MAX_RETRY_TIME_MS"
    using assms(3) by (auto simp: clock_passes_def)
  show ?thesis
    using m assms(1,2)
  proof (induction "m - n" arbitrary: n d c)
    case 0
    have late: "retry_loop env clock t (Suc n) (GetMSTimeDiff (clock 0) (clock n)) c' = Some (Ret (False, c'))" for c'
      using 0 by (subst retry_loop.simps) simp
    show ?case
      by (rule retry_loop_step [OF 0(4,5)])
        (rule exI [of _ False], use 0(5) in \<open>auto simp: late atomic_def same_view_def tx_texts_def
          intro!: exI [of _ "map (\<lambda>q. (q, [])) (tx_texts t c)"]\<close>)
  next
    case (Suc k)
    show ?case
    proof (rule retry_loop_step [OF Suc(5,6)])
      fix c' assume c': "idle env c'" "same_view c c'"
      have "k = m - Suc n" "Suc n \<le> m" using Suc(2,3) by auto
      moreover have "tx_ready t c'" using same_view_ready [OF c'(2)] Suc(6) by simp
      ultimately show "\<exists>ok c'' effs. retry_loop env clock t (Suc n) (GetMSTimeDiff (clock 0) (clock n)) c' =
          Some (Ret (ok, c'')) \<and> idle env c'' \<and> same_view c' c'' \<and>
          conn_server c'' = atomic ok effs (conn_server c') \<and> map fst effs = tx_texts t c'"
        using Suc(1) [of "Suc n" c'] Suc(4) c'(1) by blast
    qed
  qed
qed

lemma TransactionTask_steady:
  assumes "idle env c" and "tx_ready t c" and "clock_passes clock 1"
  shows "\<exists>ok c' effs. TransactionTask_Execute env clock t c = Some (Ret (ok, if ok then t else tx_cleaned t, c')) \<and>
    idle env c' \<and> same_view c c' \<and>
    conn_server c' = atomic ok effs (conn_server c) \<and> map fst effs = tx_texts t c"
proof -
  have clean: "CleanupOnFailure t = Ret (tx_cleaned t)"
    using Cleanup_ready [OF assms(2)] by (simp add: CleanupOnFailure_def)
  from TryExecute_steady [OF assms(1,2)] obtain code c1 effs where
    c1: "TryExecute env t c = Some (Ret (code, c1))" "idle env c1" "same_view c c1"
      "conn_server c1 = atomic (code = Code NoErrno) effs (conn_server c)" "map fst effs = tx_texts t c"
    by blast
  show ?thesis
  proof (cases "code = Code ER_LOCK_DEADLOCK")
    case False
    with c1 clean show ?thesis
      by (intro exI [of _ "code = Code NoErrno"] exI [of _ c1] exI [of _ effs])
        (simp add: TransactionTask_Execute_def bind_run_def)
  next
    case True
    have view: "tx_ready t c1" "tx_texts t c1 = tx_texts t c" using same_view_ready [OF c1(3)] assms(2) by simp_all
    from retry_loop_steady [OF c1(2) view(1) assms(3), of 0] obtain ok c2 effs2 where
      "retry_loop env clock t 1 0 c1 = Some (Ret (ok, c2))" "idle env c2" "same_view c1 c2"
      "conn_server c2 = atomic ok effs2 (conn_server c1)" "map fst effs2 = tx_texts t c1"
      by blast
    with True c1 clean view show ?thesis
      by (intro exI [of _ ok] exI [of _ c2] exI [of _ effs2])
        (use same_view_trans in \<open>auto simp: TransactionTask_Execute_def bind_run_def atomic_def\<close>)
  qed
qed

text \<open>The transactions that were committed, in the order of the queue.\<close>

definition tx_ops :: "((nat \<Rightarrow> int) \<times> transaction) list \<Rightarrow> ((nat \<Rightarrow> int) \<times> operation) list" where
  "tx_ops xs = map (map_prod id OpTransaction) xs"

lemma run_transactions:
  assumes "idle env c" and "\<forall>(clock, t) \<in> set xs. clock_passes clock 1 \<and> tx_ready t c"
  shows "\<exists>oks c' effs. run_operations env (tx_ops xs) c =
      Some (Ret (map2 (\<lambda>ok x. OpTransaction (if ok then snd x else tx_cleaned (snd x))) oks xs, c')) \<and>
    length oks = length xs \<and> length effs = length xs \<and>
    map (map fst) effs = map (\<lambda>x. tx_texts (snd x) c) xs \<and>
    conn_server c' = fold (\<lambda>(ok, es). atomic ok es) (zip oks effs) (conn_server c)"
  using assms
proof (induction xs arbitrary: c)
  case Nil
  then show ?case by (intro exI [of _ "[]"] exI [of _ c]) (simp add: tx_ops_def)
next
  case (Cons x xs)
  obtain clock t where x: "x = (clock, t)" by (cases x)
  from TransactionTask_steady [of env c t clock] Cons.prems x obtain ok c1 effs where
    c1: "TransactionTask_Execute env clock t c = Some (Ret (ok, if ok then t else tx_cleaned t, c1))"
      "idle env c1" "same_view c c1" "conn_server c1 = atomic ok effs (conn_server c)" "map fst effs = tx_texts t c"
    by auto
  have view: "tx_ready t' c1 = tx_ready t' c" "tx_texts t' c1 = tx_texts t' c" for t'
    using same_view_ready [OF c1(3)] by simp_all
  from Cons.IH [OF c1(2)] Cons.prems(2) view obtain oks c2 effss where
    "run_operations env (tx_ops xs) c1 =
      Some (Ret (map2 (\<lambda>ok x. OpTransaction (if ok then snd x else tx_cleaned (snd x))) oks xs, c2))"
    "length oks = length xs" "length effss = length xs"
    "map (map fst) effss = map (\<lambda>x. tx_texts (snd x) c) xs"
    "conn_server c2 = fold (\<lambda>(ok, es). atomic ok es) (zip oks effss) (conn_server c1)"
    by auto
  with c1 x show ?case
    by (intro exI [of _ "ok # oks"] exI [of _ c2] exI [of _ "effs # effss"])
      (simp add: tx_ops_def op_call_def op_Execute_def bind_run_def)
qed

subsection \<open>Properties\<close>

text \<open>
  C39. The life of a transaction, for any sequence of calls on a new one. Until the first \<open>Cleanup\<close> the
  elements are kept in order. If none of the statements appended until then is null and none was
  appended twice, the first \<open>Cleanup\<close> deletes each of them exactly once, in order; from then on
  every further \<open>Cleanup\<close>, the destructor's too, does nothing, so what is appended later stays in the vector
  and is never deleted. Otherwise the first \<open>Cleanup\<close> brings the process down: an assertion at a
  null statement, or the second deletion of a statement that was appended twice.
\<close>

theorem transaction_lifecycle:
  "let first = takeWhile (\<lambda>s. s \<noteq> StepCleanup) ss; rest = dropWhile (\<lambda>s. s \<noteq> StepCleanup) ss;
       null = (\<exists>p. StepStmt p None \<in> set first); twice = (\<not> distinct (tx_ptrs (appended first)))
   in if rest = [] then tx_run ss tx_new = Ret \<lparr>tx_queries = appended ss, tx_cleanedUp = False, tx_deleted = []\<rparr>
      else if \<not> null \<and> \<not> twice then
        tx_run ss tx_new = Ret \<lparr>tx_queries = appended rest, tx_cleanedUp = True, tx_deleted = tx_ptrs (appended first)\<rparr>
      else \<exists>k \<in> (if null then {AssertFail ''stmt''} else {}) \<union> (if twice then {DoubleFree} else {}).
        tx_run ss tx_new = Crash k"
proof -
  define first rest where fr: "first = takeWhile (\<lambda>s. s \<noteq> StepCleanup) ss" "rest = dropWhile (\<lambda>s. s \<noteq> StepCleanup) ss"
  have ss: "ss = first @ rest" by (simp add: fr)
  have "StepCleanup \<notin> set first" by (auto simp: fr dest: set_takeWhileD)
  then have run1: "tx_run first tx_new = Ret (tx_new\<lparr>tx_queries := appended first\<rparr>)" (is "_ = Ret ?t")
    by (subst tx_run_adds) (simp_all add: tx_new_def)
  have t: "tx_queries ?t = appended first" "tx_deleted ?t = []" "\<not> tx_cleanedUp ?t" by (simp_all add: tx_new_def)
  show ?thesis
  proof (cases "rest = []")
    case True
    with run1 ss show ?thesis unfolding Let_def fr [symmetric] by (simp add: tx_new_def)
  next
    case False
    then obtain rest' where rest: "rest = StepCleanup # rest'"
      using hd_dropWhile [of "\<lambda>s. s \<noteq> StepCleanup" ss] by (cases rest) (auto simp: fr)
    have app: "appended rest = appended rest'" by (simp add: rest appended_def step_element_def)
    have run: "tx_run ss tx_new = bind_outcome (Cleanup ?t) (tx_run rest')"
      by (simp add: ss tx_run_append run1 rest tx_do_def)
    have later: "tx_run rest' (tx_cleaned ?t) = Ret \<lparr>tx_queries = appended rest, tx_cleanedUp = True,
        tx_deleted = tx_ptrs (appended first)\<rparr>"
      by (subst tx_run_adds) (simp_all add: tx_cleaned_def t app)
    have good: "Cleanup ?t = Ret (tx_cleaned ?t)"
      if "\<forall>p. StepStmt p None \<notin> set first" "distinct (tx_ptrs (appended first))"
      by (rule Cleanup_ok) (use that appended_null t in auto)
    have bad: "\<exists>k \<in> (if \<exists>p. StepStmt p None \<in> set first then {AssertFail ''stmt''} else {}) \<union>
        (if \<not> distinct (tx_ptrs (appended first)) then {DoubleFree} else {}). Cleanup ?t = Crash k"
      if "\<not> ((\<forall>p. StepStmt p None \<notin> set first) \<and> distinct (tx_ptrs (appended first)))"
      using Cleanup_bad [of ?t] that appended_fits t appended_null [of first] by (fastforce split: if_splits)
    show ?thesis
    proof (cases "(\<forall>p. StepStmt p None \<notin> set first) \<and> distinct (tx_ptrs (appended first))")
      case True
      with False run later good show ?thesis unfolding Let_def fr [symmetric] by simp
    next
      case crash: False
      from bad [OF this] have "\<exists>k \<in> (if \<exists>p. StepStmt p None \<in> set first then {AssertFail ''stmt''} else {}) \<union>
        (if \<not> distinct (tx_ptrs (appended first)) then {DoubleFree} else {}). tx_run ss tx_new = Crash k"
        by (elim bexE, intro bexI) (simp_all only: run bind_outcome.simps)
      with False crash show ?thesis unfolding Let_def fr [symmetric] by (simp only: if_False not_ex not_not simp_thms)
    qed
  qed
qed

text \<open>One statement appended twice, and a text appended after the clean-up.\<close>

theorem transaction_lifecycle_witness:
  "tx_run [StepStmt 8 (Some (stmt_new 0 0)), StepText ''a'', StepStmt 8 (Some (stmt_new 0 0)), StepCleanup] tx_new = Crash DoubleFree \<and>
   tx_run [StepStmt 8 (Some (stmt_new 0 0)), StepCleanup, StepStmt 9 (Some (stmt_new 0 0)), StepCleanup] tx_new =
     Ret \<lparr>tx_queries = [\<lparr>sd_element = ElemStmt (Some (stmt_new 0 0)), sd_type = SQL_ELEMENT_PREPARED, sd_ptr = 9\<rparr>],
       tx_cleanedUp = True, tx_deleted = [8]\<rparr>"
  using transaction_lifecycle [of "[StepStmt 8 (Some (stmt_new 0 0)), StepText ''a'', StepStmt 8 (Some (stmt_new 0 0)), StepCleanup]"]
    transaction_lifecycle [of "[StepStmt 8 (Some (stmt_new 0 0)), StepCleanup, StepStmt 9 (Some (stmt_new 0 0)), StepCleanup]"]
  by (simp add: appended_def step_element_def stmt_ptr_def)

text \<open>
  C11. The worker's transactions are atomic and serial. On a connection that holds, a worker that takes
  transactions from the queue commits each of them exactly once or not at all, in the order of the
  queue and whatever retries a deadlock causes; those that failed are cleaned up, and every task
  comes back once the clock has passed the minute.
\<close>

theorem queued_transactions_serialised:
  assumes "steady env" and "c_open c" and "sv_open (conn_server c) = None"
    and "\<forall>(clock, t) \<in> set xs. clock_passes clock 1 \<and> tx_ready t c"
  shows "\<exists>oks c' effs. run_operations env (tx_ops xs) c =
      Some (Ret (map2 (\<lambda>ok x. OpTransaction (if ok then snd x else tx_cleaned (snd x))) oks xs, c')) \<and>
    length oks = length xs \<and> length effs = length xs \<and>
    map (map fst) effs = map (\<lambda>x. tx_texts (snd x) c) xs \<and>
    conn_server c' = fold (\<lambda>(ok, es). atomic ok es) (zip oks effs) (conn_server c)"
  using assms by (intro run_transactions) (simp_all add: idle_def)

text \<open>A library that answers the first two attempts of one statement with a deadlock.\<close>

definition deadlock_twice :: "lib_call list \<Rightarrow> string \<Rightarrow> reply" where
  "deadlock_twice tr q =
     (if q = ''b'' \<and> length (filter (\<lambda>e. e = EvQuery q (Failed ER_LOCK_DEADLOCK)) tr) < 2
      then Failed ER_LOCK_DEADLOCK else Okay)"

definition slow_clock :: "nat \<Rightarrow> int" where
  "slow_clock n = 5000 * int n"

theorem queued_transactions_serialised_witness:
  "\<exists>env c'. run_operations env
      (tx_ops [(slow_clock, tx_Append ''a'' tx_new), (slow_clock, tx_Append ''b'' tx_new)]) sample_conn =
      Some (Ret ([OpTransaction (tx_Append ''a'' tx_new), OpTransaction (tx_Append ''b'' tx_new)], c')) \<and>
    map fst (sv_committed (conn_server c')) = [''a'', ''b''] \<and>
    length (filter (\<lambda>e. e = EvQuery ''b'' (Failed ER_LOCK_DEADLOCK)) (c_events c')) = 2"
proof -
  define env where "env = sample_lib deadlock_twice (\<lambda>_ _. Okay)"
  let ?xs = "[(slow_clock, tx_Append ''a'' tx_new), (slow_clock, tx_Append ''b'' tx_new)]"
  have st: "steady env"
    by (auto simp: env_def sample_lib_def steady_def steady_reply_def errno_class_def is_control_def deadlock_twice_def)
  have clock: "clock_passes slow_clock 1"
    by (auto simp: clock_passes_def slow_clock_def GetMSTimeDiff_def DEADLOCK_MAX_RETRY_TIME_MS_def intro!: exI [of _ 13])
  have ready: "tx_ready (tx_Append q tx_new) sample_conn" "tx_texts (tx_Append q tx_new) sample_conn = [q]"
    if "q \<noteq> []" "\<not> is_control q" for q
    using that by (simp_all add: tx_ready_def tx_Append_def tx_new_def element_ready_def tx_texts_def element_text_def stmt_ptr_def)
  have "sv_open (conn_server sample_conn) = None" by (simp add: sample_conn_facts server_empty_def)
  moreover have "\<forall>(clock, t) \<in> set ?xs. clock_passes clock 1 \<and> tx_ready t sample_conn"
    using clock ready by (simp add: is_control_def)
  ultimately obtain oks c' effs where
    run: "run_operations env (tx_ops ?xs) sample_conn =
      Some (Ret (map2 (\<lambda>ok x. OpTransaction (if ok then snd x else tx_cleaned (snd x))) oks ?xs, c'))"
    and len: "length oks = length ?xs" "length effs = length ?xs"
    and effs: "map (map fst) effs = map (\<lambda>x. tx_texts (snd x) sample_conn) ?xs"
    and sv: "conn_server c' = fold (\<lambda>(ok, es). atomic ok es) (zip oks effs) (conn_server sample_conn)"
    using queued_transactions_serialised [OF st sample_conn_facts(1)] by blast
  have q: "lib_query env tr q = deadlock_twice tr q" for tr q by (simp add: env_def sample_lib_def)
  obtain o1 o2 where oks: "oks = [o1, o2]" using len(1) by (auto simp: length_Suc_conv)
  obtain e1 e2 where effs2: "effs = [e1, e2]" using len(2) by (auto simp: length_Suc_conv)
  have r: "([OpTransaction (tx_Append ''a'' tx_new), OpTransaction (tx_Append ''b'' tx_new)] =
      map2 (\<lambda>ok x. OpTransaction (if ok then snd x else tx_cleaned (snd x))) oks ?xs) \<and>
    length (filter (\<lambda>e. e = EvQuery ''b'' (Failed ER_LOCK_DEADLOCK)) (c_events c')) = 2"
    using run sample_conn_facts(1)
    by (auto simp: tx_ops_def op_call_def op_Execute_def TransactionTask_Execute_def TryExecute_def ExecuteTransaction_def
        conn_BeginTransaction_def conn_CommitTransaction_def conn_RollbackTransaction_def Execute_control_def
        Execute_element_def tx_Append_def tx_new_def bind_run_def Execute_sql_okay Execute_sql_gives_up q
        deadlock_twice_def sample_conn_facts retry_loop.simps GetMSTimeDiff_def slow_clock_def
        DEADLOCK_MAX_RETRY_TIME_MS_def errno_class_def GetLastError_def)
  then have "o1" "o2" by (auto simp: oks tx_Append_def tx_new_def tx_cleaned_def split: if_splits)
  then have "map fst (sv_committed (conn_server c')) = [''a'', ''b'']"
    using sv effs effs2 oks ready by (simp add: atomic_def sample_conn_facts server_empty_def is_control_def)
  with run r show ?thesis by (intro exI [of _ env] exI [of _ c']) simp
qed

end
