(* ===== verification/Config.thy ===== *)
theory Config
  imports Text_Util
begin

section \<open>The configuration manager (common/Configuration/Config.cpp)\<close>

text \<open>
  The options read from the \<open>.conf.dist\<close> and \<open>.conf\<close> files. The file-scope variables of the
  source are one record; \<open>out\<close> collects the lines printed. The files are a parameter: a name
  either cannot be opened or has contents, after which the stream ends or fails. The unordered
  map of options is a list of pairs with distinct keys, in insertion order; nothing proved here
  depends on the order.
\<close>

subsection \<open>The store of options\<close>

text \<open>What the loader needs of the map: lookup after insertion.\<close>

locale keyed_store =
  fixes lookup :: "'s \<Rightarrow> 'k \<Rightarrow> 'v option"
    and put :: "'k \<Rightarrow> 'v \<Rightarrow> 's \<Rightarrow> 's"
  assumes lookup_put: "lookup (put k v s) j = (if j = k then Some v else lookup s j)"
begin

primrec put_all :: "('k \<times> 'v) list \<Rightarrow> 's \<Rightarrow> 's" where
  "put_all [] s = s"
| "put_all (p # ps) s = put_all ps (put (fst p) (snd p) s)"

primrec put_known :: "('k \<times> 'v) list \<Rightarrow> 's \<Rightarrow> 's" where
  "put_known [] s = s"
| "put_known (p # ps) s =
     put_known ps (if lookup s (fst p) = None then s else put (fst p) (snd p) s)"

lemma lookup_put_all:
  assumes "distinct (map fst ps)"
  shows "lookup (put_all ps s) k = (case map_of ps k of None \<Rightarrow> lookup s k | Some v \<Rightarrow> Some v)"
  using assms
proof (induction ps arbitrary: s)
  case (Cons p ps)
  then have "map_of ps (fst p) = None" by (simp add: map_of_eq_None_iff)
  with Cons show ?case by (cases p) (auto simp: lookup_put split: option.splits)
qed simp

lemma lookup_put_known:
  assumes "distinct (map fst ps)"
  shows "lookup (put_known ps s) k =
    (case lookup s k of None \<Rightarrow> None
     | Some d \<Rightarrow> Some (case map_of ps k of None \<Rightarrow> d | Some v \<Rightarrow> v))"
  using assms
proof (induction ps arbitrary: s)
  case (Cons p ps)
  then have "map_of ps (fst p) = None" by (simp add: map_of_eq_None_iff)
  with Cons show ?case by (cases p) (auto simp: lookup_put split: option.splits)
qed (simp split: option.splits)

end

record config =
  cfg_filename :: string
  additionalFiles :: "string list"
  cfg_args :: "string list"
  configOptions :: "(string \<times> string) list"
  usingDistConfig :: bool
  moduleConfigFiles :: "string list"
  out :: "string list"

definition config_new :: config where
  "config_new = \<lparr>cfg_filename = [], additionalFiles = [], cfg_args = [], configOptions = [],
     usingDistConfig = False, moduleConfigFiles = [], out = []\<rparr>"

text \<open>\<open>find\<close>, \<open>erase\<close> and \<open>emplace\<close> of an unordered map.\<close>

definition um_find :: "(string \<times> string) list \<Rightarrow> string \<Rightarrow> string option" where
  "um_find m k = map_of m k"

definition um_erase :: "string \<Rightarrow> (string \<times> string) list \<Rightarrow> (string \<times> string) list" where
  "um_erase k m = filter (\<lambda>p. fst p \<noteq> k) m"

definition um_emplace :: "string \<Rightarrow> string \<Rightarrow> (string \<times> string) list \<Rightarrow> (string \<times> string) list" where
  "um_emplace k v m = (if um_find m k = None then m @ [(k, v)] else m)"

definition um_put :: "string \<Rightarrow> string \<Rightarrow> (string \<times> string) list \<Rightarrow> (string \<times> string) list" where
  "um_put k v m = um_emplace k v (if um_find m k = None then m else um_erase k m)"

lemma map_of_filter_ne: "map_of (filter (\<lambda>p. fst p \<noteq> k) m) j = (if j = k then None else map_of m j)"
  by (induction m) auto

lemma um_find_put: "um_find (um_put k v m) j = (if j = k then Some v else um_find m j)"
  by (auto simp: um_put_def um_emplace_def um_find_def um_erase_def map_of_filter_ne map_of_append map_add_def
      split: option.splits)

lemma um_put_distinct: "distinct (map fst m) \<Longrightarrow> distinct (map fst (um_put k v m))"
  by (auto simp: um_put_def um_emplace_def um_find_def um_erase_def map_of_filter_ne map_of_eq_None_iff
      distinct_map_filter)

interpretation opts: keyed_store um_find um_put
  by unfold_locales (rule um_find_put)

subsection \<open>Names and messages\<close>

text \<open>\<open>s.find(t) != npos\<close>.\<close>

primrec has_substring :: "string \<Rightarrow> string \<Rightarrow> bool" where
  "has_substring t [] = (t = [])"
| "has_substring t (c # s) = (take (length t) (c # s) = t \<or> has_substring t s)"

definition IsAppConfig :: "string \<Rightarrow> bool" where
  "IsAppConfig fileName = has_substring ''logon.conf'' fileName"

definition IsLoggingSystemOptions :: "string \<Rightarrow> bool" where
  "IsLoggingSystemOptions optionName =
     (has_substring ''Appender.'' optionName \<or> has_substring ''Logger.'' optionName)"

definition quoted :: "string \<Rightarrow> string" where
  "quoted s = CHR 0x27 # s @ [CHR 0x27]"

definition emit :: "string \<Rightarrow> config \<Rightarrow> config" where
  "emit l c = c\<lparr>out := out c @ [l]\<rparr>"

definition PrintError :: "string \<Rightarrow> string \<Rightarrow> config \<Rightarrow> config" where
  "PrintError fileName message c =
     (if IsAppConfig fileName then emit message c else emit (''server.loading'' @ message) c)"

subsection \<open>AddKey\<close>

definition AddKey :: "string \<Rightarrow> string \<Rightarrow> string \<Rightarrow> bool \<Rightarrow> bool \<Rightarrow> config \<Rightarrow> config" where
  "AddKey optionName optionKey fileName isOptional isReload c =
     (let itr = um_find (configOptions c) optionName in
      if isOptional \<and> itr = None then
        (if \<not> IsLoggingSystemOptions optionName \<and> \<not> isReload then
           PrintError fileName (''>Config::LoadFile:Found incorrect option '' @ quoted optionName @
             '' in config file '' @ quoted fileName @ ''.Skip'') c
         else c)
      else
        (let m = (if itr \<noteq> None then um_erase optionName (configOptions c) else configOptions c)
         in c\<lparr>configOptions := um_emplace optionName optionKey m\<rparr>))"

subsection \<open>ParseFile\<close>

text \<open>
  A file that can be opened has the text up to where the stream ends; \<open>read_fails\<close> says that it
  ends with an error and not with the end of the file. Reading with \<open>std::getline\<close> while the
  stream is good gives the pieces between the line feeds, an empty piece at the end included.
\<close>

record file_text =
  contents :: string
  read_fails :: bool

type_synonym files = "string \<Rightarrow> file_text option"

datatype line_item = SkipLine | BadLine | Entry string string

definition parse_line :: "string \<Rightarrow> line_item" where
  "parse_line raw =
     (let line = trim raw in
      if line = [] then SkipLine
      else if line ! 0 = CHR ''#'' \<or> line ! 0 = CHR ''['' then SkipLine
      else
        (let line = (case find_char line (CHR ''#'') 0 of None \<Rightarrow> line | Some found \<Rightarrow> substr line 0 found)
         in case find_char line (CHR ''='') 0 of
              None \<Rightarrow> BadLine
            | Some equal_pos \<Rightarrow>
                if equal_pos = length line then BadLine
                else Entry (trim (substr line 0 equal_pos))
                  (filter (\<lambda>c. c \<noteq> CHR 0x22) (trim (drop (equal_pos + 1) line)))))"

definition bad_line_msg :: "nat \<Rightarrow> string \<Rightarrow> string" where
  "bad_line_msg n file = ''Config::LoadFile: Failure to read line number '' @ dec_digits n @
     '' in file '' @ quoted file @ ''.Skip this line''"

definition duplicate_msg :: "string \<Rightarrow> string \<Rightarrow> string" where
  "duplicate_msg k file = ''Config::LoadFile: Dublicate key name '' @ quoted k @
     '' in config file '' @ quoted file"

text \<open>
  The loop over the lines: the state, the line number, the entries of this file and their number.
  The result is an exception's message or the entries.
\<close>

fun parse_lines :: "string \<Rightarrow> bool \<Rightarrow> string list \<Rightarrow> nat \<Rightarrow> (string \<times> string) list \<Rightarrow> nat \<Rightarrow> config \<Rightarrow>
    (string + (string \<times> string) list \<times> nat) \<times> config" where
  "parse_lines file fails [] lineNumber fileConfigs count c = (Inr (fileConfigs, count), c)"
| "parse_lines file fails (line # lines) lineNumber fileConfigs count c =
     (let n = lineNumber + 1 in
      if fails \<and> lines = [] then
        (Inl (''Config::LoadFile: Failure  to read line number '' @ dec_digits n @ '' in file '' @ quoted file), c)
      else case parse_line line of
          SkipLine \<Rightarrow> parse_lines file fails lines n fileConfigs count c
        | BadLine \<Rightarrow> parse_lines file fails lines n fileConfigs count (PrintError file (bad_line_msg n file) c)
        | Entry entry value \<Rightarrow>
            if um_find fileConfigs entry \<noteq> None then
              parse_lines file fails lines n fileConfigs count (PrintError file (duplicate_msg entry file) c)
            else parse_lines file fails lines n (um_emplace entry value fileConfigs) (count + 1) c)"

primrec add_keys :: "(string \<times> string) list \<Rightarrow> string \<Rightarrow> bool \<Rightarrow> bool \<Rightarrow> config \<Rightarrow> config" where
  "add_keys [] file isOptional isReload c = c"
| "add_keys (p # ps) file isOptional isReload c =
     add_keys ps file isOptional isReload (AddKey (fst p) (snd p) file isOptional isReload c)"

definition ParseFile :: "files \<Rightarrow> string \<Rightarrow> bool \<Rightarrow> bool \<Rightarrow> config \<Rightarrow> (string + bool) \<times> config" where
  "ParseFile fs file isOptional isReload c =
     (case fs file of
        None \<Rightarrow>
          if isOptional then (Inr False, c)
          else (Inl (''Config::LoadFile: Failed open '' @ (if isOptional then ''optional'' else '''') @
                  '' file '' @ quoted file), c)
      | Some f \<Rightarrow>
          (case parse_lines file (read_fails f) (split_on (CHR 0x0A) (contents f)) 0 [] 0 c of
             (Inl e, c1) \<Rightarrow> (Inl e, c1)
           | (Inr (fileConfigs, count), c1) \<Rightarrow>
               if count = 0 then
                 (if isOptional then (Inr False, c1)
                  else (Inl (''Config::LoadFile: empty file '' @ quoted file), c1))
               else (Inr True, add_keys fileConfigs file isOptional isReload c1)))"

definition LoadFile :: "files \<Rightarrow> string \<Rightarrow> bool \<Rightarrow> bool \<Rightarrow> config \<Rightarrow> bool \<times> config" where
  "LoadFile fs file isOptional isReload c =
     (case ParseFile fs file isOptional isReload c of
        (Inl e, c1) \<Rightarrow> (False, PrintError file e c1)
      | (Inr b, c1) \<Rightarrow> (b, c1))"

subsection \<open>ConfigMgr: loading\<close>

definition LoadInitial :: "files \<Rightarrow> string \<Rightarrow> bool \<Rightarrow> config \<Rightarrow> bool \<times> config" where
  "LoadInitial fs file isReload c = LoadFile fs file False isReload (c\<lparr>configOptions := []\<rparr>)"

definition LoadAdditionalFile :: "files \<Rightarrow> string \<Rightarrow> bool \<Rightarrow> bool \<Rightarrow> config \<Rightarrow> bool \<times> config" where
  "LoadAdditionalFile fs file isOptional isReload c = LoadFile fs file isOptional isReload c"

definition Reload :: "config \<Rightarrow> bool \<times> config" where
  "Reload c = (False, c)"

definition Configure :: "string \<Rightarrow> string list \<Rightarrow> string \<Rightarrow> config \<Rightarrow> config" where
  "Configure initFileName args modulesConfigList c =
     (let c1 = c\<lparr>cfg_filename := initFileName, cfg_args := args\<rparr> in
      if modulesConfigList \<noteq> [] then
        c1\<lparr>additionalFiles := additionalFiles c1 @ tokenize modulesConfigList (CHR '','') False\<rparr>
      else c1)"

definition LoadAppConfigs :: "files \<Rightarrow> bool \<Rightarrow> config \<Rightarrow> bool \<times> config" where
  "LoadAppConfigs fs isReload c =
     (let (ok, c1) = LoadInitial fs (cfg_filename c @ ''.dist'') isReload c in
      if \<not> ok then (False, c1)
      else
        (let (ok2, c2) = LoadAdditionalFile fs (cfg_filename c1) True isReload c1 in
         (True, if \<not> ok2 then c2\<lparr>usingDistConfig := True\<rparr> else c2)))"

text \<open>The directory of the configuration files is fixed when the program is built.\<close>

definition GetConfigPath :: "string \<Rightarrow> string" where
  "GetConfigPath confDir = confDir @ ''/''"

text \<open>\<open>erase(end() - 5, end())\<close>: undefined when there are fewer than five characters.\<close>

definition remove_dist_suffix :: "string \<Rightarrow> string outcome" where
  "remove_dist_suffix name =
     (if name = [] then Ret []
      else if length name < 5 then Crash OutOfBounds
      else Ret (take (length name - 5) name))"

primrec load_modules :: "files \<Rightarrow> string \<Rightarrow> bool \<Rightarrow> string list \<Rightarrow> config \<Rightarrow> (bool \<times> config) outcome" where
  "load_modules fs path isReload [] c = Ret (True, c)"
| "load_modules fs path isReload (distFileName # names) c =
     bind_outcome (remove_dist_suffix distFileName) (\<lambda>defaultFileName.
       let (isExistDistConfig, c1) = LoadAdditionalFile fs (path @ distFileName) False isReload c in
       if \<not> isReload \<and> \<not> isExistDistConfig then
         Ret (False, emit (''server loading, Config::LoadModulesConfigs: Not found original config '' @
           quoted distFileName @ ''. stop loading'') c1)
       else
         (let (isExistDefaultConfig, c2) = LoadAdditionalFile fs (path @ defaultFileName) True isReload c1;
              c3 = (if isExistDefaultConfig \<and> isExistDistConfig then
                      c2\<lparr>moduleConfigFiles := moduleConfigFiles c2 @ [defaultFileName]\<rparr>
                    else if \<not> isExistDefaultConfig \<and> isExistDistConfig then
                      c2\<lparr>moduleConfigFiles := moduleConfigFiles c2 @ [distFileName]\<rparr>
                    else c2)
          in load_modules fs path isReload names c3))"

definition emit_all :: "string list \<Rightarrow> config \<Rightarrow> config" where
  "emit_all ls c = c\<lparr>out := out c @ ls\<rparr>"

definition LoadModulesConfigs ::
  "files \<Rightarrow> string \<Rightarrow> bool \<Rightarrow> bool \<Rightarrow> config \<Rightarrow> (bool \<times> config) outcome" where
  "LoadModulesConfigs fs confDir isReload isNeedPrintInfo c =
     (if additionalFiles c = [] then Ret (True, c)
      else
        (let c1 = (if isNeedPrintInfo then
                     emit_all [''server loading'', ''server.loading Loading modules configuration...''] c
                   else c)
         in bind_outcome
              (load_modules fs (GetConfigPath confDir @ ''modules/'') isReload (additionalFiles c1) c1)
              (\<lambda>(ok, c2).
                 if \<not> ok then Ret (False, c2)
                 else if isNeedPrintInfo then
                   Ret (True, emit_all
                     ((if moduleConfigFiles c2 \<noteq> [] then
                         ''server loading.Using modules configuration:'' #
                           map (\<lambda>f. ''server loading.'' @ f) (moduleConfigFiles c2)
                       else [''server loading.Not found modules config files'']) @
                      [''modules config load end'']) c2)
                 else Ret (True, c2))))"

subsection \<open>ConfigMgr: reading options\<close>

text \<open>
  The readers are const member functions that may print: a value and the lines printed.
  \<open>mpool::ToString\<close> of the default is part of the message.
\<close>

definition GetValueDefault_int :: "int_type \<Rightarrow> string \<Rightarrow> int \<Rightarrow> bool \<Rightarrow> config \<Rightarrow> int \<times> string list" where
  "GetValueDefault_int ty name dflt showLogs c =
     (case um_find (configOptions c) name of
        None \<Rightarrow>
          (dflt, if showLogs then
             [''server loading, Config: Missing property '' @ name @
              '' in all config files, at least the .dist file must contain: '' @ [CHR 0x22] @ name @ '' = '' @
              to_string_int [] dflt @ [CHR 0x22]]
           else [])
      | Some v \<Rightarrow>
          (case from_string_int ty v 10 of
             None \<Rightarrow>
               (dflt, if showLogs then
                  [''server loading, Config: Bad value defined for name '' @ quoted name @
                   '', going to use '' @ quoted (to_string_int [] dflt) @ '' instead'']
                else [])
           | Some i \<Rightarrow> (i, [])))"

definition GetValueDefault_string :: "string \<Rightarrow> string \<Rightarrow> bool \<Rightarrow> config \<Rightarrow> string \<times> string list" where
  "GetValueDefault_string name dflt showLogs c =
     (case um_find (configOptions c) name of
        None \<Rightarrow>
          (dflt, if showLogs then
             [''server loading, config::Missing option '' @ name @ '', add '' @ [CHR 0x22] @ name @ '' = '' @
              dflt @ [CHR 0x22]]
           else [])
      | Some v \<Rightarrow> (v, []))"

definition GetOption_int :: "int_type \<Rightarrow> string \<Rightarrow> int \<Rightarrow> bool \<Rightarrow> config \<Rightarrow> int \<times> string list" where
  "GetOption_int ty name dflt showLogs c = GetValueDefault_int ty name dflt showLogs c"

definition GetOption_string :: "string \<Rightarrow> string \<Rightarrow> bool \<Rightarrow> config \<Rightarrow> string \<times> string list" where
  "GetOption_string name dflt showLogs c = GetValueDefault_string name dflt showLogs c"

definition GetOption_bool :: "string \<Rightarrow> bool \<Rightarrow> bool \<Rightarrow> config \<Rightarrow> bool \<times> string list" where
  "GetOption_bool name dflt showLogs c =
     (let (val, lines) = GetValueDefault_string name (if dflt then ''1'' else ''0'') showLogs c in
      case from_string_bool val 0 of
        None \<Rightarrow>
          (dflt, lines @ (if showLogs then
             [''server loading, Config: bad value defined for name '' @ quoted name @ '', going to use '' @
              quoted (if dflt then ''true'' else ''false'') @ '' instead'']
           else []))
      | Some b \<Rightarrow> (b, lines))"

text \<open>\<open>optionName.compare(0, n, name) == 0\<close>: the name is a prefix.\<close>

definition GetKeysByString :: "string \<Rightarrow> config \<Rightarrow> string list" where
  "GetKeysByString name c = filter (\<lambda>k. take (length name) k = name) (map fst (configOptions c))"

definition GetFilename :: "config \<Rightarrow> string" where
  "GetFilename c = (if usingDistConfig c then cfg_filename c @ ''.dist'' else cfg_filename c)"

definition GetArguments :: "config \<Rightarrow> string list" where
  "GetArguments c = cfg_args c"

definition GetStringDefault :: "string \<Rightarrow> string \<Rightarrow> bool \<Rightarrow> config \<Rightarrow> string \<times> string list" where
  "GetStringDefault name dflt showLogs c = GetOption_string name dflt showLogs c"

definition GetBoolDefault :: "string \<Rightarrow> bool \<Rightarrow> bool \<Rightarrow> config \<Rightarrow> bool \<times> string list" where
  "GetBoolDefault name dflt showLogs c = GetOption_bool name dflt showLogs c"

definition GetIntDefault :: "string \<Rightarrow> int \<Rightarrow> bool \<Rightarrow> config \<Rightarrow> int \<times> string list" where
  "GetIntDefault name dflt showLogs c = GetOption_int ty_int32 name dflt showLogs c"


subsection \<open>Lemmas\<close>

lemma emit_simps [simp]:
  "configOptions (emit l c) = configOptions c" "cfg_filename (emit l c) = cfg_filename c"
  "usingDistConfig (emit l c) = usingDistConfig c" "additionalFiles (emit l c) = additionalFiles c"
  "moduleConfigFiles (emit l c) = moduleConfigFiles c" "cfg_args (emit l c) = cfg_args c"
  by (simp_all add: emit_def)

lemma PrintError_simps [simp]:
  "configOptions (PrintError f l c) = configOptions c" "cfg_filename (PrintError f l c) = cfg_filename c"
  "usingDistConfig (PrintError f l c) = usingDistConfig c"
  "additionalFiles (PrintError f l c) = additionalFiles c"
  "moduleConfigFiles (PrintError f l c) = moduleConfigFiles c" "cfg_args (PrintError f l c) = cfg_args c"
  by (simp_all add: PrintError_def)

text \<open>The part of the state only the explicit assignments change.\<close>

definition frame :: "config \<Rightarrow> string \<times> bool \<times> string list \<times> string list \<times> string list" where
  "frame c = (cfg_filename c, usingDistConfig c, additionalFiles c, moduleConfigFiles c, cfg_args c)"

lemma frame_PrintError [simp]: "frame (PrintError f l c) = frame c" "frame (emit l c) = frame c"
  by (simp_all add: frame_def)

lemma frame_options [simp]: "frame (c\<lparr>configOptions := m\<rparr>) = frame c"
  by (simp add: frame_def)

lemma AddKey_mandatory: "configOptions (AddKey k v f False r c) = um_put k v (configOptions c)"
  by (simp add: AddKey_def um_put_def Let_def)

lemma AddKey_optional:
  "configOptions (AddKey k v f True r c) =
    (if um_find (configOptions c) k = None then configOptions c else um_put k v (configOptions c))"
  by (simp add: AddKey_def um_put_def Let_def)

lemma frame_AddKey [simp]: "frame (AddKey k v f opt r c) = frame c"
  by (simp add: AddKey_def Let_def)

lemma add_keys_mandatory:
  "configOptions (add_keys ps f False r c) = opts.put_all ps (configOptions c)"
  by (induction ps arbitrary: c) (simp_all add: AddKey_mandatory)

lemma add_keys_optional:
  "configOptions (add_keys ps f True r c) = opts.put_known ps (configOptions c)"
  by (induction ps arbitrary: c) (simp_all add: AddKey_optional)

lemma frame_add_keys [simp]: "frame (add_keys ps f opt r c) = frame c"
  by (induction ps arbitrary: c) simp_all

lemma put_all_distinct: "distinct (map fst m) \<Longrightarrow> distinct (map fst (opts.put_all ps m))"
  by (induction ps arbitrary: m) (simp_all add: um_put_distinct)

lemma put_known_distinct: "distinct (map fst m) \<Longrightarrow> distinct (map fst (opts.put_known ps m))"
  by (induction ps arbitrary: m) (simp_all add: um_put_distinct)

text \<open>The entries of a file in the order of its lines, duplicates included.\<close>

primrec line_entries :: "string list \<Rightarrow> (string \<times> string) list" where
  "line_entries [] = []"
| "line_entries (l # ls) =
     (case parse_line l of Entry k v \<Rightarrow> (k, v) # line_entries ls | _ \<Rightarrow> line_entries ls)"

definition file_entries :: "file_text \<Rightarrow> (string \<times> string) list" where
  "file_entries f = line_entries (split_on (CHR 0x0A) (contents f))"

lemma parse_lines_ok:
  assumes "parse_lines fname fails lines n fc count c = (Inr (fc', count'), c')" and "distinct (map fst fc)"
  shows "map_of fc' = map_of (fc @ line_entries lines) \<and> distinct (map fst fc') \<and>
    count' + length fc = count + length fc' \<and> configOptions c' = configOptions c \<and> frame c' = frame c"
  using assms
proof (induction lines arbitrary: n fc count c)
  case (Cons line lines)
  have nf: "\<not> (fails \<and> lines = [])" using Cons.prems(1) by (auto simp: Let_def)
  show ?case
  proof (cases "parse_line line")
    case (Entry k v)
    show ?thesis
    proof (cases "um_find fc k")
      case None
      then have e: "um_emplace k v fc = fc @ [(k, v)]" and d: "distinct (map fst (fc @ [(k, v)]))"
        using Cons.prems(2) by (auto simp: um_emplace_def um_find_def map_of_eq_None_iff)
      from Cons.prems(1) nf Entry None e
      have "parse_lines fname fails lines (n + 1) (fc @ [(k, v)]) (count + 1) c = (Inr (fc', count'), c')"
        by (simp add: Let_def)
      from Cons.IH [OF this d] show ?thesis by (simp add: Entry)
    next
      case (Some w)
      from Cons.prems(1) nf Entry Some
      have "parse_lines fname fails lines (n + 1) fc count (PrintError fname (duplicate_msg k fname) c) =
          (Inr (fc', count'), c')" by (simp add: Let_def)
      note ih = Cons.IH [OF this Cons.prems(2)]
      have "map_of (fc @ (k, v) # line_entries lines) = map_of (fc @ line_entries lines)"
        using Some by (auto simp: um_find_def map_add_def fun_eq_iff split: option.splits)
      with ih show ?thesis by (simp add: Entry)
    qed
  next
    case SkipLine
    with Cons.prems(1) nf have "parse_lines fname fails lines (n + 1) fc count c = (Inr (fc', count'), c')"
      by (simp add: Let_def)
    from Cons.IH [OF this Cons.prems(2)] show ?thesis by (simp add: SkipLine)
  next
    case BadLine
    with Cons.prems(1) nf have "parse_lines fname fails lines (n + 1) fc count
        (PrintError fname (bad_line_msg (n + 1) fname) c) = (Inr (fc', count'), c')"
      by (simp add: Let_def)
    from Cons.IH [OF this Cons.prems(2)] show ?thesis by (simp add: BadLine)
  qed
qed simp

lemma parse_lines_Inr:
  "\<exists>r c'. parse_lines fname False lines n fc count c = (Inr r, c')"
  by (induction fname "False" lines n fc count c rule: parse_lines.induct)
    (auto simp: Let_def split: line_item.splits)

lemma parse_lines_fails:
  "lines \<noteq> [] \<Longrightarrow> \<exists>e c'. parse_lines fname True lines n fc count c = (Inl e, c') \<and>
    configOptions c' = configOptions c \<and> frame c' = frame c"
proof (induction fname True lines n fc count c rule: parse_lines.induct)
  case (2 fname line lines n fc count c)
  then show ?case by (cases "lines = []") (auto simp: Let_def split: line_item.splits)
qed simp

text \<open>What a file gives: nothing when it cannot be opened, the read fails or it has no entry.\<close>

definition loaded :: "files \<Rightarrow> string \<Rightarrow> (string \<Rightarrow> string option) option" where
  "loaded fs fname =
     (case fs fname of None \<Rightarrow> None
      | Some f \<Rightarrow> if read_fails f \<or> file_entries f = [] then None else Some (map_of (file_entries f)))"

definition overlay :: "bool \<Rightarrow> (string \<Rightarrow> string option) \<Rightarrow> (string \<Rightarrow> string option) \<Rightarrow> string \<Rightarrow> string option" where
  "overlay isOptional new old k =
     (if isOptional then (case old k of None \<Rightarrow> None
        | Some d \<Rightarrow> Some (case new k of None \<Rightarrow> d | Some v \<Rightarrow> v))
      else (case new k of None \<Rightarrow> old k | Some v \<Rightarrow> Some v))"

lemma LoadFile_spec:
  assumes "LoadFile fs fname opt r c = (ok, c')"
  shows "frame c' = frame c \<and>
    (case loaded fs fname of
       None \<Rightarrow> \<not> ok \<and> configOptions c' = configOptions c
     | Some m \<Rightarrow> ok \<and> um_find (configOptions c') = overlay opt m (um_find (configOptions c)))"
proof (cases "fs fname")
  case None
  then show ?thesis using assms by (auto simp: LoadFile_def ParseFile_def loaded_def split: if_splits)
next
  case (Some f)
  let ?ls = "split_on (CHR 0x0A) (contents f)"
  show ?thesis
  proof (cases "read_fails f")
    case True
    then show ?thesis using assms Some parse_lines_fails [of ?ls fname 0 "[]" 0 c]
      by (auto simp: LoadFile_def ParseFile_def loaded_def)
  next
    case False
    obtain fc count c1 where p: "parse_lines fname False ?ls 0 [] 0 c = (Inr (fc, count), c1)"
      using parse_lines_Inr [of fname ?ls 0 "[]" 0 c] by auto
    note ok = parse_lines_ok [OF this]
    have m: "map_of fc = map_of (file_entries f)" and d: "distinct (map fst fc)" and n: "count = length fc"
      and c1: "configOptions c1 = configOptions c" "frame c1 = frame c"
      using ok by (simp_all add: file_entries_def)
    have empty: "fc = [] \<longleftrightarrow> file_entries f = []"
      by (metis m map_of_eq_empty_iff)
    show ?thesis
    proof (cases "file_entries f = []")
      case True
      then show ?thesis using assms Some False p c1 n empty
        by (auto simp: LoadFile_def ParseFile_def loaded_def split: if_splits)
    next
      case ne: False
      have "um_find (configOptions (add_keys fc fname opt r c1)) =
          overlay opt (map_of (file_entries f)) (um_find (configOptions c))"
        using opts.lookup_put_all [OF d, unfolded m] opts.lookup_put_known [OF d, unfolded m]
        by (cases opt) (simp_all add: add_keys_mandatory add_keys_optional overlay_def fun_eq_iff c1)
      moreover have "ok \<and> c' = add_keys fc fname opt r c1"
        using assms Some False p n empty ne by (auto simp: LoadFile_def ParseFile_def)
      ultimately show ?thesis using Some False ne c1 by (simp add: loaded_def)
    qed
  qed
qed


lemma overlay_empty: "overlay False m (\<lambda>k. None) = m"
  by (auto simp: overlay_def fun_eq_iff split: option.splits)

lemma LoadAppConfigs_spec:
  assumes "LoadAppConfigs fs r c = (ok, c')"
  shows "ok = (loaded fs (cfg_filename c @ ''.dist'') \<noteq> None) \<and>
    um_find (configOptions c') =
      (case loaded fs (cfg_filename c @ ''.dist'') of
         None \<Rightarrow> (\<lambda>k. None)
       | Some d \<Rightarrow> (case loaded fs (cfg_filename c) of None \<Rightarrow> d | Some m \<Rightarrow> overlay True m d)) \<and>
    cfg_filename c' = cfg_filename c \<and>
    usingDistConfig c' = (usingDistConfig c \<or> (ok \<and> loaded fs (cfg_filename c) = None))"
proof -
  obtain ok1 c1 where l1: "LoadFile fs (cfg_filename c @ ''.dist'') False r (c\<lparr>configOptions := []\<rparr>) = (ok1, c1)"
    by fastforce
  obtain ok2 c2 where l2: "LoadFile fs (cfg_filename c) True r c1 = (ok2, c2)" by fastforce
  note s1 = LoadFile_spec [OF l1]
  note s2 = LoadFile_spec [OF l2]
  have empty: "um_find [] = (\<lambda>k. None)" by (simp add: um_find_def fun_eq_iff)
  have fr: "cfg_filename c1 = cfg_filename c" "usingDistConfig c1 = usingDistConfig c"
    using s1 by (simp_all add: frame_def)
  show ?thesis
    using assms l1 l2 s1 s2 fr
    by (auto simp: LoadAppConfigs_def LoadInitial_def LoadAdditionalFile_def frame_def empty overlay_empty
        split: option.splits if_splits)
qed

subsection \<open>Properties\<close>

text \<open>
  C14. The two layers of the configuration: loading succeeds exactly when the \<open>.dist\<close> file can be
  read and has an entry; then the options are those of the \<open>.dist\<close> file, with the values of the
  \<open>.conf\<close> file for the keys both have. A \<open>.conf\<close> file never adds a key. When the load fails the
  options that were loaded before are gone.
\<close>

theorem app_configs_layering:
  assumes "LoadAppConfigs fs r c = (ok, c')"
  shows "ok = (loaded fs (cfg_filename c @ ''.dist'') \<noteq> None) \<and>
    um_find (configOptions c') =
      (case loaded fs (cfg_filename c @ ''.dist'') of
         None \<Rightarrow> (\<lambda>k. None)
       | Some d \<Rightarrow> (case loaded fs (cfg_filename c) of None \<Rightarrow> d | Some m \<Rightarrow> overlay True m d))"
  using LoadAppConfigs_spec [OF assms] by blast

definition sample_files :: files where
  "sample_files =
     [''a.dist'' \<mapsto> \<lparr>contents = ''# c'' @ [CHR 0x0A] @ ''K = 1'' @ [CHR 0x0A] @ ''L= x'' @ [CHR 0x0A] @ ''K=9'',
        read_fails = False\<rparr>,
      ''a'' \<mapsto> \<lparr>contents = ''K=2'' @ [CHR 0x0A] @ ''M=3'', read_fails = False\<rparr>]"


lemmas parse_line_eval = parse_line_def trim_eq_strip strip_def strip_right_def is_space_def find_char_def
  substr_def Let_def

lemma sample_line_1: "parse_line ''# c'' = SkipLine"
  by (simp add: parse_line_eval)

lemma sample_line_2: "parse_line ''K = 1'' = Entry ''K'' ''1''"
  by (simp add: parse_line_eval)

lemma sample_line_3: "parse_line ''L= x'' = Entry ''L'' ''x''"
  by (simp add: parse_line_eval)

lemma sample_line_4: "parse_line ''K=9'' = Entry ''K'' ''9''"
  by (simp add: parse_line_eval)

lemma sample_line_5: "parse_line ''K=2'' = Entry ''K'' ''2''"
  by (simp add: parse_line_eval)

lemma sample_line_6: "parse_line ''M=3'' = Entry ''M'' ''3''"
  by (simp add: parse_line_eval)

lemmas sample_lines = sample_line_1 sample_line_2 sample_line_3 sample_line_4 sample_line_5 sample_line_6

lemma sample_split:
  "split_on (CHR 0x0A) (''# c'' @ [CHR 0x0A] @ ''K = 1'' @ [CHR 0x0A] @ ''L= x'' @ [CHR 0x0A] @ ''K=9'') =
    [''# c'', ''K = 1'', ''L= x'', ''K=9'']"
  "split_on (CHR 0x0A) (''K=2'' @ [CHR 0x0A] @ ''M=3'') = [''K=2'', ''M=3'']"
  using split_on_join_with [of "[''# c'', ''K = 1'', ''L= x'', ''K=9'']" "CHR 0x0A"]
    split_on_join_with [of "[''K=2'', ''M=3'']" "CHR 0x0A"]
  by (simp_all del: split_on.simps)

lemma sample_files_at:
  "sample_files ''a'' = Some \<lparr>contents = ''K=2'' @ [CHR 0x0A] @ ''M=3'', read_fails = False\<rparr>"
  "sample_files ''a.dist'' = Some \<lparr>contents = ''# c'' @ [CHR 0x0A] @ ''K = 1'' @ [CHR 0x0A] @ ''L= x'' @
     [CHR 0x0A] @ ''K=9'', read_fails = False\<rparr>"
  by (simp_all add: sample_files_def)

lemma sample_loaded:
  "loaded sample_files ''a.dist'' = Some (map_of [(''K'', ''1''), (''L'', ''x''), (''K'', ''9'')])"
  "loaded sample_files ''a'' = Some (map_of [(''K'', ''2''), (''M'', ''3'')])"
  by (simp_all only: loaded_def sample_files_at option.case file_entries_def file_text.simps sample_split
      line_entries.simps sample_lines line_item.case if_False simp_thms list.distinct)

theorem app_configs_layering_witness:
  "\<exists>c'. LoadAppConfigs sample_files False (config_new\<lparr>cfg_filename := ''a''\<rparr>) = (True, c') \<and>
    um_find (configOptions c') ''K'' = Some ''2'' \<and> um_find (configOptions c') ''L'' = Some ''x'' \<and>
    um_find (configOptions c') ''M'' = None"
proof -
  let ?c = "config_new\<lparr>cfg_filename := ''a''\<rparr>"
  obtain ok c' where l: "LoadAppConfigs sample_files False ?c = (ok, c')" by fastforce
  from app_configs_layering [OF l] show ?thesis
    by (simp add: l sample_loaded overlay_def)
qed

text \<open>
  The flag that makes \<open>GetFilename\<close> report the \<open>.dist\<close> file is set when the \<open>.conf\<close> file cannot
  be used, and no operation clears it: after a later load that does use the \<open>.conf\<close> file the name
  reported is still the \<open>.dist\<close> file.
\<close>

theorem using_dist_is_never_reset:
  assumes "LoadAppConfigs fs r c = (ok, c')" and "LoadAppConfigs fs' r' c' = (ok', c'')"
  shows "(ok \<and> loaded fs (cfg_filename c) = None \<longrightarrow> GetFilename c'' = cfg_filename c @ ''.dist'') \<and>
    (usingDistConfig c \<longrightarrow> usingDistConfig c'') \<and>
    (usingDistConfig c'' \<longrightarrow> usingDistConfig c \<or> (ok \<and> loaded fs (cfg_filename c) = None) \<or>
      (ok' \<and> loaded fs' (cfg_filename c) = None))"
  using LoadAppConfigs_spec [OF assms(1)] LoadAppConfigs_spec [OF assms(2)] by (auto simp: GetFilename_def)

theorem using_dist_is_never_reset_witness:
  "\<exists>c' c''. LoadAppConfigs (sample_files(''a'' := None)) False (config_new\<lparr>cfg_filename := ''a''\<rparr>) = (True, c') \<and>
    LoadAppConfigs sample_files True c' = (True, c'') \<and>
    um_find (configOptions c'') ''K'' = Some ''2'' \<and> GetFilename c'' = ''a.dist''"
proof -
  let ?c = "config_new\<lparr>cfg_filename := ''a''\<rparr>" and ?fs = "sample_files(''a'' := None)"
  obtain ok c' where l: "LoadAppConfigs ?fs False ?c = (ok, c')" by fastforce
  obtain ok' c'' where l': "LoadAppConfigs sample_files True c' = (ok', c'')" by fastforce
  have "loaded ?fs ''a.dist'' = loaded sample_files ''a.dist''" "loaded ?fs ''a'' = None"
    by (simp_all add: loaded_def)
  then show ?thesis
    using using_dist_is_never_reset [OF l l'] LoadAppConfigs_spec [OF l] LoadAppConfigs_spec [OF l'] l l'
    by (simp add: sample_loaded overlay_def)
qed

lemma strip_space_left: "list_all is_space ws \<Longrightarrow> strip (ws @ x) = strip x"
  by (induction ws) (auto simp: strip_def)

lemma strip_nonspace_hd: "x \<noteq> [] \<Longrightarrow> \<not> is_space (hd x) \<Longrightarrow> strip x = strip_right x"
  by (cases x) (auto simp: strip_def)

lemma strip_right_hash: "\<exists>r'. strip_right (CHR ''#'' # r) = CHR ''#'' # r'"
proof -
  have "\<not> is_space CHR ''#''" by (simp add: is_space_def)
  then have ne: "strip_right (CHR ''#'' # r) \<noteq> []" by (simp add: strip_right_eq_Nil_iff)
  from strip_right_hd [OF ne] ne show ?thesis by (cases "strip_right (CHR ''#'' # r)") auto
qed

lemma strip_right_id: "x \<noteq> [] \<Longrightarrow> \<not> is_space (last x) \<Longrightarrow> strip_right x = x"
  by (cases x rule: rev_cases) (auto simp: strip_right_snoc)

lemma strip_sandwich:
  assumes "list_all is_space a" and "list_all is_space b" and "x \<noteq> []"
    and "\<not> is_space (hd x)" and "\<not> is_space (last x)"
  shows "strip (a @ x @ b) = x"
  using assms by (simp add: strip_space_left strip_nonspace_hd strip_right_append strip_right_id)

lemma find_char_first: "c \<notin> set xs \<Longrightarrow> find_char (xs @ c # ys) c 0 = Some (length xs)"
  by (simp add: find_char_def index_of_append_notin)

lemma find_char_none: "c \<notin> set xs \<Longrightarrow> find_char xs c 0 = None"
  by (simp add: find_char_def)

lemma space_not: "list_all is_space ws \<Longrightarrow> CHR ''#'' \<notin> set ws \<and> CHR ''='' \<notin> set ws"
  by (auto simp: list_all_iff is_space_def)

text \<open>
  C34. A line of a configuration file written in the usual form is read back: any key without
  equal sign, hash or blank ends, any value without hash or quote, in quotes, with any blanks
  around the parts and any comment behind. Blanks inside the quotes belong to the value.
\<close>

theorem config_line_roundtrip:
  assumes "k \<noteq> []" and "CHR ''='' \<notin> set k" and "CHR ''#'' \<notin> set k" and "hd k \<noteq> CHR ''[''"
    and "\<not> is_space (hd k)" and "\<not> is_space (last k)"
    and "CHR ''#'' \<notin> set v" and "CHR 0x22 \<notin> set v"
    and "list_all is_space (w1 @ w2 @ w3 @ w4)" and "cm = [] \<or> cm = CHR ''#'' # r"
  shows "parse_line (w1 @ k @ w2 @ ''='' @ w3 @ [CHR 0x22] @ v @ [CHR 0x22] @ w4 @ cm) = Entry k v"
proof -
  define qv where "qv = [CHR 0x22] @ v @ [CHR 0x22]"
  define body where "body = k @ w2 @ ''='' @ w3 @ qv"
  have sp: "list_all is_space w1" "list_all is_space w2" "list_all is_space w3" "list_all is_space w4"
    using assms(9) by simp_all
  have quote: "\<not> is_space CHR 0x22" by (simp add: is_space_def)
  have q: "qv \<noteq> []" "hd qv = CHR 0x22" "last qv = CHR 0x22" "CHR ''#'' \<notin> set qv"
    using assms(7) by (simp_all add: qv_def)
  have b: "body \<noteq> []" "hd body = hd k" "last body = CHR 0x22" "CHR ''#'' \<notin> set body"
    using assms(1,3) q space_not [OF sp(2)] space_not [OF sp(3)] by (simp_all add: body_def)
  have hdk: "hd k \<noteq> CHR ''#''" using assms(1,3) by (cases k) auto
  obtain line w where line: "strip (w1 @ body @ w4 @ cm) = line" "hd line = hd k" "line \<noteq> []"
    and cut: "(case find_char line (CHR ''#'') 0 of None \<Rightarrow> line | Some i \<Rightarrow> substr line 0 i) = body @ w"
    and w: "list_all is_space w"
  proof (cases "cm = []")
    case True
    have "strip (w1 @ body @ w4 @ cm) = body"
      using strip_sandwich [OF sp(1) sp(4) b(1)] assms(5) quote b(2,3) True by simp
    with b show thesis by (intro that [of body "[]"]) (simp_all add: find_char_none)
  next
    case False
    with assms(10) have cm: "cm = CHR ''#'' # r" by simp
    obtain r' where r': "strip_right cm = CHR ''#'' # r'" using strip_right_hash cm by blast
    have "strip (w1 @ body @ w4 @ cm) = (body @ w4) @ CHR ''#'' # r'"
      using strip_right_append_keep [of cm "body @ w4"] sp(1) b(1,2) assms(5) r'
      by (simp add: strip_space_left strip_nonspace_hd)
    moreover have "CHR ''#'' \<notin> set (body @ w4)" using b(4) space_not [OF sp(4)] by simp
    then have "(case find_char ((body @ w4) @ CHR ''#'' # r') (CHR ''#'') 0 of
        None \<Rightarrow> (body @ w4) @ CHR ''#'' # r'
      | Some i \<Rightarrow> substr ((body @ w4) @ CHR ''#'' # r') 0 i) = body @ w4"
      by (subst find_char_first) (simp_all add: substr_def)
    ultimately show thesis using b(1,2) sp(4)
      by (intro that [of "(body @ w4) @ CHR ''#'' # r'" w4]) (assumption | simp)+
  qed
  have key: "strip (k @ w2) = k"
    using strip_sandwich [of "[]" w2 k] sp(2) assms(1,5,6) by simp
  have val: "strip (w3 @ qv @ w) = qv"
    using strip_sandwich [OF sp(3) w q(1)] quote q by simp
  have noeq: "CHR ''='' \<notin> set (k @ w2)" using assms(2) space_not [OF sp(2)] by simp
  have eqpos: "find_char (body @ w) (CHR ''='') 0 = Some (length (k @ w2))"
    using find_char_first [OF noeq, of "w3 @ qv @ w"] by (simp add: body_def)
  have parts: "substr (body @ w) 0 (length (k @ w2)) = k @ w2"
    "drop (length (k @ w2) + 1) (body @ w) = w3 @ qv @ w" "length (k @ w2) \<noteq> length (body @ w)"
    by (simp_all add: body_def substr_def)
  have fv: "filter (\<lambda>c. c \<noteq> CHR 0x22) qv = v"
    using assms(8) by (auto simp: qv_def filter_id_conv)
  have h0: "line ! 0 = hd k" using line(2,3) by (simp add: hd_conv_nth)
  have "parse_line (w1 @ body @ w4 @ cm) = Entry k v"
    unfolding parse_line_def trim_eq_strip line(1) Let_def cut eqpos option.case parts(1,2) key val fv
    using line(3) h0 hdk assms(4) parts(3) by simp
  then show ?thesis by (simp add: body_def qv_def)
qed

theorem config_line_roundtrip_witness:
  "parse_line '' Port = \"80 \" # http'' = Entry ''Port'' ''80 ''"
  using config_line_roundtrip [of "''Port''" "''80 ''" "'' ''" "'' ''" "'' ''" "'' ''" "''# http''" "'' http''"]
  by (simp add: is_space_def)


text \<open>
  Reading an integer option: a stored decimal numeral in the range of the type gives the
  number without a message; a missing option or a value that is not wholly a number of the type
  gives the default, and the value returned is in the range whenever the default is.
\<close>

theorem get_option_int:
  assumes "int_min ty \<le> dflt" and "dflt \<le> int_max ty"
  shows "(int_min ty \<le> v \<and> v \<le> int_max ty \<and>
        um_find (configOptions c) name = Some (dec_int v) \<longrightarrow>
      GetOption_int ty name dflt logs c = (v, [])) \<and>
    (um_find (configOptions c) name = None \<or> um_find (configOptions c) name = Some [] \<longrightarrow>
      fst (GetOption_int ty name dflt logs c) = dflt \<and>
      (length (snd (GetOption_int ty name dflt logs c)) = (if logs then 1 else 0))) \<and>
    int_min ty \<le> fst (GetOption_int ty name dflt logs c) \<and>
    fst (GetOption_int ty name dflt logs c) \<le> int_max ty"
proof -
  have empty: "from_string_int ty [] 10 = None"
    by (simp add: from_string_int_def from_chars_def Let_def)
  have range: "int_min ty \<le> x \<and> x \<le> int_max ty" if "from_string_int ty s 10 = Some x" for s x
    using from_string_int_range [OF that] by simp
  show ?thesis
    using assms range from_string_int_dec_int [of ty v]
    by (auto simp: GetOption_int_def GetValueDefault_int_def empty split: option.splits)
qed


theorem get_option_int_witness:
  "GetOption_int ty_uint16 ''ServerPort'' 1234 True
     (config_new\<lparr>configOptions := [(''BindIP'', ''0.0.0.0''), (''ServerPort'', ''8085'')]\<rparr>) = (8085, [])"
proof -
  have "dec_int 8085 = ''8085''" by (simp add: dec_int_def dec_digits.simps digit_char_def char_of_eq_iff)
  then show ?thesis
    using get_option_int [of ty_uint16 1234 8085
        "config_new\<lparr>configOptions := [(''BindIP'', ''0.0.0.0''), (''ServerPort'', ''8085'')]\<rparr>" "''ServerPort''" True]
    by (simp add: int_type_defs um_find_def)
qed

definition module_layer ::
  "files \<Rightarrow> string \<Rightarrow> (string \<Rightarrow> string option) \<Rightarrow> string \<Rightarrow> string \<Rightarrow> string option" where
  "module_layer fs path old n =
     (let m = (case loaded fs (path @ n) of None \<Rightarrow> old | Some d \<Rightarrow> overlay False d old) in
      case loaded fs (path @ take (length n - 5) n) of None \<Rightarrow> m | Some f \<Rightarrow> overlay True f m)"

definition module_used :: "files \<Rightarrow> string \<Rightarrow> string \<Rightarrow> string" where
  "module_used fs path n =
     (if loaded fs (path @ take (length n - 5) n) = None then n else take (length n - 5) n)"

lemma remove_dist_suffix_ok: "n = [] \<or> 5 \<le> length n \<Longrightarrow> remove_dist_suffix n = Ret (take (length n - 5) n)"
  by (auto simp: remove_dist_suffix_def)

lemma remove_dist_suffix_short: "n \<noteq> [] \<Longrightarrow> length n < 5 \<Longrightarrow> remove_dist_suffix n = Crash OutOfBounds"
  by (simp add: remove_dist_suffix_def)

lemma load_modules_step:
  assumes "loaded fs (path @ n) \<noteq> None" and "n = [] \<or> 5 \<le> length n"
  shows "\<exists>c'. load_modules fs path r (n # ns) c = load_modules fs path r ns c' \<and>
    um_find (configOptions c') = module_layer fs path (um_find (configOptions c)) n \<and>
    moduleConfigFiles c' = moduleConfigFiles c @ [module_used fs path n]"
proof -
  let ?b = "take (length n - 5) n"
  obtain ok1 c1 where l1: "LoadFile fs (path @ n) False r c = (ok1, c1)" by fastforce
  obtain ok2 c2 where l2: "LoadFile fs (path @ ?b) True r c1 = (ok2, c2)" by fastforce
  note s1 = LoadFile_spec [OF l1]
  note s2 = LoadFile_spec [OF l2]
  obtain d where d: "loaded fs (path @ n) = Some d" using assms(1) by auto
  have 1: "ok1" "um_find (configOptions c1) = overlay False d (um_find (configOptions c))"
    "moduleConfigFiles c1 = moduleConfigFiles c"
    using s1 d by (simp_all add: frame_def)
  have 2: "ok2 = (loaded fs (path @ ?b) \<noteq> None)" "moduleConfigFiles c2 = moduleConfigFiles c"
    "um_find (configOptions c2) = module_layer fs path (um_find (configOptions c)) n"
    using s2 1 d by (auto simp: frame_def module_layer_def split: option.splits)
  show ?thesis
  proof (intro exI conjI)
    show "load_modules fs path r (n # ns) c =
        load_modules fs path r ns (c2\<lparr>moduleConfigFiles := moduleConfigFiles c2 @ [module_used fs path n]\<rparr>)"
      using 1 2 by (auto simp: remove_dist_suffix_ok [OF assms(2)] LoadAdditionalFile_def l1 l2 module_used_def Let_def)
  qed (use 2 in simp_all)
qed

lemma load_modules_spec:
  assumes "list_all (\<lambda>n. loaded fs (path @ n) \<noteq> None) ns"
  shows "if list_all (\<lambda>n. n = [] \<or> 5 \<le> length n) ns
    then \<exists>c'. load_modules fs path r ns c = Ret (True, c') \<and>
      moduleConfigFiles c' = moduleConfigFiles c @ map (module_used fs path) ns \<and>
      um_find (configOptions c') = foldl (module_layer fs path) (um_find (configOptions c)) ns
    else load_modules fs path r ns c = Crash OutOfBounds"
  using assms
proof (induction ns arbitrary: c)
  case (Cons n ns)
  show ?case
  proof (cases "n = [] \<or> 5 \<le> length n")
    case True
    obtain c1 where "load_modules fs path r (n # ns) c = load_modules fs path r ns c1"
      "um_find (configOptions c1) = module_layer fs path (um_find (configOptions c)) n"
      "moduleConfigFiles c1 = moduleConfigFiles c @ [module_used fs path n]"
      using load_modules_step [of fs path n r ns c] Cons.prems True by auto
    then show ?thesis using Cons.IH [of c1] Cons.prems True by (simp split: if_splits)
  next
    case False
    then show ?thesis by (simp add: remove_dist_suffix_short)
  qed
qed simp

text \<open>
  Loading the modules' files when every listed \<open>.dist\<close> file can be used: with names of at least
  five characters each module adds its own keys, overridden by its \<open>.conf\<close> file, in the order of
  the list, and the list of used files names the \<open>.conf\<close> file exactly where one could be used. A
  name of one to four characters is undefined behaviour: the suffix is cut off in front of the
  string.
\<close>

theorem modules_load:
  assumes "additionalFiles c \<noteq> []" and "path = confDir @ ''/'' @ ''modules/''"
    and "list_all (\<lambda>n. loaded fs (path @ n) \<noteq> None) (additionalFiles c)"
  shows "if list_all (\<lambda>n. n = [] \<or> 5 \<le> length n) (additionalFiles c)
    then \<exists>c'. LoadModulesConfigs fs confDir r prnt c = Ret (True, c') \<and>
      moduleConfigFiles c' = moduleConfigFiles c @ map (module_used fs path) (additionalFiles c) \<and>
      um_find (configOptions c') = foldl (module_layer fs path) (um_find (configOptions c)) (additionalFiles c)
    else LoadModulesConfigs fs confDir r prnt c = Crash OutOfBounds"
proof -
  define c1 where "c1 = (if prnt then
      emit_all [''server loading'', ''server.loading Loading modules configuration...''] c else c)"
  have c1: "additionalFiles c1 = additionalFiles c" "configOptions c1 = configOptions c"
    "moduleConfigFiles c1 = moduleConfigFiles c"
    by (simp_all add: c1_def emit_all_def)
  have p: "GetConfigPath confDir @ ''modules/'' = path" by (simp add: GetConfigPath_def assms(2))
  note s = load_modules_spec [OF assms(3), of r c1, unfolded c1]
  obtain ls where eq: "LoadModulesConfigs fs confDir r prnt c =
      bind_outcome (load_modules fs path r (additionalFiles c) c1) (\<lambda>(ok, c2).
        if \<not> ok then Ret (False, c2) else if prnt then Ret (True, emit_all (ls c2) c2) else Ret (True, c2))"
    using assms(1) by (simp add: LoadModulesConfigs_def c1_def [symmetric] c1 p Let_def)
  show ?thesis
  proof (cases "list_all (\<lambda>n. n = [] \<or> 5 \<le> length n) (additionalFiles c)")
    case True
    with s obtain c2 where l: "load_modules fs path r (additionalFiles c) c1 = Ret (True, c2)"
      and c2: "moduleConfigFiles c2 = moduleConfigFiles c @ map (module_used fs path) (additionalFiles c)"
      "um_find (configOptions c2) = foldl (module_layer fs path) (um_find (configOptions c)) (additionalFiles c)"
      by auto
    have "LoadModulesConfigs fs confDir r prnt c = Ret (True, if prnt then emit_all (ls c2) c2 else c2)"
      unfolding eq l by simp
    then show ?thesis using True c2 by (auto simp: emit_all_def)
  next
    case False
    then have "load_modules fs path r (additionalFiles c) c1 = Crash OutOfBounds" using s by simp
    then show ?thesis using False by (simp only: eq bind_outcome.simps if_False)
  qed
qed

text \<open>One module that has only its \<open>.dist\<close> file.\<close>

theorem modules_load_witness:
  "\<exists>c'. LoadModulesConfigs (\<lambda>f. if f = ''d/modules/m.conf.dist'' \<or> f = ''d/modules/x'' then sample_files ''a.dist'' else None)
     ''d'' False False (config_new\<lparr>additionalFiles := [''m.conf.dist'']\<rparr>) = Ret (True, c') \<and>
     um_find (configOptions c') ''L'' = Some ''x'' \<and> moduleConfigFiles c' = [''m.conf.dist'']"
proof -
  let ?fs = "\<lambda>f. if f = ''d/modules/m.conf.dist'' \<or> f = ''d/modules/x'' then sample_files ''a.dist'' else None"
  let ?c = "config_new\<lparr>additionalFiles := [''m.conf.dist'']\<rparr>"
  have l: "loaded ?fs ''d/modules/m.conf.dist'' = loaded sample_files ''a.dist''"
    and l2: "loaded ?fs ''d/modules/m.conf'' = None"
    by (simp_all add: loaded_def)
  have h: "list_all (\<lambda>n. loaded ?fs (''d/modules/'' @ n) \<noteq> None) (additionalFiles ?c)"
    using l by (simp add: sample_loaded)
  have ne: "additionalFiles ?c \<noteq> []" and pa: "''d/modules/'' = ''d'' @ ''/'' @ ''modules/''" by simp_all
  from modules_load [OF ne pa h, of False False] show ?thesis
    using l l2 by (auto simp: module_layer_def module_used_def sample_loaded overlay_def config_new_def)
qed


lemma LoadFile_distinct:
  assumes "LoadFile fs fname opt r c = (ok, c')" and "distinct (map fst (configOptions c))"
  shows "distinct (map fst (configOptions c'))"
proof (cases ok)
  case False
  have "configOptions c' = configOptions c"
    using LoadFile_spec [OF assms(1)] False by (auto split: option.splits)
  with assms(2) show ?thesis by simp
next
  case True
  obtain f :: file_text and fc count and c1 :: config where "parse_lines fname (read_fails f) (split_on (CHR 0x0A) (contents f)) 0 [] 0 c =
      (Inr (fc, count), c1)" and c': "c' = add_keys fc fname opt r c1"
    using assms(1) True
    by (auto simp: LoadFile_def ParseFile_def split: option.splits sum.splits prod.splits if_splits)
  from parse_lines_ok [OF this(1)] assms(2) have "distinct (map fst (configOptions c1))" by simp
  then show ?thesis
    using put_all_distinct [of "configOptions c1" fc] put_known_distinct [of "configOptions c1" fc]
    by (cases opt) (simp_all add: c' add_keys_mandatory add_keys_optional)
qed

text \<open>
  After any load the keys are distinct, so listing the keys with a prefix gives each option
  with that prefix once and nothing else.
\<close>

theorem keys_by_prefix:
  assumes "LoadAppConfigs fs r c = (ok, c')"
  shows "distinct (GetKeysByString p c') \<and>
    set (GetKeysByString p c') = {k. take (length p) k = p \<and> um_find (configOptions c') k \<noteq> None}"
proof -
  obtain ok1 c1 where l1: "LoadFile fs (cfg_filename c @ ''.dist'') False r (c\<lparr>configOptions := []\<rparr>) = (ok1, c1)"
    by fastforce
  obtain ok2 c2 where l2: "LoadFile fs (cfg_filename c1) True r c1 = (ok2, c2)" by fastforce
  have d: "distinct (map fst (configOptions c1))" using LoadFile_distinct [OF l1] by simp
  have "distinct (map fst (configOptions c'))"
    using assms l1 l2 d LoadFile_distinct [OF l2 d]
    by (auto simp: LoadAppConfigs_def LoadInitial_def LoadAdditionalFile_def split: if_splits)
  moreover have "um_find (configOptions c') k \<noteq> None \<longleftrightarrow> k \<in> fst ` set (configOptions c')" for k
    by (metis um_find_def map_of_eq_None_iff)
  ultimately show ?thesis by (auto simp: GetKeysByString_def)
qed

theorem keys_by_prefix_witness:
  "\<exists>c'. LoadAppConfigs sample_files False (config_new\<lparr>cfg_filename := ''a''\<rparr>) = (True, c') \<and>
    set (GetKeysByString ''L'' c') = {''L''}"
proof -
  let ?c = "config_new\<lparr>cfg_filename := ''a''\<rparr>"
  obtain ok c' where l: "LoadAppConfigs sample_files False ?c = (ok, c')" by fastforce
  have ok: "ok" and f: "um_find (configOptions c') = overlay True (map_of [(''K'', ''2''), (''M'', ''3'')])
      (map_of [(''K'', ''1''), (''L'', ''x''), (''K'', ''9'')])"
    using LoadAppConfigs_spec [OF l] by (simp_all add: sample_loaded)
  have "k = ''L''" if "take 1 k = ''L''" "um_find (configOptions c') k \<noteq> None" for k
    using that by (auto simp: f overlay_def split: if_splits option.splits)
  moreover have "um_find (configOptions c') ''L'' \<noteq> None" by (simp add: f overlay_def)
  ultimately have "{k. take (length ''L'') k = ''L'' \<and> um_find (configOptions c') k \<noteq> None} = {''L''}"
    by auto
  with keys_by_prefix [OF l, of "''L''"] l ok show ?thesis by simp
qed

end
