(* ===== verification/Pool.thy ===== *)
theory Pool
  imports Operations Config
begin

section \<open>The pool of connections (DatabaseWorkerPool.h/.cpp)\<close>

text \<open>
  The pool of one database: the queue of the asynchronous connections, the two lists of
  connections, the parameters they share and the number of parameters of each statement. Every
  connection created gets the next number; \<open>libs n\<close> is the client library as connection \<open>n\<close> sees it.
  Calls of the pool are modelled one after the other; the threads of the workers are in PC_Queue.
\<close>

datatype internal_index = IDX_ASYNC | IDX_SYNCH

type_synonym libs = "nat \<Rightarrow> mysql"

record pool =
  p_queue :: "operation pcqueue"
  p_async :: "(nat \<times> conn) list"
  p_synch :: "(nat \<times> conn) list"
  p_info :: "conn_info option"
  p_preparedSize :: "uint8 list"
  p_async_threads :: uint8
  p_synch_threads :: uint8
  p_created :: nat
  p_deleted :: "operation list"

subsection \<open>Construction\<close>

text \<open>
  The versions are the library's at run time and the ones of its headers; \<open>mariadb_id\<close> is absent when
  \<open>MARIADB_VERSION_ID\<close> is not defined.
\<close>

definition MIN_MYSQL_CLIENT_VERSION :: "nat option \<Rightarrow> nat" where
  "MIN_MYSQL_CLIENT_VERSION mariadb_id =
     (case mariadb_id of Some v \<Rightarrow> if v \<ge> 100600 then 30203 else 50700 | None \<Rightarrow> 50700)"

definition MIN_MYSQL_SERVER_VERSION :: string where "MIN_MYSQL_SERVER_VERSION = ''5.7.0''"
definition MIN_MARIADB_SERVER_VERSION :: string where "MIN_MARIADB_SERVER_VERSION = ''10.5.0''"

definition pool_empty :: pool where
  "pool_empty = \<lparr>p_queue = pcq_new, p_async = [], p_synch = [], p_info = None, p_preparedSize = [],
     p_async_threads = 0, p_synch_threads = 0, p_created = 0, p_deleted = []\<rparr>"

definition pool_new :: "bool \<Rightarrow> nat \<Rightarrow> nat \<Rightarrow> nat option \<Rightarrow> pool outcome" where
  "pool_new thread_safe client_version version_id mariadb_id =
     (let isSupportClientDB = client_version \<ge> MIN_MYSQL_CLIENT_VERSION mariadb_id;
          isSameClientDB =
            (case mariadb_id of
               Some v \<Rightarrow> if v < 100600 then client_version = version_id else True
             | None \<Rightarrow> client_version = version_id)
      in if \<not> thread_safe then Crash (AssertFail ''mysql_thread_safe()'')
         else if \<not> isSupportClientDB then Crash (AssertFail ''isSupportClientDB'')
         else if \<not> isSameClientDB then Crash (AssertFail ''isSameClientDB'')
         else Ret pool_empty)"

definition SetConnectionInfo :: "string \<Rightarrow> uint8 \<Rightarrow> uint8 \<Rightarrow> pool \<Rightarrow> pool" where
  "SetConnectionInfo infoString asyncThreads synchThreads p =
     p\<lparr>p_info := Some (MySQLConnectionInfo infoString), p_async_threads := asyncThreads, p_synch_threads := synchThreads\<rparr>"

text \<open>What \<open>Cancel\<close> does to the pool: what was queued is deleted and the queue is shut down.\<close>

definition cancel_queue :: "pool \<Rightarrow> pool" where
  "cancel_queue p =
     (let (q, gone) = pcq_Cancel (p_queue p) in p\<lparr>p_queue := q, p_deleted := p_deleted p @ gone\<rparr>)"

definition pool_delete :: "pool \<Rightarrow> pool" where
  "pool_delete p = cancel_queue p"

text \<open>
  Destroying asynchronous connections destroys their workers, whose destructor cancels the shared
  queue.
\<close>

definition drop_connections :: "internal_index \<Rightarrow> nat \<Rightarrow> pool \<Rightarrow> pool" where
  "drop_connections ty n p = (if ty = IDX_ASYNC \<and> n \<noteq> 0 then cancel_queue p else p)"

definition conns_of :: "internal_index \<Rightarrow> pool \<Rightarrow> (nat \<times> conn) list" where
  "conns_of ty p = (case ty of IDX_ASYNC \<Rightarrow> p_async p | IDX_SYNCH \<Rightarrow> p_synch p)"

definition set_connections :: "internal_index \<Rightarrow> (nat \<times> conn) list \<Rightarrow> pool \<Rightarrow> pool" where
  "set_connections ty cs p =
     (case ty of IDX_ASYNC \<Rightarrow> p\<lparr>p_async := cs\<rparr> | IDX_SYNCH \<Rightarrow> p\<lparr>p_synch := cs\<rparr>)"

definition clear_connections :: "internal_index \<Rightarrow> pool \<Rightarrow> pool" where
  "clear_connections ty p =
     drop_connections ty (length (conns_of ty p)) (set_connections ty [] p)"

text \<open>All connections refer to the one record of parameters, which \<open>Open\<close> of any of them may change.\<close>

definition share_info :: "conn_info \<Rightarrow> pool \<Rightarrow> pool" where
  "share_info info p =
     p\<lparr>p_info := Some info, p_async := map (map_prod id (c_info_update (\<lambda>_. info))) (p_async p),
       p_synch := map (map_prod id (c_info_update (\<lambda>_. info))) (p_synch p)\<rparr>"

subsection \<open>Opening\<close>

text \<open>
  \<open>parse\<close> takes the characters 0, 2 and 4 of the text; past the end \<open>get\<close> gives \<open>EOF\<close>, which is
  255 as a \<open>uint8\<close>.
\<close>

definition version_parse :: "string \<Rightarrow> uint8 list" where
  "version_parse input = map (\<lambda>i. if i < length input then word_of_nat (of_char (input ! i)) else 255) [0, 2, 4]"

fun lex_less :: "uint8 list \<Rightarrow> uint8 list \<Rightarrow> bool" where
  "lex_less xs [] = False"
| "lex_less [] (y # ys) = True"
| "lex_less (x # xs) (y # ys) = (x < y \<or> x = y \<and> lex_less xs ys)"

definition DatabaseIncompatibleVersion :: "string \<Rightarrow> bool" where
  "DatabaseIncompatibleVersion mysqlVersion =
     (let maria = has_substring ''MariaDB'' mysqlVersion;
          offset = (if maria \<and> take 6 mysqlVersion = ''5.5.5-'' then 6 else 0);
          minVersion = (if maria then MIN_MARIADB_SERVER_VERSION else MIN_MYSQL_SERVER_VERSION)
      in lex_less (version_parse (drop offset mysqlVersion)) (version_parse minVersion))"

definition connection_flags :: "internal_index \<Rightarrow> uint8" where
  "connection_flags ty = (case ty of IDX_ASYNC \<Rightarrow> CONNECTION_ASYNC | IDX_SYNCH \<Rightarrow> CONNECTION_SYNCH)"

text \<open>
  The loop of \<open>OpenConnections\<close>, with the number of connections that are still to come. A failed
  connection is destroyed when its pointer goes out of scope; its error number is the result, 1
  for a server that is too old.
\<close>

primrec open_loop :: "libs \<Rightarrow> internal_index \<Rightarrow> nat \<Rightarrow> pool \<Rightarrow> (errno \<times> pool) outcome" where
  "open_loop libs ty 0 p = Ret (NoErrno, p)"
| "open_loop libs ty (Suc n) p =
     (case p_info p of
        None \<Rightarrow> Crash NullDeref
      | Some info \<Rightarrow>
          bind_outcome (conn_Open (libs (p_created p)) (db_conn_new (connection_flags ty) login_statements info))
            (\<lambda>(error, c).
              let p1 = share_info (c_info c) (p\<lparr>p_created := p_created p + 1\<rparr>) in
              if error \<noteq> NoErrno then Ret (error, drop_connections ty 1 (clear_connections ty p1))
              else if DatabaseIncompatibleVersion (lib_server_info (libs (p_created p)) (c_events c)) then
                Ret (OtherErrno 1, drop_connections ty 1 p1)
              else open_loop libs ty n (set_connections ty (conns_of ty p1 @ [(p_created p, c)]) p1)))"

definition OpenConnections :: "libs \<Rightarrow> internal_index \<Rightarrow> uint8 \<Rightarrow> pool \<Rightarrow> (errno \<times> pool) outcome" where
  "OpenConnections libs ty numConnections p = open_loop libs ty (unat numConnections) p"

definition pool_Open :: "libs \<Rightarrow> pool \<Rightarrow> (errno \<times> pool) outcome" where
  "pool_Open libs p =
     (if p_info p = None then Crash (AssertFail ''_connectionInfo.get()'')
      else
        bind_outcome (OpenConnections libs IDX_ASYNC (p_async_threads p) p) (\<lambda>(error, p).
          if error \<noteq> NoErrno then Ret (error, p) else OpenConnections libs IDX_SYNCH (p_synch_threads p) p))"

definition pool_Close :: "pool \<Rightarrow> pool" where
  "pool_Close p = clear_connections IDX_SYNCH (clear_connections IDX_ASYNC p)"

subsection \<open>Preparing\<close>

text \<open>The sizes of the statements of one connection; a size that is known stays.\<close>

fun size_loop :: "my_stmt option list \<Rightarrow> uint8 list \<Rightarrow> uint8 list outcome" where
  "size_loop [] sizes = Ret sizes"
| "size_loop (m # ms) [] = Crash OutOfBounds"
| "size_loop (m # ms) (s # sizes) =
     (if s > 0 then map_outcome (Cons s) (size_loop ms sizes)
      else
        (case m of
           None \<Rightarrow> map_outcome (Cons s) (size_loop ms sizes)
         | Some stmt \<Rightarrow>
             if \<not> ms_paramCount stmt < 255 then Crash (AssertFail ''paramCount < std::numeric_limits<uint8>::max()'')
             else map_outcome (Cons (word_of_nat (ms_paramCount stmt))) (size_loop ms sizes)))"

definition update_sizes :: "my_stmt option list \<Rightarrow> uint8 list \<Rightarrow> uint8 list outcome" where
  "update_sizes stmts sizes = size_loop stmts (sizes @ replicate (length stmts - length sizes) 0)"

text \<open>
  One list of connections. \<open>LockIfReady\<close> is called and its result not looked at, so a connection that
  another thread uses is prepared and unlocked all the same.
\<close>

primrec prepare_list ::
  "libs \<Rightarrow> (nat \<times> conn) list \<Rightarrow> uint8 list \<Rightarrow> (bool \<times> (nat \<times> conn) list \<times> uint8 list) outcome" where
  "prepare_list libs [] sizes = Ret (True, [], sizes)"
| "prepare_list libs (x # xs) sizes =
     bind_outcome (PrepareStatements (libs (fst x)) (snd (LockIfReady (snd x)))) (\<lambda>(ok, c).
       if \<not> ok then Ret (False, [], sizes)
       else
         bind_outcome (update_sizes (c_stmts c) sizes) (\<lambda>sizes.
         bind_outcome (prepare_list libs xs sizes) (\<lambda>(ok, ys, sizes). Ret (ok, (fst x, Unlock c) # ys, sizes))))"

definition pool_PrepareStatements :: "libs \<Rightarrow> pool \<Rightarrow> (bool \<times> pool) outcome" where
  "pool_PrepareStatements libs p =
     bind_outcome (prepare_list libs (p_async p) (p_preparedSize p)) (\<lambda>(ok, as, sizes).
       if \<not> ok then Ret (False, pool_Close (p\<lparr>p_preparedSize := sizes\<rparr>))
       else
         bind_outcome (prepare_list libs (p_synch p) sizes) (\<lambda>(ok, ss, sizes).
           if \<not> ok then Ret (False, pool_Close (p\<lparr>p_preparedSize := sizes\<rparr>))
           else Ret (True, p\<lparr>p_async := as, p_synch := ss, p_preparedSize := sizes\<rparr>)))"

subsection \<open>The queue of the pool\<close>

definition Enqueue :: "operation \<Rightarrow> pool \<Rightarrow> pool" where
  "Enqueue op p = p\<lparr>p_queue := pcq_Push op (p_queue p)\<rparr>"

definition QueueSize :: "pool \<Rightarrow> nat" where
  "QueueSize p = pcq_Size (p_queue p)"

definition pool_Execute_sql :: "string \<Rightarrow> pool \<Rightarrow> pool" where
  "pool_Execute_sql sql p = (if sql = [] then p else Enqueue (OpBasic (BasicStatementTask sql False)) p)"

definition pool_Execute_stmt :: "stmt \<Rightarrow> pool \<Rightarrow> pool" where
  "pool_Execute_stmt st p = Enqueue (OpPrepared (PreparedStatementTask st False)) p"

text \<open>The callbacks of the asynchronous calls hold the future of the task that was queued.\<close>

definition AsyncQuery_sql :: "string \<Rightarrow> pool \<Rightarrow> (answer, 'id) qcb \<times> pool" where
  "AsyncQuery_sql sql p = (qc_new False FPending, Enqueue (OpBasic (BasicStatementTask sql True)) p)"

definition AsyncQuery_stmt :: "stmt \<Rightarrow> pool \<Rightarrow> (answer, 'id) qcb \<times> pool" where
  "AsyncQuery_stmt st p = (qc_new True FPending, Enqueue (OpPrepared (PreparedStatementTask st True)) p)"

definition DelayQueryHolder :: "(stmt, prepared_set) holder \<Rightarrow> pool \<Rightarrow> unit future \<times> pool" where
  "DelayQueryHolder qs p = (FPending, Enqueue (OpHolder qs FPending) p)"

definition pool_BeginTransaction :: transaction where
  "pool_BeginTransaction = tx_new"

definition CommitTransaction :: "transaction \<Rightarrow> pool \<Rightarrow> pool" where
  "CommitTransaction t p = Enqueue (OpTransaction t) p"

definition AsyncCommitTransaction :: "transaction \<Rightarrow> pool \<Rightarrow> bool future \<times> pool" where
  "AsyncCommitTransaction t p = (FPending, Enqueue (OpTransactionResult t FPending) p)"

definition ExecuteOrAppend_sql :: "transaction option \<Rightarrow> string \<Rightarrow> pool \<Rightarrow> transaction option \<times> pool" where
  "ExecuteOrAppend_sql tran sql p =
     (case tran of None \<Rightarrow> (None, pool_Execute_sql sql p) | Some t \<Rightarrow> (Some (tx_Append sql t), p))"

text \<open>\<open>ptr\<close> is the pointer to the statement.\<close>

definition ExecuteOrAppend_stmt ::
  "transaction option \<Rightarrow> nat \<Rightarrow> stmt \<Rightarrow> pool \<Rightarrow> transaction option \<times> pool" where
  "ExecuteOrAppend_stmt tran ptr st p =
     (case tran of
        None \<Rightarrow> (None, pool_Execute_stmt st p)
      | Some t \<Rightarrow> (Some (AppendPreparedStatement ptr (Some st) t), p))"

subsection \<open>Calls on a synchronous connection\<close>

text \<open>
  \<open>GetFreeConnection\<close> from index \<open>i\<close>: the positions after it in turn, until one can be locked.
  \<open>None\<close>: all are locked, and it spins until another thread unlocks one. With no connection the
  remainder is by zero.
\<close>

partial_function (option) free_loop :: "(nat \<times> conn) list \<Rightarrow> uint8 \<Rightarrow> nat outcome option" where
  "free_loop cs i =
     (let i = i + 1 in
      if length cs = 0 then Some (Crash DivByZero)
      else if fst (LockIfReady (snd (cs ! (unat i mod length cs)))) then Some (Ret (unat i mod length cs))
      else free_loop cs i)"

definition set_synch :: "nat \<Rightarrow> conn \<Rightarrow> pool \<Rightarrow> pool" where
  "set_synch k c p = p\<lparr>p_synch := (p_synch p)[k := (fst (p_synch p ! k), c)]\<rparr>"

definition GetFreeConnection :: "pool \<Rightarrow> (nat \<times> pool) outcome option" where
  "GetFreeConnection p =
     map_option (map_outcome (\<lambda>k. (k, set_synch k (snd (LockIfReady (snd (p_synch p ! k)))) p))) (free_loop (p_synch p) 0)"

text \<open>A call on the connection at position \<open>k\<close>, which may open it again and so change the parameters.\<close>

definition on_synch ::
  "libs \<Rightarrow> nat \<Rightarrow> (mysql \<Rightarrow> conn \<Rightarrow> ('a \<times> conn) outcome option) \<Rightarrow> pool \<Rightarrow> ('a \<times> pool) outcome option" where
  "on_synch libs k f p =
     (if k < length (p_synch p) then
        bind_run (f (libs (fst (p_synch p ! k))) (snd (p_synch p ! k))) (\<lambda>(x, c).
          Some (Ret (x, share_info (c_info c) (set_synch k c p))))
      else Some (Crash OutOfBounds))"

definition pool_Unlock :: "nat \<Rightarrow> pool \<Rightarrow> pool" where
  "pool_Unlock k p = set_synch k (Unlock (snd (p_synch p ! k))) p"

definition pool_Query_sql :: "libs \<Rightarrow> string \<Rightarrow> pool \<Rightarrow> (result_set option \<times> pool) outcome option" where
  "pool_Query_sql libs sql p =
     bind_run (GetFreeConnection p) (\<lambda>(k, p).
     bind_run (on_synch libs k (\<lambda>env. conn_Query_sql env sql) p) (\<lambda>(result, p).
       Some (bind_outcome (first_row result) (\<lambda>result. Ret (result, pool_Unlock k p)))))"

text \<open>
  A statement with the connection it was prepared on, if there is one. The member is not
  initialised by the other constructor; it is read only for statements marked as prepared.
\<close>

record pool_stmt =
  ps_stmt :: stmt
  ps_conn :: "nat option"

definition pool_Query_stmt :: "libs \<Rightarrow> pool_stmt \<Rightarrow> pool \<Rightarrow> (prepared_set option \<times> pool) outcome option" where
  "pool_Query_stmt libs s p =
     bind_run
       (if st_isPrepared (ps_stmt s) then (case ps_conn s of None \<Rightarrow> Some (Crash NullDeref) | Some k \<Rightarrow> Some (Ret (k, p)))
        else GetFreeConnection p)
       (\<lambda>(k, p).
          bind_run (on_synch libs k (\<lambda>env c. bind_run (conn_Query_stmt env (ps_stmt s) c) (\<lambda>(ret, st, c). Some (Ret (ret, c)))) p)
            (\<lambda>(ret, p). Some (Ret (non_empty ret, pool_Unlock k p))))"

definition DirectExecute_sql :: "libs \<Rightarrow> string \<Rightarrow> pool \<Rightarrow> pool outcome option" where
  "DirectExecute_sql libs sql p =
     (if sql = [] then Some (Ret p)
      else
        bind_run (GetFreeConnection p) (\<lambda>(k, p).
        bind_run (on_synch libs k (\<lambda>env. Execute_sql env sql) p) (\<lambda>(ok, p). Some (Ret (pool_Unlock k p)))))"

text \<open>
  The connection is always a free one, also for a statement prepared on another; the calls on such a
  statement are then counted to the connection that made them.
\<close>

definition DirectExecute_stmt :: "libs \<Rightarrow> pool_stmt \<Rightarrow> pool \<Rightarrow> pool outcome option" where
  "DirectExecute_stmt libs s p =
     bind_run (GetFreeConnection p) (\<lambda>(k, p).
     bind_run (on_synch libs k (\<lambda>env c. bind_run (Execute_stmt env (ps_stmt s) c) (\<lambda>(ok, st, c). Some (Ret (ok, c)))) p)
       (\<lambda>(ok, p). Some (Ret (pool_Unlock k p))))"

text \<open>The five retries of \<open>DirectCommitTransaction\<close>; the code of the last one is not kept.\<close>

primrec direct_retry :: "nat \<Rightarrow> libs \<Rightarrow> nat \<Rightarrow> sql_data list \<Rightarrow> pool \<Rightarrow> pool outcome option" where
  "direct_retry 0 libs k queries p = Some (Ret p)"
| "direct_retry (Suc n) libs k queries p =
     bind_run (on_synch libs k (\<lambda>env. ExecuteTransaction env queries) p) (\<lambda>(code, p).
       if code = Code NoErrno then Some (Ret p) else direct_retry n libs k queries p)"

definition DirectCommitTransaction :: "libs \<Rightarrow> transaction \<Rightarrow> pool \<Rightarrow> (transaction \<times> pool) outcome option" where
  "DirectCommitTransaction libs t p =
     bind_run (GetFreeConnection p) (\<lambda>(k, p).
     bind_run (on_synch libs k (\<lambda>env. ExecuteTransaction env (tx_queries t)) p) (\<lambda>(errorCode, p).
       if errorCode = Code NoErrno then Some (Ret (t, pool_Unlock k p))
       else
         bind_run (if errorCode = Code ER_LOCK_DEADLOCK then direct_retry 5 libs k (tx_queries t) p else Some (Ret p))
           (\<lambda>p. Some (bind_outcome (Cleanup t) (\<lambda>t. Ret (t, pool_Unlock k p))))))"

subsection \<open>Statements of the pool\<close>

definition pool_GetPreparedStatement :: "nat \<Rightarrow> pool \<Rightarrow> pool_stmt outcome" where
  "pool_GetPreparedStatement index p =
     (if index < length (p_preparedSize p)
      then Ret \<lparr>ps_stmt = stmt_new index (p_preparedSize p ! index), ps_conn = None\<rparr>
      else Crash OutOfBounds)"

text \<open>A statement prepared from its text; its connection stays locked.\<close>

definition GetPreparedStatement_sql :: "libs \<Rightarrow> string \<Rightarrow> pool \<Rightarrow> (pool_stmt \<times> pool) outcome option" where
  "GetPreparedStatement_sql libs sql p =
     bind_run (GetFreeConnection p) (\<lambda>(k, p).
     bind_run (on_synch libs k (\<lambda>env c. Some (PrepareStatement_sql env sql CONNECTION_SYNCH c)) p) (\<lambda>(m, p).
       case m of
         None \<Rightarrow> Some (Crash NullDeref)
       | Some my \<Rightarrow>
           if \<not> ms_paramCount my < 255 then
             Some (Crash (AssertFail ''paramCount < std::numeric_limits<uint8>::max()''))
           else
             Some (Ret (\<lparr>ps_stmt = stmt_new_prepared m (word_of_nat (ms_paramCount my)), ps_conn = Some k\<rparr>, p))))"

subsection \<open>Escaping and keeping alive\<close>

text \<open>
  \<open>escape\<close> is \<open>mysql_real_escape_string\<close>; the result is read back as a C string.
\<close>

definition EscapeString :: "(string \<Rightarrow> string) \<Rightarrow> string \<Rightarrow> pool \<Rightarrow> string outcome" where
  "EscapeString escape str p =
     (if str = [] then Ret str
      else
        (case p_synch p of
           [] \<Rightarrow> Crash OutOfBounds
         | (n, c) # cs \<Rightarrow>
             if \<not> c_open c then Crash NullDeref else Ret (c_str (escape str))))"

definition ping_free :: "conn \<Rightarrow> conn outcome" where
  "ping_free c =
     (let (locked, c1) = LockIfReady c in
      if locked then bind_outcome (Ping c1) (\<lambda>c2. Ret (Unlock c2)) else Ret c1)"

primrec ping_synch :: "(nat \<times> conn) list \<Rightarrow> (nat \<times> conn) list outcome" where
  "ping_synch [] = Ret []"
| "ping_synch (x # xs) =
     bind_outcome (ping_free (snd x)) (\<lambda>c. bind_outcome (ping_synch xs) (\<lambda>ys. Ret ((fst x, c) # ys)))"

text \<open>The index is a \<open>uint8\<close>, the bound the number of asynchronous connections.\<close>

partial_function (option) ping_loop :: "nat \<Rightarrow> uint8 \<Rightarrow> pool \<Rightarrow> pool option" where
  "ping_loop num i p = (if unat i < num then ping_loop num (i + 1) (Enqueue OpPing p) else Some p)"

definition KeepAlive :: "pool \<Rightarrow> pool outcome option" where
  "KeepAlive p =
     bind_run (Some (ping_synch (p_synch p))) (\<lambda>cs.
       let p1 = p\<lparr>p_synch := cs\<rparr> in map_option Ret (ping_loop (length (p_async p1)) 0 p1))"

end
