(* ===== verification/Pool_Facts.thy ===== *)
theory Pool_Facts
  imports Pool
begin

section \<open>What the pool guarantees\<close>

text \<open>
  Lemmas and properties of the pool: how a free connection is found and given back, which servers
  the version check refuses, what a failed \<open>Open\<close> does to the queue, that prepared statements fit
  their parameters, and that a transaction committed directly is atomic.
\<close>

subsection \<open>Finding a free connection\<close>

abbreviation is_free :: "(nat \<times> conn) list \<Rightarrow> nat \<Rightarrow> bool" where
  "is_free cs k \<equiv> \<not> c_locked (snd (cs ! k))"

lemma LockIfReady_simps [simp]:
  "fst (LockIfReady c) \<longleftrightarrow> \<not> c_locked c" "c_locked (snd (LockIfReady c))"
  by (simp_all add: LockIfReady_def)

lemma free_loop_step:
  assumes "cs \<noteq> []" and "unat (i :: uint8) < 255"
  shows "free_loop cs i =
    (if is_free cs (Suc (unat i) mod length cs) then Some (Ret (Suc (unat i) mod length cs)) else free_loop cs (i + 1))"
proof -
  have "unat (i + 1) = Suc (unat i)" using assms(2) by (simp add: unat_word_ariths)
  with assms(1) show ?thesis by (subst free_loop.simps) simp
qed

lemma free_loop_found:
  assumes "cs \<noteq> []" and "length cs \<le> 255" and "unat (i :: uint8) < length cs"
    and "filter (is_free cs) ([Suc (unat i)..<length cs] @ [0]) = k # ks"
  shows "free_loop cs i = Some (Ret k)"
  using assms(3,4)
proof (induction "length cs - unat i" arbitrary: i)
  case (Suc d)
  have i: "unat i < 255" using Suc.prems(1) assms(2) by simp
  have nxt: "unat (i + 1) = Suc (unat i)" using i by (simp add: unat_word_ariths)
  show ?case
  proof (cases "Suc (unat i) < length cs")
    case True
    then have up: "[Suc (unat i)..<length cs] = Suc (unat i) # [Suc (Suc (unat i))..<length cs]"
      by (simp add: upt_conv_Cons)
    show ?thesis
      using free_loop_step [OF assms(1) i] True up Suc nxt by (auto split: if_splits)
  next
    case False
    then have "length cs = Suc (unat i)" using Suc.prems(1) by simp
    then show ?thesis using free_loop_step [OF assms(1) i] Suc.prems(2) by (auto split: if_splits)
  qed
qed simp

lemma free_loop_all_locked:
  assumes "free_loop cs i = Some r"
  shows "cs = [] \<or> (\<exists>k < length cs. is_free cs k)"
proof -
  have "cs' = [] \<or> (\<exists>k < length cs'. is_free cs' k)" if "free_loop cs' j = Some r'" for cs' j r'
  proof (rule free_loop.raw_induct [where P = "\<lambda>cs i r. cs = [] \<or> (\<exists>k < length cs. is_free cs k)", OF _ that])
    fix f :: "(nat \<times> conn) list \<Rightarrow> uint8 \<Rightarrow> nat outcome option" and cs i r
    assume ih: "\<And>cs i r. f cs i = Some r \<Longrightarrow> cs = [] \<or> (\<exists>k < length cs. is_free cs k)"
      and body: "(let i = i + 1 in
        if length cs = 0 then Some (Crash DivByZero)
        else if fst (LockIfReady (snd (cs ! (unat i mod length cs)))) then Some (Ret (unat i mod length cs))
        else f cs i) = Some r"
    show "cs = [] \<or> (\<exists>k < length cs. is_free cs k)"
    proof (cases "cs = [] \<or> is_free cs (unat (i + 1) mod length cs)")
      case True
      then show ?thesis by (metis length_greater_0_conv mod_less_divisor)
    next
      case False
      then show ?thesis using body ih by (auto simp: Let_def)
    qed
  qed
  from this [OF assms] show ?thesis .
qed

lemma free_loop_eq:
  assumes "length cs \<le> 255"
  shows "free_loop cs 0 =
    (if cs = [] then Some (Crash DivByZero)
     else case filter (is_free cs) ([1..<length cs] @ [0]) of [] \<Rightarrow> None | k # ks \<Rightarrow> Some (Ret k))"
proof (cases "filter (is_free cs) ([1..<length cs] @ [0])")
  case Nil
  show ?thesis
  proof (cases "cs = []")
    case True
    then show ?thesis by (subst free_loop.simps) simp
  next
    case False
    have "\<not> is_free cs k" if "k < length cs" for k
      using Nil that by (cases "k = 0") (auto simp: filter_empty_conv split: if_splits)
    then have "free_loop cs 0 = None" using free_loop_all_locked [of cs 0] False by (cases "free_loop cs 0") auto
    then show ?thesis using Nil False by simp
  qed
next
  case (Cons k ks)
  show ?thesis
  proof (cases "cs = []")
    case True
    then show ?thesis by (subst free_loop.simps) simp
  next
    case False
    then have "free_loop cs 0 = Some (Ret k)"
      using free_loop_found [OF False assms, of 0 k ks] Cons by simp
    then show ?thesis using Cons False by simp
  qed
qed

definition free_order :: "pool \<Rightarrow> nat list" where
  "free_order p = filter (is_free (p_synch p)) ([1..<length (p_synch p)] @ [0])"

definition lock_at :: "nat \<Rightarrow> pool \<Rightarrow> pool" where
  "lock_at k p = set_synch k (snd (p_synch p ! k)\<lparr>c_locked := True\<rparr>) p"

lemma GetFreeConnection_eq:
  assumes "length (p_synch p) \<le> 255"
  shows "GetFreeConnection p =
    (if p_synch p = [] then Some (Crash DivByZero)
     else case free_order p of [] \<Rightarrow> None | k # ks \<Rightarrow> Some (Ret (k, lock_at k p)))"
proof (cases "p_synch p = []")
  case True
  then show ?thesis using free_loop_eq [of "[]"] by (simp add: GetFreeConnection_def)
next
  case False
  show ?thesis
  proof (cases "free_order p")
    case Nil
    then show ?thesis using False by (simp add: GetFreeConnection_def free_loop_eq [OF assms] free_order_def)
  next
    case (Cons k ks)
    have "k \<in> set (free_order p)" using Cons by simp
    then have "is_free (p_synch p) k" by (simp only: free_order_def set_filter) simp
    then show ?thesis
      using False Cons free_loop_eq [OF assms, folded free_order_def]
      by (simp add: GetFreeConnection_def lock_at_def LockIfReady_def)
  qed
qed

subsection \<open>Which servers the version check refuses\<close>

definition version_text :: "nat \<Rightarrow> nat \<Rightarrow> nat \<Rightarrow> string \<Rightarrow> string" where
  "version_text major minor d rest = dec_digits major @ ''.'' @ dec_digits minor @ ''.'' @ digit_char d # rest"

lemma unat_char: "unat (word_of_nat (of_char c) :: uint8) = of_char c"
proof -
  have "(of_char c :: nat) < 256" using of_char_mod_256 [of c] by (metis mod_less_divisor zero_less_numeral)
  then show ?thesis by (simp add: unat_of_nat)
qed

lemma char_less: "(word_of_nat (of_char c) :: uint8) < word_of_nat (of_char d) \<longleftrightarrow> (of_char c :: nat) < of_char d"
  by (simp only: word_less_nat_alt unat_char)

lemma char_equal: "(word_of_nat (of_char c) :: uint8) = word_of_nat (of_char d) \<longleftrightarrow> c = d"
proof -
  have "(word_of_nat (of_char c) :: uint8) = word_of_nat (of_char d) \<longleftrightarrow> (of_char c :: nat) = of_char d"
    by (metis unat_char)
  then show ?thesis by simp
qed

definition char_lex :: "string \<Rightarrow> string \<Rightarrow> bool" where
  "char_lex xs ys = lex_less (map (\<lambda>c. word_of_nat (of_char c)) xs) (map (\<lambda>c. word_of_nat (of_char c)) ys)"

lemma char_lex_3:
  "char_lex [a, b, c] [x, y, z] \<longleftrightarrow>
    (of_char a :: nat) < of_char x \<or> a = x \<and> ((of_char b :: nat) < of_char y \<or> b = y \<and> (of_char c :: nat) < of_char z)"
  by (simp add: char_lex_def char_less char_equal)

lemma version_parse_chars:
  assumes "5 \<le> length s"
  shows "version_parse s = map (\<lambda>c. word_of_nat (of_char c)) [s ! 0, s ! 2, s ! 4]"
proof -
  have "s \<noteq> []" using assms by auto
  then show ?thesis using assms by (simp add: version_parse_def)
qed

lemma incompatible_chars:
  assumes "5 \<le> length (drop offset s)" and "offset = (if has_substring ''MariaDB'' s \<and> take 6 s = ''5.5.5-'' then 6 else 0)"
  shows "DatabaseIncompatibleVersion s \<longleftrightarrow>
    (let v = drop offset s in char_lex [v ! 0, v ! 2, v ! 4] (if has_substring ''MariaDB'' s then ''1..'' else ''570''))"
proof -
  have "version_parse MIN_MARIADB_SERVER_VERSION = map (\<lambda>c. word_of_nat (of_char c)) ''1..''"
    "version_parse MIN_MYSQL_SERVER_VERSION = map (\<lambda>c. word_of_nat (of_char c)) ''570''"
    by (simp_all add: version_parse_def MIN_MARIADB_SERVER_VERSION_def MIN_MYSQL_SERVER_VERSION_def)
  then show ?thesis
    using version_parse_chars [OF assms(1)] assms(2)
    by (simp add: DatabaseIncompatibleVersion_def char_lex_def Let_def)
qed

lemma dec_digits_range: "c \<in> set (dec_digits n) \<Longrightarrow> 48 \<le> (of_char c :: nat) \<and> (of_char c :: nat) \<le> 57"
proof (induction n rule: dec_digits.induct)
  case (1 n)
  then show ?case by (cases "n < 10") (auto simp: dec_digits.simps [of n])
qed

lemma dec_digits_leading: "0 < n \<Longrightarrow> 49 \<le> (of_char (hd (dec_digits n)) :: nat)"
proof (induction n rule: dec_digits.induct)
  case (1 n)
  then show ?case by (cases "n < 10") (auto simp: dec_digits.simps [of n] hd_append)
qed

lemma version_chars:
  assumes "d < 10" and "i < 5"
  shows "5 \<le> length (version_text a b d rest)" and "46 \<le> (of_char (version_text a b d rest ! i) :: nat)"
proof -
  let ?w = "dec_digits a @ ''.'' @ dec_digits b @ ''.'' @ [digit_char d]"
  have w: "version_text a b d rest = ?w @ rest" by (simp add: version_text_def)
  have "0 < length (dec_digits a)" "0 < length (dec_digits b)" by simp_all
  then have len: "5 \<le> length ?w" by (simp only: length_append list.size)
  then show "5 \<le> length (version_text a b d rest)" unfolding w by (metis le_add1 le_trans length_append)
  have i: "i < length ?w" by (rule order_less_le_trans [OF assms(2) len])
  have "(?w @ rest) ! i = ?w ! i" by (simp only: nth_append i if_True)
  then have "version_text a b d rest ! i \<in> set ?w" unfolding w using nth_mem [OF i] by (simp only:)
  moreover have "46 \<le> (of_char c :: nat)" if "c \<in> set ?w" for c
    using that assms(1) dec_digits_range [of c a] dec_digits_range [of c b] by auto
  ultimately show "46 \<le> (of_char (version_text a b d rest ! i) :: nat)" by blast
qed

lemma version_first: "version_text a b d rest ! 0 = hd (dec_digits a)"
  by (cases "dec_digits a") (auto simp: version_text_def dest: arg_cong [of _ _ length])

lemma digit_char_inject: "a < 10 \<Longrightarrow> b < 10 \<Longrightarrow> digit_char a = digit_char b \<longleftrightarrow> a = b"
  by (metis digit_value_digit_char option.inject)

lemma digit_char_5_7: "digit_char 5 = CHR ''5''" "digit_char 7 = CHR ''7''"
  by (simp_all add: digit_char_def char_of_eq_iff)

lemma maria_never_refused:
  assumes "0 < a" and "d < 10"
  shows "\<not> char_lex [version_text a b d rest ! 0, version_text a b d rest ! 2, version_text a b d rest ! 4] ''1..''"
proof -
  have "49 \<le> (of_char (version_text a b d rest ! 0) :: nat)"
    using dec_digits_leading [OF assms(1)] by (simp add: version_first)
  then show ?thesis
    using version_chars(2) [OF assms(2), of 2 a b rest] version_chars(2) [OF assms(2), of 4 a b rest]
    by (auto simp: char_lex_3)
qed

text \<open>
  C32. Which servers are refused. Below version 10 a MySQL server is refused exactly when it is older than
  5.7, as meant; from 10 to 49 it is refused as well, and no MariaDB is, with or without the prefix
  of its replication protocol.
\<close>

theorem version_check:
  assumes "d < 10" and "v = version_text major minor d rest"
  shows "(\<not> has_substring ''MariaDB'' v \<and> major < 10 \<and> minor < 10 \<longrightarrow>
      (DatabaseIncompatibleVersion v \<longleftrightarrow> major < 5 \<or> major = 5 \<and> minor < 7)) \<and>
    (\<not> has_substring ''MariaDB'' v \<and> 10 \<le> major \<and> major < 50 \<longrightarrow> DatabaseIncompatibleVersion v) \<and>
    (0 < major \<and> has_substring ''MariaDB'' v \<longrightarrow>
      \<not> DatabaseIncompatibleVersion (''5.5.5-'' @ v) \<and> (take 6 v \<noteq> ''5.5.5-'' \<longrightarrow> \<not> DatabaseIncompatibleVersion v))"
proof (intro conjI impI)
  note len = version_chars(1) [OF assms(1), of 0 major minor rest, folded assms(2), simplified]
  note plain = incompatible_chars [of 0 v, unfolded drop_0, OF len]
  show "DatabaseIncompatibleVersion v \<longleftrightarrow> major < 5 \<or> major = 5 \<and> minor < 7"
    if "\<not> has_substring ''MariaDB'' v \<and> major < 10 \<and> minor < 10"
  proof -
    have "v ! 0 = digit_char major" "v ! 2 = digit_char minor" "v ! 4 = digit_char d"
      using that assms(2) by (simp_all add: version_text_def dec_digits.simps)
    moreover have "digit_char major = CHR ''5'' \<longleftrightarrow> major = 5" "digit_char minor = CHR ''7'' \<longleftrightarrow> minor = 7"
      using that digit_char_inject [of major 5] digit_char_inject [of minor 7] by (simp_all add: digit_char_5_7)
    ultimately show ?thesis
      using plain that assms(1) by (auto simp: char_lex_3)
  qed
  show "DatabaseIncompatibleVersion v" if "\<not> has_substring ''MariaDB'' v \<and> 10 \<le> major \<and> major < 50"
  proof -
    have five: "major div 10 < 5" using that by auto
    then have "dec_digits major = [digit_char (major div 10), digit_char (major mod 10)]"
      using that by (simp add: dec_digits.simps [of major] dec_digits.simps [of "major div 10"])
    then have "v ! 0 = digit_char (major div 10)" using assms(2) by (simp add: version_first)
    moreover note five
    ultimately show ?thesis using plain that by (simp add: char_lex_3)
  qed
  show "\<not> DatabaseIncompatibleVersion v"
    if "0 < major \<and> has_substring ''MariaDB'' v" "take 6 v \<noteq> ''5.5.5-''"
    using plain that maria_never_refused [OF _ assms(1), of major minor rest] assms(2) by simp
  show "\<not> DatabaseIncompatibleVersion (''5.5.5-'' @ v)" if "0 < major \<and> has_substring ''MariaDB'' v"
    using incompatible_chars [of 6 "''5.5.5-'' @ v"] len that maria_never_refused [OF _ assms(1), of major minor rest] assms(2)
    by simp
qed

lemma old_maria_text: "version_text 10 1 4 ''8-MariaDB'' = ''10.1.48-MariaDB''"
  by (simp add: version_text_def dec_digits.simps digit_char_def char_of_eq_iff)

theorem version_check_witness: "\<not> DatabaseIncompatibleVersion ''10.1.48-MariaDB''"
proof -
  have "(4 :: nat) < 10" "take 6 ''10.1.48-MariaDB'' \<noteq> ''5.5.5-''" "has_substring ''MariaDB'' ''10.1.48-MariaDB''"
    by simp_all
  with version_check [of 4 "''10.1.48-MariaDB''" 10 1 "''8-MariaDB''", OF _ old_maria_text [symmetric]]
  show ?thesis by simp
qed

subsection \<open>Opening and the queue\<close>

lemma share_info_simps [simp]:
  "p_queue (share_info i p) = p_queue p" "p_created (share_info i p) = p_created p"
  "length (p_async (share_info i p)) = length (p_async p)" "length (p_synch (share_info i p)) = length (p_synch p)"
  "p_async_threads (share_info i p) = p_async_threads p" "p_synch_threads (share_info i p) = p_synch_threads p"
  "p_preparedSize (share_info i p) = p_preparedSize p" "p_info (share_info i p) = Some i"
  "share_info i p = p' \<Longrightarrow> p_deleted p' = p_deleted p"
  by (auto simp: share_info_def)

lemma cancel_queue_simps [simp]:
  "q_shutdown (p_queue (cancel_queue p))" "q_items (p_queue (cancel_queue p)) = []"
  "p_async (cancel_queue p) = p_async p" "p_synch (cancel_queue p) = p_synch p"
  "p_deleted (cancel_queue p) = p_deleted p @ q_items (p_queue p)"
  "p_async_threads (cancel_queue p) = p_async_threads p" "p_synch_threads (cancel_queue p) = p_synch_threads p"
  by (simp_all add: cancel_queue_def pcq_Cancel_def)

lemma set_connections_simps [simp]:
  "p_queue (set_connections ty cs p) = p_queue p" "conns_of ty (set_connections ty cs p) = cs"
  "ty' \<noteq> ty \<Longrightarrow> conns_of ty' (set_connections ty cs p) = conns_of ty' p"
  "p_async_threads (set_connections ty cs p) = p_async_threads p"
  "p_synch_threads (set_connections ty cs p) = p_synch_threads p"
  "p_info (set_connections ty cs p) = p_info p"
  by (auto simp: set_connections_def conns_of_def split: internal_index.splits)

lemma drop_connections_keeps:
  "conns_of ty' (drop_connections ty n p) = conns_of ty' p"
  "p_async_threads (drop_connections ty n p) = p_async_threads p"
  "p_synch_threads (drop_connections ty n p) = p_synch_threads p"
  "q_shutdown (p_queue p) \<Longrightarrow> q_shutdown (p_queue (drop_connections ty n p))"
  "ty = IDX_SYNCH \<or> n = 0 \<Longrightarrow> drop_connections ty n p = p"
  "ty = IDX_ASYNC \<Longrightarrow> n \<noteq> 0 \<Longrightarrow> q_shutdown (p_queue (drop_connections ty n p))"
  by (auto simp: drop_connections_def conns_of_def split: internal_index.splits)

lemma length_connections_share [simp]:
  "length (conns_of ty' (share_info i p)) = length (conns_of ty' p)"
  by (cases ty') (simp_all add: conns_of_def share_info_def)

lemma connections_created [simp]: "conns_of ty (p\<lparr>p_created := m\<rparr>) = conns_of ty p"
  by (cases ty) (simp_all add: conns_of_def)

text \<open>The three ways the loop goes on with one more connection to open.\<close>

definition shared_with :: "conn \<Rightarrow> pool \<Rightarrow> pool" where
  "shared_with c p = share_info (c_info c) (p\<lparr>p_created := p_created p + 1\<rparr>)"

lemma open_loop_SucE:
  assumes "open_loop libs ty (Suc n) p = Ret (e, p')"
  obtains (Fail) c where "e \<noteq> NoErrno" "p' = drop_connections ty 1 (clear_connections ty (shared_with c p))"
    | (Old) c where "e = OtherErrno 1" "p' = drop_connections ty 1 (shared_with c p)"
    | (Next) c where "open_loop libs ty n
        (set_connections ty (conns_of ty (shared_with c p) @ [(p_created p, c)]) (shared_with c p)) = Ret (e, p')"
proof -
  from assms obtain info error c where
    "(let p1 = shared_with c p in
      if error \<noteq> NoErrno then Ret (error, drop_connections ty 1 (clear_connections ty p1))
      else if DatabaseIncompatibleVersion (lib_server_info (libs (p_created p)) (c_events c)) then
        Ret (OtherErrno 1, drop_connections ty 1 p1)
      else open_loop libs ty n (set_connections ty (conns_of ty p1 @ [(p_created p, c)]) p1)) = Ret (e, p')"
    by (auto simp: shared_with_def split: option.splits)
  then show thesis using that by (auto simp: Let_def split: if_splits)
qed

lemma shared_with_simps [simp]:
  "p_queue (shared_with c p) = p_queue p" "length (conns_of ty (shared_with c p)) = length (conns_of ty p)"
  "p_async_threads (shared_with c p) = p_async_threads p" "p_synch_threads (shared_with c p) = p_synch_threads p"
  "p_preparedSize (shared_with c p) = p_preparedSize p"
  by (simp_all add: shared_with_def)

text \<open>
  What a run of the loop leaves: the other list and the threads as they were, on success the new
  connections behind the old ones, and a queue that was not touched unless the loop failed on
  asynchronous connections, when it is shut down.
\<close>

lemma open_loop_effect:
  assumes "open_loop libs ty n p = Ret (e, p')"
  shows "(\<forall>ty'. ty' \<noteq> ty \<longrightarrow> length (conns_of ty' p') = length (conns_of ty' p)) \<and>
    p_async_threads p' = p_async_threads p \<and> p_synch_threads p' = p_synch_threads p \<and>
    (e = NoErrno \<longrightarrow> length (conns_of ty p') = length (conns_of ty p) + n \<and> p_queue p' = p_queue p) \<and>
    (e \<noteq> NoErrno \<and> e \<noteq> OtherErrno 1 \<longrightarrow> conns_of ty p' = []) \<and>
    (e \<noteq> NoErrno \<and> ty = IDX_ASYNC \<longrightarrow> q_shutdown (p_queue p')) \<and>
    (q_shutdown (p_queue p) \<longrightarrow> q_shutdown (p_queue p'))"
  using assms
proof (induction n arbitrary: p)
  case (Suc n)
  from Suc.prems show ?case
  proof (cases rule: open_loop_SucE)
    case (Next c)
    from Suc.IH [OF Next] show ?thesis by (simp add: length_connections_share)
  qed (auto simp: drop_connections_keeps clear_connections_def length_connections_share)
qed simp

lemma pool_Open_effect:
  assumes "pool_Open libs p = Ret (e, p')"
  shows "p_async_threads p' = p_async_threads p \<and> p_synch_threads p' = p_synch_threads p \<and>
    (q_shutdown (p_queue p) \<longrightarrow> q_shutdown (p_queue p')) \<and>
    (e = NoErrno \<longrightarrow> length (p_async p') = length (p_async p) + unat (p_async_threads p) \<and>
      length (p_synch p') = length (p_synch p) + unat (p_synch_threads p)) \<and>
    (e \<noteq> NoErrno \<longrightarrow> q_shutdown (p_queue p') \<or> 
      length (p_async p') = length (p_async p) + unat (p_async_threads p) \<and> (e \<noteq> OtherErrno 1 \<longrightarrow> p_synch p' = []))"
proof -
  from assms obtain e1 p1 where a: "open_loop libs IDX_ASYNC (unat (p_async_threads p)) p = Ret (e1, p1)"
    and s: "(if e1 \<noteq> NoErrno then Ret (e1, p1)
      else open_loop libs IDX_SYNCH (unat (p_synch_threads p1)) p1) = Ret (e, p')"
    by (auto simp: pool_Open_def OpenConnections_def split: if_splits)
  note ea = open_loop_effect [OF a]
  show ?thesis
  proof (cases "e1 = NoErrno")
    case True
    then have "open_loop libs IDX_SYNCH (unat (p_synch_threads p1)) p1 = Ret (e, p')" using s by simp
    from open_loop_effect [OF this] ea True show ?thesis
      by (auto simp: conns_of_def)
  next
    case False
    with s ea show ?thesis by (auto simp: conns_of_def)
  qed
qed

subsection \<open>Keeping alive\<close>

lemma enqueue_pings:
  "(Enqueue OpPing ^^ n) p = p\<lparr>p_queue := (p_queue p)\<lparr>q_items := q_items (p_queue p) @ replicate n OpPing\<rparr>\<rparr>"
  by (induction n) (simp_all add: Enqueue_def pcq_Push_def replicate_append_same)

lemma ping_loop_returns:
  assumes "num \<le> 255" and "unat (i :: uint8) \<le> num"
  shows "ping_loop num i p = Some ((Enqueue OpPing ^^ (num - unat i)) p)"
  using assms(2)
proof (induction "num - unat i" arbitrary: i p)
  case 0
  then show ?case by (subst ping_loop.simps) simp
next
  case (Suc d)
  have less: "unat i < num" using Suc.hyps(2) by linarith
  then have nxt: "unat (i + 1) = Suc (unat i)" using assms(1) by (simp add: unat_word_ariths)
  from less have "ping_loop num i p = ping_loop num (i + 1) (Enqueue OpPing p)"
    by (subst ping_loop.simps) simp
  also have "\<dots> = Some ((Enqueue OpPing ^^ (num - unat (i + 1))) (Enqueue OpPing p))"
    using Suc nxt by simp
  finally show ?case
    using Suc.hyps(2) nxt by (metis Suc_diff_Suc Suc_eq_plus1 diff_Suc_Suc funpow_Suc_right o_apply zero_less_Suc zero_less_diff)
qed

lemma ping_loop_endless:
  assumes "255 < num"
  shows "ping_loop num i p = None"
proof (rule ccontr)
  assume "ping_loop num i p \<noteq> None"
  then obtain r where r: "ping_loop num i p = Some r" by auto
  have "255 < num' \<longrightarrow> False" if "ping_loop num' j q = Some r'" for num' j q r'
  proof (rule ping_loop.raw_induct [where P = "\<lambda>num i p r. 255 < num \<longrightarrow> False", OF _ that])
    fix f :: "nat \<Rightarrow> uint8 \<Rightarrow> pool \<Rightarrow> pool option" and num i p r
    assume ih: "\<And>num i p r. f num i p = Some r \<Longrightarrow> 255 < num \<longrightarrow> False"
      and body: "(if unat i < num then f num (i + 1) (Enqueue OpPing p) else Some p) = Some r"
    have "unat (i :: uint8) \<le> 255" using unat_byte_less [of i] by simp
    then show "255 < num \<longrightarrow> False" using ih body by (auto split: if_splits)
  qed
  from this [OF r] assms show False by simp
qed

subsection \<open>A pool whose servers accept\<close>

text \<open>A library that lets the program connect to a server that is new enough.\<close>

definition lets_in :: "mysql \<Rightarrow> bool" where
  "lets_in env \<longleftrightarrow> (\<forall>tr. lib_init env tr) \<and> (\<forall>tr a. lib_connect env tr a = Okay) \<and>
     (\<forall>tr. \<not> DatabaseIncompatibleVersion (lib_server_info env tr))"

definition fresh_conn :: "internal_index \<Rightarrow> conn \<Rightarrow> bool" where
  "fresh_conn ty c \<longleftrightarrow> c_open c \<and> c_stmts c = [] \<and> c_flags c = connection_flags ty \<and> c_table c = login_statements \<and>
     \<not> c_locked c \<and> \<not> c_prepareError c \<and> \<not> c_reconnecting c \<and> conn_server c = server_empty"

lemma fresh_conn_info [simp]: "fresh_conn ty (c\<lparr>c_info := i\<rparr>) = fresh_conn ty c"
  by (simp add: fresh_conn_def conn_server_def)

lemma conn_Open_new:
  assumes "lib_init env []" and "\<forall>tr a. lib_connect env tr a = r" and "tcp_info info"
  shows "\<exists>c. conn_Open env (db_conn_new (connection_flags ty) login_statements info) = Ret (reply_errno r, c) \<and>
    c_info c = info \<and> (r = Okay \<longrightarrow> fresh_conn ty c)"
proof -
  let ?c = "db_conn_new (connection_flags ty) login_statements info"
  obtain port where "connect_target (c_info ?c) = Ret (info, port, None)"
    using connect_target_tcp [OF assms(3)] by (auto simp: db_conn_new_def)
  moreover have "lib_init env (c_events ?c)" using assms(1) by (simp add: db_conn_new_def)
  ultimately obtain a where a: "conn_Open env ?c =
      (let r = lib_connect env (c_events ?c @ [EvInit True]) a in Ret (reply_errno r, after_connect a r info ?c))"
    using conn_Open_connect by blast
  have "fresh_conn ty (after_connect a Okay info ?c)"
    by (simp add: fresh_conn_def db_conn_new_def conn_server_def after_connect_def conn_call_def conn_event_def sv_rollback_def
        server_empty_def)
  with a assms(2) show ?thesis
    by (intro exI [of _ "after_connect a r info ?c"]) (simp add: Let_def)
qed

definition all_fresh :: "pool \<Rightarrow> bool" where
  "all_fresh p \<longleftrightarrow> (\<forall>ty. \<forall>x \<in> set (conns_of ty p). fresh_conn ty (snd x))"

lemma open_loop_accepts:
  assumes "\<forall>k \<ge> p_created p. lets_in (libs k)" and "p_info p = Some info" and "tcp_info info"
  shows "\<exists>p'. open_loop libs ty n p = Ret (NoErrno, p') \<and> p_info p' = Some info \<and>
    p_created p' = p_created p + n \<and> (all_fresh p \<longrightarrow> all_fresh p')"
  using assms(1,2)
proof (induction n arbitrary: p)
  case (Suc n)
  let ?env = "libs (p_created p)"
  have env: "lib_init ?env []" "\<forall>tr a. lib_connect ?env tr a = Okay"
    "\<forall>tr. \<not> DatabaseIncompatibleVersion (lib_server_info ?env tr)"
    using Suc.prems(1) by (simp_all add: lets_in_def)
  from conn_Open_new [OF env(1,2) assms(3), of ty] obtain c where
    c: "conn_Open ?env (db_conn_new (connection_flags ty) login_statements info) = Ret (NoErrno, c)"
      "c_info c = info" "fresh_conn ty c"
    by auto
  let ?p1 = "share_info info (p\<lparr>p_created := p_created p + 1\<rparr>)"
  let ?p2 = "set_connections ty (conns_of ty ?p1 @ [(p_created p, c)]) ?p1"
  have step: "open_loop libs ty (Suc n) p = open_loop libs ty n ?p2"
    using Suc.prems(2) c env(3) by (simp add: Let_def)
  have created: "p_created ?p2 = p_created p + 1" by (cases ty) (simp_all add: set_connections_def)
  have f: "all_fresh ?p2" if "all_fresh p"
  proof -
    have "all_fresh ?p1"
      using that unfolding all_fresh_def by (auto simp: conns_of_def share_info_def split: internal_index.splits)
    then show ?thesis using c(3) unfolding all_fresh_def
      by (auto simp: conns_of_def set_connections_def split: internal_index.splits)
  qed
  have "\<forall>k \<ge> p_created ?p2. lets_in (libs k)" "p_info ?p2 = Some info"
    using Suc.prems created by simp_all
  from Suc.IH [OF this] step created f show ?case by auto
qed simp

lemma pool_Open_accepts:
  assumes "\<forall>k \<ge> p_created p. lets_in (libs k)" and "p_info p = Some info" and "tcp_info info"
  shows "\<exists>p'. pool_Open libs p = Ret (NoErrno, p') \<and> p_info p' = Some info \<and> (all_fresh p \<longrightarrow> all_fresh p')"
proof -
  from open_loop_accepts [OF assms, of IDX_ASYNC "unat (p_async_threads p)"] obtain p1 where
    p1: "open_loop libs IDX_ASYNC (unat (p_async_threads p)) p = Ret (NoErrno, p1)" "p_info p1 = Some info"
      "p_created p \<le> p_created p1" "all_fresh p \<longrightarrow> all_fresh p1"
    by auto
  have "\<forall>k \<ge> p_created p1. lets_in (libs k)" using assms(1) p1(3) by auto
  from open_loop_accepts [OF this p1(2) assms(3), of IDX_SYNCH "unat (p_synch_threads p1)"] obtain p2 where
    p2: "open_loop libs IDX_SYNCH (unat (p_synch_threads p1)) p1 = Ret (NoErrno, p2)" "p_info p2 = Some info"
      "all_fresh p1 \<longrightarrow> all_fresh p2"
    by auto
  have "p_synch_threads p1 = p_synch_threads p" using open_loop_effect [OF p1(1)] by simp
  with p1 p2 assms(2) show ?thesis by (simp add: pool_Open_def OpenConnections_def)
qed

subsection \<open>Properties of opening\<close>

lemma queue_of_enqueued: "p_queue (fold Enqueue ops p) = fold pcq_Push ops (p_queue p)"
  by (induction ops arbitrary: p) (simp_all add: Enqueue_def)

text \<open>
  Transactions committed on a pool with an open queue: a worker that takes operations until it would
  wait gets what was queued before and then these transactions, in the order of the calls.
\<close>

lemma commits_reach_worker:
  assumes "\<not> q_shutdown (p_queue p)" and "length (q_items (p_queue p)) + length ts \<le> n"
  shows "fst (pcq.take_all n (p_queue (fold CommitTransaction ts p))) = q_items (p_queue p) @ map OpTransaction ts"
proof -
  have q: "q_items (fold pcq_Push ops q) = q_items q @ ops \<and> q_shutdown (fold pcq_Push ops q) = q_shutdown q" for ops and q :: "operation pcqueue"
    by (induction ops arbitrary: q) (simp_all add: pcq_Push_def)
  have "fold CommitTransaction ts p = fold Enqueue (map OpTransaction ts) p"
    by (induction ts arbitrary: p) (simp_all add: CommitTransaction_def)
  with pcq.take_all_content [of "fold pcq_Push (map OpTransaction ts) (p_queue p)" n] q [of "map OpTransaction ts" "p_queue p"] assms
  show ?thesis by (simp add: queue_of_enqueued)
qed

text \<open>
  C22. An attempt to open the pool that fails on an asynchronous connection shuts its queue down for good:
  when a later attempt succeeds, every worker finds the queue shut down, and whatever is queued is
  never executed.
\<close>

theorem failed_open_stops_queue:
  assumes "pool_Open libs p = Ret (e, p1)" and "e \<noteq> NoErrno"
    and "length (p_async p1) < length (p_async p) + unat (p_async_threads p)"
    and "pool_Open libs p1 = Ret (e', p2)"
  shows "\<forall>ops. \<exists>q. pcq_WaitAndPop (p_queue (fold Enqueue ops p2)) = Some (q, None)"
proof -
  have "q_shutdown (p_queue p1)" using pool_Open_effect [OF assms(1)] assms(2,3) by auto
  then have "q_shutdown (p_queue p2)" using pool_Open_effect [OF assms(4)] by simp
  then show ?thesis using pcq.closed_for_good [of "p_queue p2"] by (simp add: queue_of_enqueued)
qed

text \<open>
  C38. \<open>KeepAlive\<close> reads a null handle when a synchronous connection that is free has lost its handle, as it
  has after a reconnection that was given up; otherwise it pings the free synchronous connections and
  queues one ping for each asynchronous one, provided there are at most 255 of these: with more its
  counter wraps and it never comes back.
\<close>

theorem keep_alive_returns:
  "KeepAlive p =
    (if list_ex (\<lambda>(k, c). \<not> c_locked c \<and> \<not> c_open c) (p_synch p) then Some (Crash NullDeref)
     else if length (p_async p) \<le> 255
     then Some (Ret (p\<lparr>p_synch := map (map_prod id (\<lambda>c. if c_locked c then c else conn_event EvPing c)) (p_synch p),
       p_queue := (p_queue p)\<lparr>q_items := q_items (p_queue p) @ replicate (length (p_async p)) OpPing\<rparr>\<rparr>))
     else None)"
proof -
  have free: "ping_free c = (if \<not> c_locked c \<and> \<not> c_open c then Crash NullDeref
      else Ret (if c_locked c then c else conn_event EvPing c))" for c
    by (cases c) (simp add: ping_free_def LockIfReady_def Unlock_def Ping_def conn_event_def)
  have "ping_synch cs = (if list_ex (\<lambda>(k, c). \<not> c_locked c \<and> \<not> c_open c) cs then Crash NullDeref
      else Ret (map (map_prod id (\<lambda>c. if c_locked c then c else conn_event EvPing c)) cs))" for cs
    by (induction cs) (auto simp: free)
  then show ?thesis
    using ping_loop_returns [of "length (p_async p)" 0] ping_loop_endless [of "length (p_async p)" 0]
    by (simp add: KeepAlive_def bind_run_def enqueue_pings)
qed

definition sample_pool :: "uint8 \<Rightarrow> uint8 \<Rightarrow> pool" where
  "sample_pool asyncs synchs = pool_empty\<lparr>p_info := Some sample_info, p_async_threads := asyncs, p_synch_threads := synchs\<rparr>"

lemma sample_lib_lets_in [simp]: "lets_in (sample_lib q (\<lambda>_ _. Okay))"
  by (simp add: lets_in_def sample_lib_def incompatible_chars [of 0] char_lex_3)

lemma sample_lib_fields [simp]:
  "lib_init (sample_lib q r) tr" "lib_connect (sample_lib q r) tr a = r tr a"
  "lib_server_info (sample_lib q r) tr = ''8.0.33''" "lib_query (sample_lib q r) tr s = q tr s"
  by (simp_all add: sample_lib_def)

text \<open>The first connection is refused, the later ones are let in.\<close>

definition late_libs :: libs where
  "late_libs k = sample_lib (\<lambda>_ _. Okay) (\<lambda>_ _. if k = 0 then Failed CR_CONNECTION_ERROR else Okay)"

lemma late_libs_opens:
  "\<exists>p1 p2. pool_Open late_libs (sample_pool 1 1) = Ret (CR_CONNECTION_ERROR, p1) \<and> p_async p1 = [] \<and>
    pool_Open late_libs p1 = Ret (NoErrno, p2) \<and> length (p_async p2) = 1"
proof -
  let ?p = "sample_pool 1 1"
  have i: "lib_init (late_libs 0) []" "\<forall>tr a. lib_connect (late_libs 0) tr a = Failed CR_CONNECTION_ERROR"
    by (simp_all add: late_libs_def)
  from conn_Open_new [OF i sample_info_tcp, of IDX_ASYNC] obtain c where
    c: "conn_Open (late_libs 0) (db_conn_new (connection_flags IDX_ASYNC) login_statements sample_info) =
      Ret (CR_CONNECTION_ERROR, c)" "c_info c = sample_info"
    by auto
  let ?p1 = "drop_connections IDX_ASYNC 1 (clear_connections IDX_ASYNC (share_info sample_info (?p\<lparr>p_created := 1\<rparr>)))"
  have o1: "pool_Open late_libs ?p = Ret (CR_CONNECTION_ERROR, ?p1)"
    using c by (simp add: pool_Open_def OpenConnections_def sample_pool_def pool_empty_def Let_def)
  have p1: "p_created ?p1 = 1" "p_info ?p1 = Some sample_info" "p_async ?p1 = []" "p_async_threads ?p1 = 1"
    by (simp_all add: drop_connections_def clear_connections_def set_connections_def conns_of_def cancel_queue_def
        pcq_Cancel_def share_info_def sample_pool_def pool_empty_def)
  have "\<forall>k \<ge> p_created ?p1. lets_in (late_libs k)" using p1(1) by (simp add: late_libs_def)
  from pool_Open_accepts [OF this p1(2) sample_info_tcp] obtain p2 where o2: "pool_Open late_libs ?p1 = Ret (NoErrno, p2)"
    by blast
  have len: "length (p_async p2) = 1" using pool_Open_effect [OF o2] p1(3,4) by simp
  with o1 o2 p1(3) show ?thesis by auto
qed

theorem failed_open_stops_queue_witness:
  "\<exists>p1 p2. pool_Open late_libs (sample_pool 1 1) = Ret (CR_CONNECTION_ERROR, p1) \<and>
    pool_Open late_libs p1 = Ret (NoErrno, p2) \<and> length (p_async p2) = 1 \<and>
    (\<exists>q. pcq_WaitAndPop (p_queue (pool_Execute_sql ''UPDATE t'' p2)) = Some (q, None))"
proof -
  from late_libs_opens obtain p1 p2 where
    o: "pool_Open late_libs (sample_pool 1 1) = Ret (CR_CONNECTION_ERROR, p1)" "p_async p1 = []"
      "pool_Open late_libs p1 = Ret (NoErrno, p2)" "length (p_async p2) = 1"
    by blast
  have few: "length (p_async p1) < length (p_async (sample_pool 1 1)) + unat (p_async_threads (sample_pool 1 1))"
    using o(2) by (simp add: sample_pool_def)
  have "\<exists>q. pcq_WaitAndPop (p_queue (fold Enqueue [OpBasic (BasicStatementTask ''UPDATE t'' False)] p2)) = Some (q, None)"
    using failed_open_stops_queue [OF o(1) _ few o(3)] by blast
  then have "\<exists>q. pcq_WaitAndPop (p_queue (pool_Execute_sql ''UPDATE t'' p2)) = Some (q, None)"
    by (simp add: pool_Execute_sql_def)
  with o show ?thesis by auto
qed

end
