(* ===== verification/Pool_Locks.thy ===== *)
theory Pool_Locks
  imports Pool_Facts
begin

section \<open>The locks of the synchronous connections\<close>

text \<open>
  Whatever a connection does, also when it is opened again, it keeps its lock, its kind and its
  table of statements; so the locks change only where the pool takes and returns connections.
\<close>

subsection \<open>What a connection keeps\<close>

definition conn_frame :: "conn \<Rightarrow> bool \<times> uint8 \<times> statement_table" where
  "conn_frame c = (c_locked c, c_flags c, c_table c)"

lemma conn_frame_updates [simp]:
  "conn_frame (conn_event e c) = conn_frame c" "conn_frame (conn_call e r c) = conn_frame c"
  "conn_frame (c\<lparr>c_open := b\<rparr>) = conn_frame c" "conn_frame (c\<lparr>c_info := i\<rparr>) = conn_frame c"
  "conn_frame (c\<lparr>c_stmts := ss\<rparr>) = conn_frame c" "conn_frame (c\<lparr>c_errno := n\<rparr>) = conn_frame c"
  "conn_frame (c\<lparr>c_reconnecting := b\<rparr>) = conn_frame c" "conn_frame (c\<lparr>c_prepareError := b\<rparr>) = conn_frame c"
  by (simp_all add: conn_frame_def conn_event_def conn_call_def)

lemma conn_frame_Open: "conn_Open env c = Ret (e, c') \<Longrightarrow> conn_frame c' = conn_frame c"
  by (drule conn_Open_cases) (auto simp: after_connect_def)

lemma conn_frame_Prepare_at: "PrepareStatement_at env i q f c = Ret c' \<Longrightarrow> conn_frame c' = conn_frame c"
  by (auto simp: PrepareStatement_at_def Let_def split: if_splits option.splits)

lemma conn_frame_Prepare_sql: "PrepareStatement_sql env q f c = Ret (m, c') \<Longrightarrow> conn_frame c' = conn_frame c"
  by (auto simp: PrepareStatement_sql_def Let_def split: if_splits option.splits)

lemma conn_frame_prepare_all: "prepare_all env ss c = Ret c' \<Longrightarrow> conn_frame c' = conn_frame c"
proof (induction ss arbitrary: c)
  case (Cons s ss)
  then show ?case using conn_frame_Prepare_at by (cases s) fastforce
qed simp

lemma conn_frame_PrepareStatements: "PrepareStatements env c = Ret (ok, c') \<Longrightarrow> conn_frame c' = conn_frame c"
  by (auto simp: PrepareStatements_def DoPrepareStatements_def dest!: conn_frame_prepare_all split: if_splits)

lemma conn_frame_reconnect:
  assumes "try_reconnect env e c = Ret (r, c')"
  shows "conn_frame c' = conn_frame c"
proof -
  let ?c1 = "(if is_lost e \<and> c_open c then (conn_event EvClose c)\<lparr>c_open := False\<rparr> else c)\<lparr>c_reconnecting := True\<rparr>"
  obtain n c2 where op: "conn_Open env ?c1 = Ret (n, c2)" using assms by (auto simp: try_reconnect_def Let_def)
  have "conn_frame c2 = conn_frame c" using conn_frame_Open [OF op] by simp
  then show ?thesis
    using assms op by (auto simp: try_reconnect_def Let_def split: if_splits dest!: conn_frame_PrepareStatements)
qed

lemma conn_frame_handle_errno: "handle_errno env n e c = Ret (b, c') \<Longrightarrow> conn_frame c' = conn_frame c"
proof (induction n arbitrary: e c)
  case 0
  then show ?case by (auto split: errno_kind.splits option.splits dest: conn_frame_reconnect)
next
  case (Suc n)
  show ?case
  proof (cases "errno_class e")
    case Reconnect
    with Suc.prems obtain r c1 where r: "try_reconnect env e c = Ret (r, c1)"
      and c': "(case r of None \<Rightarrow> Ret (True, c1) | Some e' \<Rightarrow> handle_errno env n e' c1) = Ret (b, c')"
      by auto
    show ?thesis
      using conn_frame_reconnect [OF r] c' Suc.IH by (cases r) auto
  qed (use Suc.prems in auto)
qed

text \<open>The loops that repeat a statement; the claim on each result is carried through the repetitions.\<close>

lemma conn_frame_Execute_sql:
  assumes "Execute_sql env q c = Some (Ret (ok, c'))"
  shows "conn_frame c' = conn_frame c"
proof -
  have "\<forall>ok c'. r = Ret (ok, c') \<longrightarrow> conn_frame c' = conn_frame c" if "Execute_sql env q c = Some r" for env q c r
  proof (rule Execute_sql.raw_induct [where P = "\<lambda>env q c r. \<forall>ok c'. r = Ret (ok, c') \<longrightarrow> conn_frame c' = conn_frame c", OF _ that])
    fix f :: "mysql \<Rightarrow> string \<Rightarrow> conn \<Rightarrow> (bool \<times> conn) outcome option" and env q c r
    assume ih: "\<And>env q c r. f env q c = Some r \<Longrightarrow> \<forall>ok c'. r = Ret (ok, c') \<longrightarrow> conn_frame c' = conn_frame c"
      and body: "(if \<not> c_open c then Some (Ret (False, c))
      else
        (case lib_query env (c_events c) q of
           Okay \<Rightarrow> Some (Ret (True, conn_call (EvQuery q Okay) Okay c))
         | Failed e \<Rightarrow>
             (case handle_errno env default_attempts e (conn_call (EvQuery q (Failed e)) (Failed e) c) of
                Ret (retry, c') \<Rightarrow> if retry then f env q c' else Some (Ret (False, c'))
              | Crash k \<Rightarrow> Some (Crash k)))) = Some r"
    show "\<forall>ok c'. r = Ret (ok, c') \<longrightarrow> conn_frame c' = conn_frame c"
      using body
      by (auto split: if_splits reply.splits outcome.splits dest!: ih conn_frame_handle_errno)
  qed
  from this [OF assms] show ?thesis by simp
qed

lemma conn_frame_Query_sql_loop:
  assumes "Query_sql_loop env q c = Some (Ret (x, c'))"
  shows "conn_frame c' = conn_frame c"
proof -
  have "\<forall>x c'. r = Ret (x, c') \<longrightarrow> conn_frame c' = conn_frame c" if "Query_sql_loop env q c = Some r" for env q c r
  proof (rule Query_sql_loop.raw_induct [where P = "\<lambda>env q c r. \<forall>x c'. r = Ret (x, c') \<longrightarrow> conn_frame c' = conn_frame c", OF _ that])
    fix f :: "mysql \<Rightarrow> string \<Rightarrow> conn \<Rightarrow> (store_result option \<times> conn) outcome option" and env q c r
    assume ih: "\<And>env q c r. f env q c = Some r \<Longrightarrow> \<forall>x c'. r = Ret (x, c') \<longrightarrow> conn_frame c' = conn_frame c"
      and body: "(if \<not> c_open c then Some (Ret (None, c))
      else
        (case lib_query env (c_events c) q of
           Okay \<Rightarrow>
             (let c1 = conn_call (EvQuery q Okay) Okay c; r = lib_text_result env (c_events c1) in
              if tr_result r = None \<or> tr_affected r = 0 then Some (Ret (None, c1)) else Some (Ret (Some r, c1)))
         | Failed e \<Rightarrow>
             (case handle_errno env default_attempts e (conn_call (EvQuery q (Failed e)) (Failed e) c) of
                Ret (retry, c') \<Rightarrow> if retry then f env q c' else Some (Ret (None, c'))
              | Crash k \<Rightarrow> Some (Crash k)))) = Some r"
    show "\<forall>x c'. r = Ret (x, c') \<longrightarrow> conn_frame c' = conn_frame c"
      using body
      by (auto simp: Let_def split: if_splits reply.splits outcome.splits dest!: ih conn_frame_handle_errno)
  qed
  from this [OF assms] show ?thesis by simp
qed

lemma conn_frame_Query_sql: "conn_Query_sql env q c = Some (Ret (x, c')) \<Longrightarrow> conn_frame c' = conn_frame c"
  by (auto simp: conn_Query_sql_def split: if_splits option.splits outcome.splits dest!: conn_frame_Query_sql_loop)

lemma conn_frame_store: "store_stmt m (st, c) = (st', c') \<Longrightarrow> conn_frame c' = conn_frame c"
  by (auto simp: store_stmt_def split: if_splits)

lemma conn_frame_attempt:
  assumes "attempt_stmt env st c = Ret (r, m, st', c')"
  shows "conn_frame c' = conn_frame c"
proof -
  from assms obtain m0 m1 where m: "resolve_stmt st c = Ret m0" "BindParameters st m0 = Ret m1"
    by (auto simp: attempt_stmt_def)
  obtain st1 c1 where st1: "store_stmt m1 (st, c) = (st1, c1)" by (cases "store_stmt m1 (st, c)")
  from assms m st1 have "c' = (conn_event (EvBind m1 (lib_bind env (c_events c1) m1)) c1)\<lparr>c_errno := c_errno c'\<rparr> \<or>
      (\<exists>e r. c' = conn_call e r (conn_event (EvBind m1 (lib_bind env (c_events c1) m1)) c1))"
    by (auto simp: attempt_stmt_def Let_def split: reply.splits)
  then have "conn_frame c' = conn_frame c1" by (elim disjE exE) (metis conn_frame_updates)+
  with conn_frame_store [OF st1] show ?thesis by simp
qed

lemma conn_frame_Execute_stmt:
  assumes "Execute_stmt env st c = Some (Ret (ok, st', c'))"
  shows "conn_frame c' = conn_frame c"
proof -
  have "\<forall>ok st' c'. r = Ret (ok, st', c') \<longrightarrow> conn_frame c' = conn_frame c"
    if "Execute_stmt env st c = Some r" for env st c r
  proof (rule Execute_stmt.raw_induct [where P = "\<lambda>env st c r. \<forall>ok st' c'. r = Ret (ok, st', c') \<longrightarrow> conn_frame c' = conn_frame c", OF _ that])
    fix f :: "mysql \<Rightarrow> stmt \<Rightarrow> conn \<Rightarrow> (bool \<times> stmt \<times> conn) outcome option" and env st c r
    assume ih: "\<And>env st c r. f env st c = Some r \<Longrightarrow> \<forall>ok st' c'. r = Ret (ok, st', c') \<longrightarrow> conn_frame c' = conn_frame c"
      and body: "(if \<not> c_open c then Some (Ret (False, st, c))
      else
        (case attempt_stmt env st c of
           Ret (r, m, st1, c1) \<Rightarrow>
             (case r of
                Okay \<Rightarrow> Some (Ret (True, store_stmt (ClearParameters m) (st1, c1)))
              | Failed e \<Rightarrow>
                  (case handle_errno env default_attempts e c1 of
                     Ret (retry, c2) \<Rightarrow>
                       if retry then f env st1 c2
                       else Some (Ret (False, store_stmt (ClearParameters m) (st1, c2)))
                   | Crash k \<Rightarrow> Some (Crash k)))
         | Crash k \<Rightarrow> Some (Crash k))) = Some r"
    show "\<forall>ok st' c'. r = Ret (ok, st', c') \<longrightarrow> conn_frame c' = conn_frame c"
      using body
      by (auto split: if_splits reply.splits outcome.splits
          dest!: ih conn_frame_handle_errno conn_frame_attempt conn_frame_store)
  qed
  from this [OF assms] show ?thesis by simp
qed

lemma conn_frame_Query_stmt_loop:
  assumes "Query_stmt_loop env st c = Some (Ret (x, st', c'))"
  shows "conn_frame c' = conn_frame c"
proof -
  have "\<forall>x st' c'. r = Ret (x, st', c') \<longrightarrow> conn_frame c' = conn_frame c"
    if "Query_stmt_loop env st c = Some r" for env st c r
  proof (rule Query_stmt_loop.raw_induct [where P = "\<lambda>env st c r. \<forall>x st' c'. r = Ret (x, st', c') \<longrightarrow> conn_frame c' = conn_frame c", OF _ that])
    fix f :: "mysql \<Rightarrow> stmt \<Rightarrow> conn \<Rightarrow> ((stmt_result \<times> nat \<times> nat) option \<times> stmt \<times> conn) outcome option" and env st c r
    assume ih: "\<And>env st c r. f env st c = Some r \<Longrightarrow> \<forall>x st' c'. r = Ret (x, st', c') \<longrightarrow> conn_frame c' = conn_frame c"
      and body: "(if \<not> c_open c then Some (Ret (None, st, c))
      else
        (case attempt_stmt env st c of
           Ret (r, m, st1, c1) \<Rightarrow>
             (case r of
                Okay \<Rightarrow> Some (Ret (Some (lib_stmt_result env (c_events c1)), store_stmt (ClearParameters m) (st1, c1)))
              | Failed e \<Rightarrow>
                  (case handle_errno env default_attempts e c1 of
                     Ret (retry, c2) \<Rightarrow>
                       if retry then f env st1 c2
                       else Some (Ret (None, store_stmt (ClearParameters m) (st1, c2)))
                   | Crash k \<Rightarrow> Some (Crash k)))
         | Crash k \<Rightarrow> Some (Crash k))) = Some r"
    show "\<forall>x st' c'. r = Ret (x, st', c') \<longrightarrow> conn_frame c' = conn_frame c"
      using body
      by (auto split: if_splits reply.splits outcome.splits
          dest!: ih conn_frame_handle_errno conn_frame_attempt conn_frame_store)
  qed
  from this [OF assms] show ?thesis by simp
qed

lemma conn_frame_Query_stmt: "conn_Query_stmt env st c = Some (Ret (x, st', c')) \<Longrightarrow> conn_frame c' = conn_frame c"
  by (auto simp: conn_Query_stmt_def split: option.splits outcome.splits dest!: conn_frame_Query_stmt_loop)

lemma bind_run_Ret [simp]:
  "bind_run r f = Some (Ret y) \<longleftrightarrow> (\<exists>x. r = Some (Ret x) \<and> f x = Some (Ret y))"
  by (auto simp: bind_run_def split: option.splits outcome.splits)

lemma bind_run_None: "bind_run None f = None"
  by (simp add: bind_run_def)

lemma map_outcome_Ret [simp]: "map_outcome f r = Ret y \<longleftrightarrow> (\<exists>x. r = Ret x \<and> f x = y)"
  by (cases r) simp_all

lemma conn_frame_element: "Execute_element env d c = Some (Ret (ok, c')) \<Longrightarrow> conn_frame c' = conn_frame c"
  by (auto simp: Execute_element_def split: element_type.splits element.splits option.splits if_splits
      dest!: conn_frame_Execute_sql conn_frame_Execute_stmt)

lemma conn_frame_control:
  "Execute_control env q c = Some (Ret c') \<Longrightarrow> conn_frame c' = conn_frame c"
  by (auto simp: Execute_control_def dest!: conn_frame_Execute_sql)

lemmas conn_frame_controls =
  conn_frame_control [of _ "''START TRANSACTION''", folded conn_BeginTransaction_def]
  conn_frame_control [of _ "''COMMIT''", folded conn_CommitTransaction_def]
  conn_frame_control [of _ "''ROLLBACK''", folded conn_RollbackTransaction_def]

lemma conn_frame_run_queries: "run_queries env ds c = Some (Ret (code, c')) \<Longrightarrow> conn_frame c' = conn_frame c"
proof (induction ds arbitrary: c)
  case Nil
  then show ?case by (auto dest!: conn_frame_controls)
next
  case (Cons d ds)
  from Cons.prems obtain ok c1 where e: "Execute_element env d c = Some (Ret (ok, c1))"
    and r: "(if ok then run_queries env ds c1
       else bind_run (conn_RollbackTransaction env c1) (\<lambda>c. Some (Ret (Code (GetLastError env c1), c)))) = Some (Ret (code, c'))"
    unfolding run_queries.simps Let_def by (elim bind_run_Ret [THEN iffD1, elim_format] exE conjE) (auto split: prod.splits)
  show ?case
    using conn_frame_element [OF e] r Cons.IH by (auto split: if_splits dest!: conn_frame_controls)
qed

lemma conn_frame_transaction: "ExecuteTransaction env ds c = Some (Ret (code, c')) \<Longrightarrow> conn_frame c' = conn_frame c"
  by (auto simp: ExecuteTransaction_def split: if_splits dest!: conn_frame_run_queries conn_frame_controls)

lemmas conn_frames = conn_frame_Execute_sql conn_frame_Query_sql conn_frame_Execute_stmt conn_frame_Query_stmt
  conn_frame_Prepare_sql conn_frame_transaction

subsection \<open>The locks of the pool\<close>

definition locks :: "pool \<Rightarrow> bool list" where
  "locks p = map (\<lambda>x. c_locked (snd x)) (p_synch p)"

lemma locks_simps [simp]:
  "length (locks p) = length (p_synch p)" "locks (share_info i p) = locks p"
  "k < length (p_synch p) \<Longrightarrow> locks p ! k = c_locked (snd (p_synch p ! k))"
  by (simp_all add: locks_def share_info_def)

lemma locks_set_synch [simp]: "locks (set_synch k c p) = (locks p)[k := c_locked c]"
  by (simp add: locks_def set_synch_def map_update)

lemma length_set_synch [simp]: "length (p_synch (set_synch k c p)) = length (p_synch p)"
  by (simp add: set_synch_def)

lemma locks_on_synch:
  assumes "on_synch libs k f p = Some (Ret (x, p'))" and "\<And>env c y c'. f env c = Some (Ret (y, c')) \<Longrightarrow> conn_frame c' = conn_frame c"
  shows "locks p' = locks p \<and> k < length (p_synch p)"
proof -
  from assms(1) obtain y c' where k: "k < length (p_synch p)"
    and f: "f (libs (fst (p_synch p ! k))) (snd (p_synch p ! k)) = Some (Ret (y, c'))"
    and p': "p' = share_info (c_info c') (set_synch k c' p)"
    by (auto simp: on_synch_def split: if_splits)
  have "c_locked c' = locks p ! k" using assms(2) [OF f] k by (simp add: conn_frame_def)
  then have "locks p' = (locks p)[k := locks p ! k]" by (simp only: p' locks_simps(2) locks_set_synch)
  with k show ?thesis by (simp only: list_update_id simp_thms)
qed

lemma locks_free:
  assumes "GetFreeConnection p = Some (Ret (k, p'))" and "length (p_synch p) \<le> 255"
  shows "k < length (p_synch p) \<and> \<not> locks p ! k \<and> locks p' = (locks p)[k := True]"
proof -
  from assms obtain ks where o: "free_order p = k # ks" and ne: "p_synch p \<noteq> []" and p': "p' = lock_at k p"
    by (auto simp: GetFreeConnection_eq split: if_splits list.splits)
  have "k \<in> set (free_order p)" using o by simp
  then have "k \<in> set ([1..<length (p_synch p)] @ [0])" "is_free (p_synch p) k"
    by (simp_all only: free_order_def set_filter) simp_all
  then have "k < length (p_synch p)" using ne by auto
  with \<open>is_free (p_synch p) k\<close> p' show ?thesis by (simp add: lock_at_def)
qed

lemma locks_Unlock [simp]: "locks (pool_Unlock k p) = (locks p)[k := False]"
  by (simp add: pool_Unlock_def Unlock_def)

text \<open>A free connection, something on it that keeps the locks, and giving it back.\<close>

lemma locks_round:
  assumes "GetFreeConnection p = Some (Ret (k, p1))" and "length (p_synch p) \<le> 255" and "locks p2 = locks p1"
  shows "locks (pool_Unlock k p2) = locks p"
proof -
  note f = locks_free [OF assms(1,2)]
  have "locks (pool_Unlock k p2) = (locks p)[k := False]" using f assms(3) by simp
  also have "\<dots> = locks p" using f by (metis (full_types) list_update_id)
  finally show ?thesis .
qed

lemma locks_direct_retry: "direct_retry n libs k ds p = Some (Ret p') \<Longrightarrow> locks p' = locks p"
proof (induction n arbitrary: p)
  case (Suc n)
  then obtain code p1 where o: "on_synch libs k (\<lambda>env. ExecuteTransaction env ds) p = Some (Ret (code, p1))"
    and r: "(if code = Code NoErrno then Some (Ret p1) else direct_retry n libs k ds p1) = Some (Ret p')"
    by auto
  have "locks p1 = locks p" using locks_on_synch [OF o] conn_frame_transaction by blast
  then show ?case using r Suc.IH by (auto split: if_splits)
qed simp

text \<open>One call on a free connection, as most calls of the pool are.\<close>

lemma locks_call:
  assumes "length (p_synch p) \<le> 255" and "GetFreeConnection p = Some (Ret (k, p1))"
    and "on_synch libs k f p1 = Some (Ret (x, p2))"
    and "\<And>env c y c'. f env c = Some (Ret (y, c')) \<Longrightarrow> conn_frame c' = conn_frame c"
  shows "locks (pool_Unlock k p2) = locks p"
  using locks_round [OF assms(2,1)] locks_on_synch [OF assms(3,4)] by simp

lemma conn_frame_stmt_calls:
  "bind_run (conn_Query_stmt env st c) (\<lambda>(ret, st, c). Some (Ret (ret, c))) = Some (Ret (y, c')) \<Longrightarrow>
    conn_frame c' = conn_frame c"
  "bind_run (Execute_stmt env st c) (\<lambda>(ok, st, c). Some (Ret (ok, c))) = Some (Ret (z, c')) \<Longrightarrow>
    conn_frame c' = conn_frame c"
  by (auto dest!: conn_frames)

lemma locks_Query_sql:
  assumes "length (p_synch p) \<le> 255" and "pool_Query_sql libs sql p = Some (Ret (r, p'))"
  shows "locks p' = locks p"
  using assms(2) by (auto simp: pool_Query_sql_def dest!: locks_call [OF assms(1)] conn_frames)

lemma locks_Query_stmt:
  assumes "length (p_synch p) \<le> 255" and "pool_Query_stmt libs s p = Some (Ret (r, p'))"
  shows "if st_isPrepared (ps_stmt s) then (\<exists>k. ps_conn s = Some k \<and> locks p' = (locks p)[k := False]) else locks p' = locks p"
proof (cases "st_isPrepared (ps_stmt s)")
  case True
  with assms(2) obtain k ret p1 where k: "ps_conn s = Some k"
    and o: "on_synch libs k (\<lambda>env c. bind_run (conn_Query_stmt env (ps_stmt s) c) (\<lambda>(ret, st, c). Some (Ret (ret, c)))) p =
      Some (Ret (ret, p1))" and p': "p' = pool_Unlock k p1"
    unfolding pool_Query_stmt_def by (cases "ps_conn s") auto
  have "locks p1 = locks p" using locks_on_synch [OF o] conn_frame_stmt_calls(1) by blast
  with True k p' show ?thesis by simp
next
  case False
  then show ?thesis using assms(2)
    by (auto simp: pool_Query_stmt_def simp del: locks_Unlock
        dest: locks_call [OF assms(1) _ _ conn_frame_stmt_calls(1)])
qed

lemma locks_Direct_sql:
  assumes "length (p_synch p) \<le> 255" and "DirectExecute_sql libs sql p = Some (Ret p')"
  shows "locks p' = locks p"
  using assms(2) by (auto simp: DirectExecute_sql_def simp del: locks_Unlock split: if_splits
      dest!: locks_call [OF assms(1)] conn_frames)

lemma locks_Direct_stmt:
  assumes "length (p_synch p) \<le> 255" and "DirectExecute_stmt libs s p = Some (Ret p')"
  shows "locks p' = locks p"
  using assms(2) by (auto simp: DirectExecute_stmt_def simp del: locks_Unlock
      dest: locks_call [OF assms(1) _ _ conn_frame_stmt_calls(2)])

lemma locks_Direct_commit:
  assumes "length (p_synch p) \<le> 255" and "DirectCommitTransaction libs t p = Some (Ret (t', p'))"
  shows "locks p' = locks p"
proof -
  from assms(2) obtain k p1 code p2 where f: "GetFreeConnection p = Some (Ret (k, p1))"
    and o: "on_synch libs k (\<lambda>env. ExecuteTransaction env (tx_queries t)) p1 = Some (Ret (code, p2))"
    and c: "(if code = Code NoErrno then Some (Ret (t, pool_Unlock k p2))
       else
         bind_run (if code = Code ER_LOCK_DEADLOCK then direct_retry 5 libs k (tx_queries t) p2 else Some (Ret p2))
           (\<lambda>p. Some (bind_outcome (Cleanup t) (\<lambda>t. Ret (t, pool_Unlock k p))))) = Some (Ret (t', p'))"
    unfolding DirectCommitTransaction_def by (auto simp del: locks_Unlock)
  have p2: "locks p2 = locks p1" using locks_on_synch [OF o] conn_frame_transaction by blast
  from c obtain p3 where "p' = pool_Unlock k p3" "locks p3 = locks p2"
    by (auto split: if_splits dest: locks_direct_retry)
  with p2 locks_round [OF f assms(1)] show ?thesis by simp
qed

lemma locks_GetPrepared_sql:
  assumes "length (p_synch p) \<le> 255" and "GetPreparedStatement_sql libs sql p = Some (Ret (s, p'))"
  shows "\<exists>k. ps_conn s = Some k \<and> k < length (p_synch p) \<and> \<not> locks p ! k \<and> locks p' = (locks p)[k := True] \<and>
    \<not> st_isPrepared (ps_stmt s)"
proof -
  from assms(2) obtain k p1 m p2 where f: "GetFreeConnection p = Some (Ret (k, p1))"
    and o: "on_synch libs k (\<lambda>env c. Some (PrepareStatement_sql env sql CONNECTION_SYNCH c)) p1 = Some (Ret (m, p2))"
    and s: "ps_conn s = Some k" "p' = p2" "\<not> st_isPrepared (ps_stmt s)"
    unfolding GetPreparedStatement_sql_def by (auto simp: stmt_new_prepared_def split: option.splits if_splits)
  have "locks p2 = locks p1" using locks_on_synch [OF o] conn_frame_Prepare_sql by blast
  with locks_free [OF f assms(1)] s show ?thesis by auto
qed

subsection \<open>No free connection\<close>

lemma GetFreeConnection_none:
  assumes "length (p_synch p) \<le> 255" and "p_synch p \<noteq> []" and "\<forall>b \<in> set (locks p). b"
  shows "GetFreeConnection p = None"
proof -
  have "c_locked (snd (p_synch p ! k))" if "k < length (p_synch p)" for k
  proof -
    have "locks p ! k" using assms(3) nth_mem [of k "locks p"] that locks_simps(1) by metis
    then show ?thesis using that by simp
  qed
  then have "free_order p = []" using assms(2) by (auto simp: free_order_def filter_empty_conv)
  then show ?thesis using assms(1,2) by (simp add: GetFreeConnection_eq)
qed

lemma GetFreeConnection_empty: "p_synch p = [] \<Longrightarrow> GetFreeConnection p = Some (Crash DivByZero)"
  by (simp add: GetFreeConnection_eq)

lemma bind_run_crash [simp]: "bind_run (Some (Crash k)) f = Some (Crash k)"
  by (simp add: bind_run_def)

subsection \<open>Properties\<close>

text \<open>
  C23. A free synchronous connection is looked for from position 1 on, position 0 last; the first that
  is free is locked and nothing else changes. When all are locked the call spins, and with no
  connection it divides by zero.
\<close>

theorem get_free_connection:
  assumes "length (p_synch p) \<le> 255"
  shows "GetFreeConnection p =
    (if p_synch p = [] then Some (Crash DivByZero)
     else case filter (\<lambda>k. \<not> c_locked (snd (p_synch p ! k))) ([1..<length (p_synch p)] @ [0]) of
       [] \<Rightarrow> None
     | k # ks \<Rightarrow>
         Some (Ret (k, p\<lparr>p_synch := (p_synch p)[k := (fst (p_synch p ! k), snd (p_synch p ! k)\<lparr>c_locked := True\<rparr>)]\<rparr>)))"
  using GetFreeConnection_eq [OF assms] by (simp only: free_order_def lock_at_def set_synch_def)

definition synch_pool :: "bool list \<Rightarrow> pool" where
  "synch_pool bs = pool_empty\<lparr>p_info := Some sample_info, p_synch := map (\<lambda>b. (0, sample_conn\<lparr>c_locked := b\<rparr>)) bs\<rparr>"

theorem get_free_connection_witness:
  "\<exists>p'. GetFreeConnection (synch_pool [False, True, False]) = Some (Ret (2, p')) \<and>
    map (\<lambda>x. c_locked (snd x)) (p_synch p') = [False, True, True]"
proof -
  have "length (p_synch (synch_pool [False, True, False])) \<le> 255" by (simp add: synch_pool_def)
  from get_free_connection [OF this] show ?thesis by (simp add: synch_pool_def upt_rec)
qed

text \<open>
  C15. Every synchronous call that comes back has given its connection back: the locks are as before it,
  whatever happened on the connection. The two calls that do not are the ones for a statement
  prepared from its text, one of which takes a connection and the other returns it.
\<close>

theorem locks_balanced:
  assumes "length (p_synch p) \<le> 255"
  shows "(pool_Query_sql libs sql p = Some (Ret (r1, p')) \<longrightarrow> locks p' = locks p) \<and>
    (DirectExecute_sql libs sql p = Some (Ret p') \<longrightarrow> locks p' = locks p) \<and>
    (DirectExecute_stmt libs s p = Some (Ret p') \<longrightarrow> locks p' = locks p) \<and>
    (DirectCommitTransaction libs t p = Some (Ret (t', p')) \<longrightarrow> locks p' = locks p) \<and>
    (pool_Query_stmt libs s p = Some (Ret (r2, p')) \<longrightarrow>
      (if st_isPrepared (ps_stmt s) then (\<exists>k. ps_conn s = Some k \<and> locks p' = (locks p)[k := False])
       else locks p' = locks p)) \<and>
    (GetPreparedStatement_sql libs sql p = Some (Ret (s', p')) \<longrightarrow>
      (\<exists>k. ps_conn s' = Some k \<and> \<not> locks p ! k \<and> locks p' = (locks p)[k := True]))"
proof (intro conjI impI)
  show "locks p' = locks p" if "pool_Query_sql libs sql p = Some (Ret (r1, p'))"
    by (rule locks_Query_sql [OF assms that])
  show "locks p' = locks p" if "DirectExecute_sql libs sql p = Some (Ret p')"
    by (rule locks_Direct_sql [OF assms that])
  show "locks p' = locks p" if "DirectExecute_stmt libs s p = Some (Ret p')"
    by (rule locks_Direct_stmt [OF assms that])
  show "locks p' = locks p" if "DirectCommitTransaction libs t p = Some (Ret (t', p'))"
    by (rule locks_Direct_commit [OF assms that])
  show "if st_isPrepared (ps_stmt s) then (\<exists>k. ps_conn s = Some k \<and> locks p' = (locks p)[k := False])
       else locks p' = locks p" if "pool_Query_stmt libs s p = Some (Ret (r2, p'))"
    by (rule locks_Query_stmt [OF assms that])
  show "\<exists>k. ps_conn s' = Some k \<and> \<not> locks p ! k \<and> locks p' = (locks p)[k := True]"
    if "GetPreparedStatement_sql libs sql p = Some (Ret (s', p'))"
    using locks_GetPrepared_sql [OF assms that] by blast
qed

lemma synch_pool_simps [simp]:
  "length (p_synch (synch_pool bs)) = length bs" "locks (synch_pool bs) = bs" "p_synch (synch_pool []) = []"
  by (simp_all add: synch_pool_def locks_def comp_def)

lemma synch_pool_one: "GetFreeConnection (synch_pool [False]) = Some (Ret (0, synch_pool [True]))"
  by (simp add: GetFreeConnection_eq free_order_def synch_pool_def lock_at_def set_synch_def)

theorem locks_balanced_witness:
  "\<exists>p'. DirectExecute_sql (\<lambda>_. sample_lib (\<lambda>_ _. Failed ER_DUP_ENTRY) (\<lambda>_ _. Okay)) ''INSERT'' (synch_pool [False]) =
      Some (Ret p') \<and> locks p' = [False]"
proof -
  let ?env = "sample_lib (\<lambda>_ _. Failed ER_DUP_ENTRY) (\<lambda>_ _. Okay)"
  have "Execute_sql ?env ''INSERT'' (sample_conn\<lparr>c_locked := True\<rparr>) = Some (Ret (False,
      conn_call (EvQuery ''INSERT'' (Failed ER_DUP_ENTRY)) (Failed ER_DUP_ENTRY) (sample_conn\<lparr>c_locked := True\<rparr>)))"
    by (rule Execute_sql_gives_up) (simp_all add: sample_conn_facts errno_class_def)
  then obtain p' where run: "DirectExecute_sql (\<lambda>_. ?env) ''INSERT'' (synch_pool [False]) = Some (Ret p')"
    by (simp add: DirectExecute_sql_def synch_pool_one on_synch_def) (use exI [of Not False] in \<open>simp add: synch_pool_def\<close>)
  with locks_balanced [of "synch_pool [False]" "\<lambda>_. ?env" "''INSERT''"] show ?thesis by auto
qed

text \<open>
  C24. A statement prepared from its text keeps its connection. When that was the last free one, every
  synchronous call that looks for a free connection spins: queries and executions of texts,
  transactions, \<open>DirectExecute\<close> of any statement, the prepared one included, \<open>Query\<close> of any statement
  that is not marked as prepared, and preparing another one. What still works is \<open>Query\<close> of the
  statement once the caller has marked it: it runs on the statement's own connection, comes back
  whenever the query there does, and gives the connection back.
\<close>

theorem text_statement_blocks_pool:
  assumes "length (p_synch p) \<le> 255" and "GetPreparedStatement_sql libs sql p = Some (Ret (s, p'))"
    and "\<forall>j < length (p_synch p). locks p ! j \<or> ps_conn s = Some j"
  shows "pool_Query_sql libs sql2 p' = None \<and> (sql2 \<noteq> [] \<longrightarrow> DirectExecute_sql libs sql2 p' = None) \<and>
    DirectCommitTransaction libs t p' = None \<and> GetPreparedStatement_sql libs sql2 p' = None \<and>
    DirectExecute_stmt libs s2 p' = None \<and> (\<not> st_isPrepared (ps_stmt s2) \<longrightarrow> pool_Query_stmt libs s2 p' = None) \<and>
    (st_isPrepared (ps_stmt s2) \<and> ps_conn s2 = ps_conn s \<longrightarrow>
      (\<exists>k. ps_conn s = Some k \<and> k < length (p_synch p) \<and>
        (pool_Query_stmt libs s2 p' = None) =
          (conn_Query_stmt (libs (fst (p_synch p' ! k))) (ps_stmt s2) (snd (p_synch p' ! k)) = None)) \<and>
      (\<forall>r p2. pool_Query_stmt libs s2 p' = Some (Ret (r, p2)) \<longrightarrow> locks p2 = locks p))"
proof -
  from locks_GetPrepared_sql [OF assms(1,2)] obtain k where
    k: "ps_conn s = Some k" "k < length (p_synch p)" "\<not> locks p ! k" "locks p' = (locks p)[k := True]"
      "\<not> st_isPrepared (ps_stmt s)"
    by blast
  have len: "length (p_synch p') = length (p_synch p)" using arg_cong [OF k(4), of length] by simp
  have "b" if b: "b \<in> set (locks p')" for b
  proof -
    from b obtain j where j: "j < length (locks p')" "b = locks p' ! j" by (metis in_set_conv_nth)
    then have "j < length (p_synch p)" using len by simp
    then have "locks p ! j \<or> k = j" using assms(3) k(1) by auto
    with j k(2,4) show b by (auto simp: nth_list_update simp del: locks_simps(3))
  qed
  then have none: "GetFreeConnection p' = None"
    using GetFreeConnection_none [of p'] len assms(1) k(2) by fastforce
  have runs: "(pool_Query_stmt libs s2 p' = None) =
      (conn_Query_stmt (libs (fst (p_synch p' ! k))) (ps_stmt s2) (snd (p_synch p' ! k)) = None)"
    if "st_isPrepared (ps_stmt s2)" "ps_conn s2 = Some k"
    using that k(2) len
    by (auto simp: pool_Query_stmt_def on_synch_def bind_run_def split: option.splits outcome.splits)
  have given: "locks p2 = locks p"
    if "st_isPrepared (ps_stmt s2)" "ps_conn s2 = Some k" "pool_Query_stmt libs s2 p' = Some (Ret (r, p2))" for r p2
  proof -
    have "locks p2 = (locks p')[k := False]"
      using locks_Query_stmt [OF _ that(3)] that(1,2) len assms(1) by auto
    also have "\<dots> = locks p" using k(3,4) by (simp only: list_update_overwrite) (metis (full_types) list_update_id)
    finally show ?thesis .
  qed
  show ?thesis
    using none runs given k(1,2)
    by (simp add: DirectExecute_stmt_def pool_Query_sql_def pool_Query_stmt_def DirectExecute_sql_def
        DirectCommitTransaction_def GetPreparedStatement_sql_def bind_run_None)
qed

text \<open>The only connection, a statement on it, marked as the program's own test does.\<close>

definition marked :: "pool_stmt \<Rightarrow> pool_stmt" where
  "marked s = s\<lparr>ps_stmt := (ps_stmt s)\<lparr>st_isPrepared := True\<rparr>\<rparr>"

definition no_rows_lib :: mysql where
  "no_rows_lib = (sample_lib (\<lambda>_ _. Okay) (\<lambda>_ _. Okay))\<lparr>lib_stmt_result := \<lambda>_.
     (sample_result\<lparr>sr_metadata := None\<rparr>, 0, 0)\<rparr>"

lemma no_rows_query:
  assumes "c_open c" and "st_isPrepared st" and "st_prepared st = Some (my_stmt_new 0 q)" and "statement_data st = []"
  shows "\<exists>r. conn_Query_stmt no_rows_lib st c = Some (Ret r)"
proof -
  let ?m = "my_stmt_new 0 q"
  have "\<exists>m st1 c1. attempt_stmt no_rows_lib st c = Ret (Okay, m, st1, c1)"
    using assms(2-4) by (simp add: attempt_stmt_def resolve_stmt_def BindParameters_def my_stmt_new_def store_stmt_def
        getQueryString_def no_rows_lib_def sample_lib_def Let_def)
  then obtain m st1 c1 where "attempt_stmt no_rows_lib st c = Ret (Okay, m, st1, c1)" by blast
  then have "Query_stmt_loop no_rows_lib st c =
      Some (Ret (Some (lib_stmt_result no_rows_lib (c_events c1)), store_stmt (ClearParameters m) (st1, c1)))"
    using assms(1) by (subst Query_stmt_loop.simps) simp
  then show ?thesis
    by (cases "store_stmt (ClearParameters m) (st1, c1)")
      (simp add: conn_Query_stmt_def no_rows_lib_def PreparedResultSet_new_def)
qed

theorem text_statement_blocks_pool_witness:
  "\<exists>s p' r p2. GetPreparedStatement_sql (\<lambda>_. no_rows_lib) ''UPDATE t'' (synch_pool [False]) = Some (Ret (s, p')) \<and>
    DirectExecute_stmt (\<lambda>_. no_rows_lib) (marked s) p' = None \<and>
    pool_Query_stmt (\<lambda>_. no_rows_lib) (marked s) p' = Some (Ret (r, p2)) \<and> locks p2 = [False]"
proof -
  let ?libs = "\<lambda>_ :: nat. no_rows_lib"
  have "\<exists>c. PrepareStatement_sql no_rows_lib ''UPDATE t'' CONNECTION_SYNCH (sample_conn\<lparr>c_locked := True\<rparr>) =
      Ret (Some (my_stmt_new 0 ''UPDATE t''), c) \<and> c_open c"
    by (simp add: PrepareStatement_sql_def sample_conn_def db_conn_new_def no_rows_lib_def sample_lib_def Let_def
        CONNECTION_SYNCH_def conn_event_def)
  then obtain s p' where run: "GetPreparedStatement_sql ?libs ''UPDATE t'' (synch_pool [False]) = Some (Ret (s, p'))"
    "ps_stmt s = stmt_new_prepared (Some (my_stmt_new 0 ''UPDATE t'')) 0" "c_open (snd (p_synch p' ! 0))"
    "length (p_synch p') = 1"
    by (auto simp: GetPreparedStatement_sql_def synch_pool_one on_synch_def)
      (auto simp: synch_pool_def my_stmt_new_def share_info_def set_synch_def)
  from locks_GetPrepared_sql [OF _ run(1)] have k: "ps_conn s = Some 0" by auto
  have m: "st_isPrepared (ps_stmt (marked s))" "ps_conn (marked s) = Some 0"
    by (simp_all add: marked_def k)
  have "\<exists>r. conn_Query_stmt no_rows_lib (ps_stmt (marked s)) (snd (p_synch p' ! 0)) = Some (Ret r)"
    by (rule no_rows_query [OF run(3)]) (simp_all add: marked_def run(2) stmt_new_prepared_def)
  then obtain r p2 where q: "pool_Query_stmt ?libs (marked s) p' = Some (Ret (r, p2))"
    using m run(4) by (cases "p_synch p'") (auto simp: pool_Query_stmt_def on_synch_def bind_run_def)
  have few: "length (p_synch (synch_pool [False])) \<le> 255" and held: "\<forall>j < length (p_synch (synch_pool [False])).
      locks (synch_pool [False]) ! j \<or> ps_conn s = Some j" by (simp_all add: k)
  note claim = text_statement_blocks_pool [OF few run(1) held, THEN conjunct2, THEN conjunct2, THEN conjunct2, THEN conjunct2]
  have "DirectExecute_stmt ?libs (marked s) p' = None" by (rule claim [THEN conjunct1])
  moreover have "st_isPrepared (ps_stmt (marked s)) \<and> ps_conn (marked s) = ps_conn s" using m k by simp
  note claim [THEN conjunct2, THEN conjunct2, THEN mp, OF this, THEN conjunct2, rule_format, OF q]
  then have "locks p2 = [False]" by simp
  ultimately show ?thesis using run(1) q by auto
qed

end
