(* ===== verification/Pool_Login.thy ===== *)
theory Pool_Login
  imports Pool_Locks
begin

section \<open>The pool of the login database\<close>

text \<open>
  The pool as the logon service uses it: opened and prepared, its statements fit the parameters the
  service sets, and a transaction that is committed directly is atomic.
\<close>

subsection \<open>Preparing fresh connections\<close>

text \<open>A library that counts the parameters of a statement by its question marks.\<close>

definition counts_params :: "mysql \<Rightarrow> bool" where
  "counts_params env \<longleftrightarrow> (\<forall>tr. lib_stmt_init env tr) \<and>
     (\<forall>tr q. lib_prepare env tr q = Some (count_list q (CHR ''?'')))"

definition challenge_sql :: string where
  "challenge_sql = ''SELECT id, username, last_ip, salt, verifier FROM account a WHERE username = ? limit 1''"

definition proof_sql :: string where
  "proof_sql =
     ''UPDATE account SET session_key = ?, last_ip = ?, last_login = NOW(), locale = ?, os = ? WHERE username = ?''"

lemma login_sql_params: "count_list challenge_sql (CHR ''?'') = 1" "count_list proof_sql (CHR ''?'') = 5"
  by (simp_all add: challenge_sql_def proof_sql_def)

lemma login_statements_sql:
  "login_statements = \<lparr>max_statements = 4,
     statement_list = [(2, challenge_sql, CONNECTION_SYNCH), (3, proof_sql, CONNECTION_SYNCH)]\<rparr>"
  by (simp add: login_statements_def challenge_sql_def proof_sql_def MAX_LOGINDATABASE_STATEMENTS_def
      LOGIN_SEL_LOGONCHALLENGE_def LOGIN_UPD_LOGONPROOF_def)

definition login_stmts :: "internal_index \<Rightarrow> my_stmt option list" where
  "login_stmts ty =
     (case ty of
        IDX_ASYNC \<Rightarrow> [None, None, None, None]
      | IDX_SYNCH \<Rightarrow> [None, None, Some (my_stmt_new 1 challenge_sql), Some (my_stmt_new 5 proof_sql)])"

lemma prepare_fresh:
  assumes "fresh_conn ty c" and "counts_params env"
  shows "\<exists>c'. PrepareStatements env (snd (LockIfReady c)) = Ret (True, c') \<and> c_stmts c' = login_stmts ty \<and> c_open c'"
proof (cases ty)
  case IDX_ASYNC
  then show ?thesis
    using assms
    by (simp add: fresh_conn_def PrepareStatements_def DoPrepareStatements_def login_statements_sql PrepareStatement_at_def
        connection_flags_def CONNECTION_ASYNC_def CONNECTION_SYNCH_def LockIfReady_def resize_stmts_def login_stmts_def
        numeral_eq_Suc)
next
  case IDX_SYNCH
  then show ?thesis
    using assms
    by (simp add: fresh_conn_def PrepareStatements_def DoPrepareStatements_def login_statements_sql PrepareStatement_at_def
        connection_flags_def CONNECTION_SYNCH_def LockIfReady_def resize_stmts_def login_stmts_def counts_params_def
        login_sql_params Let_def numeral_eq_Suc)
qed

text \<open>A connection after \<open>PrepareStatements\<close>: open, not locked, with its statements.\<close>

definition prepared_conn :: "internal_index \<Rightarrow> conn \<Rightarrow> bool" where
  "prepared_conn ty c \<longleftrightarrow> c_open c \<and> \<not> c_locked c \<and> c_stmts c = login_stmts ty"

definition known_sizes :: "uint8 list \<Rightarrow> bool" where
  "known_sizes sizes \<longleftrightarrow> sizes \<in> {[], [0, 0, 0, 0], [0, 0, 1, 5]}"

lemma update_sizes_login:
  assumes "known_sizes sizes"
  shows "update_sizes (login_stmts IDX_ASYNC) sizes = Ret (if sizes = [] then [0, 0, 0, 0] else sizes)"
    and "update_sizes (login_stmts IDX_SYNCH) sizes = Ret [0, 0, 1, 5]"
  using assms by (auto simp: known_sizes_def update_sizes_def login_stmts_def my_stmt_new_def numeral_eq_Suc)

lemma prepare_list_fresh:
  assumes "\<forall>x \<in> set xs. fresh_conn ty (snd x) \<and> counts_params (libs (fst x))" and "known_sizes sizes"
  shows "\<exists>ys sizes'. prepare_list libs xs sizes = Ret (True, ys, sizes') \<and> length ys = length xs \<and>
    (\<forall>y \<in> set ys. prepared_conn ty (snd y)) \<and> known_sizes sizes' \<and>
    (ty = IDX_SYNCH \<and> xs \<noteq> [] \<longrightarrow> sizes' = [0, 0, 1, 5]) \<and>
    (ty = IDX_ASYNC \<longrightarrow> sizes' = (if xs = [] \<or> sizes \<noteq> [] then sizes else [0, 0, 0, 0])) \<and> (xs = [] \<longrightarrow> sizes' = sizes)"
  using assms
proof (induction xs arbitrary: sizes)
  case (Cons x xs)
  from prepare_fresh [of ty "snd x" "libs (fst x)"] Cons.prems(1) obtain c where
    c: "PrepareStatements (libs (fst x)) (snd (LockIfReady (snd x))) = Ret (True, c)" "c_stmts c = login_stmts ty" "c_open c"
    by auto
  obtain sizes1 where s1: "update_sizes (login_stmts ty) sizes = Ret sizes1" "known_sizes sizes1"
    "ty = IDX_SYNCH \<longrightarrow> sizes1 = [0, 0, 1, 5]" "ty = IDX_ASYNC \<longrightarrow> sizes1 = (if sizes = [] then [0, 0, 0, 0] else sizes)"
    using update_sizes_login [OF Cons.prems(2)] Cons.prems(2) by (cases ty) (auto simp: known_sizes_def)
  from Cons.IH [OF _ s1(2)] Cons.prems(1) obtain ys sizes2 where
    "prepare_list libs xs sizes1 = Ret (True, ys, sizes2)" "length ys = length xs"
    "\<forall>y \<in> set ys. prepared_conn ty (snd y)" "known_sizes sizes2" "ty = IDX_SYNCH \<and> xs \<noteq> [] \<longrightarrow> sizes2 = [0, 0, 1, 5]"
    "ty = IDX_ASYNC \<longrightarrow> sizes2 = (if xs = [] \<or> sizes1 \<noteq> [] then sizes1 else [0, 0, 0, 0])" "xs = [] \<longrightarrow> sizes2 = sizes1"
    by auto
  with c s1 show ?case
    by (intro exI [of _ "(fst x, Unlock c) # ys"] exI [of _ sizes2])
      (cases "xs = []", auto simp: prepared_conn_def Unlock_def)
qed simp

lemma PrepareStatements_fresh:
  assumes "all_fresh p" and "\<forall>k. counts_params (libs k)" and "p_preparedSize p = []"
  shows "\<exists>p'. pool_PrepareStatements libs p = Ret (True, p') \<and> (p_synch p \<noteq> [] \<longrightarrow> p_preparedSize p' = [0, 0, 1, 5]) \<and>
    (p_synch p = [] \<and> p_async p \<noteq> [] \<longrightarrow> p_preparedSize p' = [0, 0, 0, 0]) \<and>
    (\<forall>x \<in> set (p_async p'). prepared_conn IDX_ASYNC (snd x)) \<and> (\<forall>x \<in> set (p_synch p'). prepared_conn IDX_SYNCH (snd x)) \<and>
    length (p_async p') = length (p_async p) \<and> length (p_synch p') = length (p_synch p)"
proof -
  have fresh: "\<forall>x \<in> set (p_async p). fresh_conn IDX_ASYNC (snd x)" "\<forall>x \<in> set (p_synch p). fresh_conn IDX_SYNCH (snd x)"
    using assms(1) by (auto simp: all_fresh_def conns_of_def split: internal_index.splits)
  from prepare_list_fresh [of "p_async p" IDX_ASYNC libs "[]"] fresh(1) assms(2) obtain as sizes1 where
    as: "prepare_list libs (p_async p) [] = Ret (True, as, sizes1)" "length as = length (p_async p)"
      "\<forall>y \<in> set as. prepared_conn IDX_ASYNC (snd y)" "known_sizes sizes1"
      "sizes1 = (if p_async p = [] then [] else [0, 0, 0, 0])"
    by (auto simp: known_sizes_def)
  from prepare_list_fresh [OF _ as(4), of "p_synch p" IDX_SYNCH libs] fresh(2) assms(2) obtain ss sizes2 where
    "prepare_list libs (p_synch p) sizes1 = Ret (True, ss, sizes2)" "length ss = length (p_synch p)"
      "p_synch p \<noteq> [] \<longrightarrow> sizes2 = [0, 0, 1, 5]" "p_synch p = [] \<longrightarrow> sizes2 = sizes1"
      "\<forall>y \<in> set ss. prepared_conn IDX_SYNCH (snd y)"
    by auto
  with as assms(3) show ?thesis by (simp add: pool_PrepareStatements_def)
qed

text \<open>A statement of the pool with as many arguments as it has parameters.\<close>

lemma login_statement_ready:
  assumes "p_preparedSize p = [0, 0, 1, 5]" and "prepared_conn IDX_SYNCH c"
    and "index = LOGIN_SEL_LOGONCHALLENGE \<and> length args = 1 \<or> index = LOGIN_UPD_LOGONPROOF \<and> length args = 5"
  shows "\<exists>s st. pool_GetPreparedStatement index p = Ret s \<and> SetArguments args (ps_stmt s) = Ret st \<and> stmt_ready st c"
proof -
  define n :: uint8 where "n = p_preparedSize p ! index"
  have index: "index < 4" "unat n = length args"
    using assms(1,3) by (auto simp: n_def LOGIN_SEL_LOGONCHALLENGE_def LOGIN_UPD_LOGONPROOF_def)
  let ?st = "stmt_new index n"
  have get: "pool_GetPreparedStatement index p = Ret \<lparr>ps_stmt = ?st, ps_conn = None\<rparr>"
    using index(1) assms(1) by (simp add: pool_GetPreparedStatement_def n_def)
  have len: "length (statement_data ?st) = length args" using index(2) by (simp add: stmt_new_def)
  have small: "length args < 256" using assms(3) by auto
  have set: "SetArguments args ?st = Ret (?st\<lparr>statement_data := args\<rparr>)"
    using set_data_from_eq [of 0 args ?st] small len by (simp add: SetArguments_def)
  have "shape_of (?st\<lparr>statement_data := args\<rparr>) c =
      Some (length args, if index = LOGIN_SEL_LOGONCHALLENGE then challenge_sql else proof_sql, True)"
    using assms(2,3) by (auto simp: shape_of_def stmt_new_def prepared_conn_def login_stmts_def shape_def my_stmt_new_def
        my_stmt_ok_def LOGIN_SEL_LOGONCHALLENGE_def LOGIN_UPD_LOGONPROOF_def)
  then have "stmt_ready (?st\<lparr>statement_data := args\<rparr>) c"
    using assms(3) small by (auto simp: stmt_ready_def login_sql_params LOGIN_SEL_LOGONCHALLENGE_def LOGIN_UPD_LOGONPROOF_def)
  with get set show ?thesis by simp
qed

subsection \<open>Committing directly\<close>

definition conn_at :: "nat \<Rightarrow> pool \<Rightarrow> conn" where
  "conn_at k p = snd (p_synch p ! k)"

definition lib_at :: "libs \<Rightarrow> nat \<Rightarrow> pool \<Rightarrow> mysql" where
  "lib_at libs k p = libs (fst (p_synch p ! k))"

text \<open>What a run on the connection at \<open>k\<close> leaves: an atomic transaction, and the same view of the elements.\<close>

definition tx_done :: "libs \<Rightarrow> nat \<Rightarrow> transaction \<Rightarrow> bool \<Rightarrow> pool \<Rightarrow> pool \<Rightarrow> bool" where
  "tx_done libs k t ok p p' \<longleftrightarrow>
     k < length (p_synch p') \<and> lib_at libs k p' = lib_at libs k p \<and> idle (lib_at libs k p) (conn_at k p') \<and>
     same_view (conn_at k p) (conn_at k p') \<and>
     (\<exists>effs. conn_server (conn_at k p') = atomic ok effs (conn_server (conn_at k p)) \<and>
       map fst effs = tx_texts t (conn_at k p))"

lemma tx_done_refl:
  assumes "k < length (p_synch p)" and "idle (lib_at libs k p) (conn_at k p)"
  shows "tx_done libs k t False p p"
  using assms
  by (auto simp: tx_done_def same_view_def atomic_def comp_def intro!: exI [of _ "map (\<lambda>q. (q, [])) (tx_texts t (conn_at k p))"])

lemma tx_done_then:
  assumes "tx_done libs k t False p p1" and "tx_done libs k t ok p1 p2"
  shows "tx_done libs k t ok p p2"
  using assms same_view_ready [of "conn_at k p" "conn_at k p1" t]
  by (auto simp: tx_done_def atomic_def [of False] intro: same_view_trans)

lemma on_synch_transaction:
  assumes "k < length (p_synch p)" and "idle (lib_at libs k p) (conn_at k p)" and "tx_ready t (conn_at k p)"
  shows "\<exists>code p'. on_synch libs k (\<lambda>env. ExecuteTransaction env (tx_queries t)) p = Some (Ret (code, p')) \<and>
    tx_done libs k t (code = Code NoErrno) p p'"
proof -
  from TryExecute_steady [OF assms(2,3)] obtain code c' effs where
    c': "ExecuteTransaction (lib_at libs k p) (tx_queries t) (conn_at k p) = Some (Ret (code, c'))"
      "idle (lib_at libs k p) c'" "same_view (conn_at k p) c'"
      "conn_server c' = atomic (code = Code NoErrno) effs (conn_server (conn_at k p))"
      "map fst effs = tx_texts t (conn_at k p)"
    unfolding TryExecute_def by blast
  let ?p = "share_info (c_info c') (set_synch k c' p)"
  have "on_synch libs k (\<lambda>env. ExecuteTransaction env (tx_queries t)) p = Some (Ret (code, ?p))"
    using assms(1) c'(1) by (simp add: on_synch_def lib_at_def conn_at_def)
  moreover have "conn_at k ?p = c'" "lib_at libs k ?p = lib_at libs k p"
    using assms(1) by (simp_all add: conn_at_def lib_at_def share_info_def set_synch_def)
  ultimately show ?thesis using c' assms(1)
    by (intro exI [of _ code] exI [of _ ?p]) (auto simp: tx_done_def)
qed

lemma direct_retry_transaction:
  assumes "k < length (p_synch p)" and "idle (lib_at libs k p) (conn_at k p)" and "tx_ready t (conn_at k p)"
  shows "\<exists>ok p'. direct_retry n libs k (tx_queries t) p = Some (Ret p') \<and> tx_done libs k t ok p p'"
  using assms
proof (induction n arbitrary: p)
  case 0
  then show ?case using tx_done_refl [of k p libs t] by auto
next
  case (Suc n)
  from on_synch_transaction [OF Suc.prems] obtain code p1 where
    o: "on_synch libs k (\<lambda>env. ExecuteTransaction env (tx_queries t)) p = Some (Ret (code, p1))"
    and d: "tx_done libs k t (code = Code NoErrno) p p1"
    by blast
  show ?case
  proof (cases "code = Code NoErrno")
    case True
    with o d show ?thesis by (auto simp: bind_run_def)
  next
    case False
    have "tx_ready t (conn_at k p1)" using d Suc.prems(3) same_view_ready by (auto simp: tx_done_def)
    moreover have "k < length (p_synch p1)" "idle (lib_at libs k p1) (conn_at k p1)" using d by (auto simp: tx_done_def)
    ultimately obtain ok p2 where
      "direct_retry n libs k (tx_queries t) p1 = Some (Ret p2)" "tx_done libs k t ok p1 p2"
      using Suc.IH by blast
    with o d False tx_done_then [of libs k t p p1 ok p2] show ?thesis by (auto simp: bind_run_def)
  qed
qed

lemma conn_at_lock:
  assumes "k < length (p_synch p)"
  shows "conn_at k (lock_at k p) = (conn_at k p)\<lparr>c_locked := True\<rparr>"
    and "conn_at k (pool_Unlock k p) = (conn_at k p)\<lparr>c_locked := False\<rparr>"
    and "lib_at libs k (lock_at k p) = lib_at libs k p"
  using assms by (simp_all add: conn_at_def lib_at_def lock_at_def pool_Unlock_def set_synch_def Unlock_def)

lemma conn_views_locked [simp]:
  "conn_server (c\<lparr>c_locked := b\<rparr>) = conn_server c" "idle env (c\<lparr>c_locked := b\<rparr>) = idle env c"
  "element_ready d (c\<lparr>c_locked := b\<rparr>) = element_ready d c" "element_text d (c\<lparr>c_locked := b\<rparr>) = element_text d c"
  "tx_ready t (c\<lparr>c_locked := b\<rparr>) = tx_ready t c" "tx_texts t (c\<lparr>c_locked := b\<rparr>) = tx_texts t c"
proof -
  have s: "stmt_shapes (c\<lparr>c_locked := b\<rparr>) = stmt_shapes c" by (simp add: stmt_shapes_def)
  show "conn_server (c\<lparr>c_locked := b\<rparr>) = conn_server c" by (simp add: conn_server_def)
  then show "idle env (c\<lparr>c_locked := b\<rparr>) = idle env c" by (simp add: idle_def)
  show r: "element_ready d (c\<lparr>c_locked := b\<rparr>) = element_ready d c" "element_text d (c\<lparr>c_locked := b\<rparr>) = element_text d c" for d
    using element_cong [OF s, of d] by simp_all
  show "tx_ready t (c\<lparr>c_locked := b\<rparr>) = tx_ready t c" "tx_texts t (c\<lparr>c_locked := b\<rparr>) = tx_texts t c"
    by (simp_all add: tx_ready_def tx_texts_def r)
qed

subsection \<open>Properties\<close>

text \<open>
  C12. \<open>DirectCommitTransaction\<close> is atomic: on the connection it takes, the first free one, either
  all elements of the transaction are committed once, in order, or none is, whatever the five
  retries after a deadlock; the transaction is cleaned up unless the first attempt succeeded, and
  the connection is given back. That a retry succeeded cannot be told from its result.
\<close>

theorem direct_commit_atomic:
  assumes "length (p_synch p) \<le> 255" and "p_synch p \<noteq> []" and "free_order p = k # ks"
    and "idle (lib_at libs k p) (conn_at k p)" and "tx_ready t (conn_at k p)"
  shows "\<exists>t' p' ok effs. DirectCommitTransaction libs t p = Some (Ret (t', p')) \<and>
    conn_server (conn_at k p') = atomic ok effs (conn_server (conn_at k p)) \<and>
    map fst effs = tx_texts t (conn_at k p) \<and> (t' = t \<and> ok \<or> t' = tx_cleaned t) \<and> locks p' = locks p"
proof -
  have get: "GetFreeConnection p = Some (Ret (k, lock_at k p))"
    using GetFreeConnection_eq [OF assms(1)] assms(2,3) by simp
  then have k: "k < length (p_synch p)" using locks_free [OF _ assms(1)] by blast
  note at = conn_at_lock [OF k]
  have k1: "k < length (p_synch (lock_at k p))" using k by (simp add: lock_at_def)
  have "idle (lib_at libs k (lock_at k p)) (conn_at k (lock_at k p))" "tx_ready t (conn_at k (lock_at k p))"
    using assms(4,5) at by simp_all
  from on_synch_transaction [OF k1 this] obtain code p1 where
    o: "on_synch libs k (\<lambda>env. ExecuteTransaction env (tx_queries t)) (lock_at k p) = Some (Ret (code, p1))"
    and d: "tx_done libs k t (code = Code NoErrno) (lock_at k p) p1"
    by blast
  note clean = Cleanup_ready [OF assms(5)]
  have "\<exists>t' p2 ok. DirectCommitTransaction libs t p = Some (Ret (t', pool_Unlock k p2)) \<and>
      tx_done libs k t ok (lock_at k p) p2 \<and> (t' = t \<and> ok \<or> t' = tx_cleaned t)"
  proof (cases "code = Code ER_LOCK_DEADLOCK")
    case True
    have "tx_ready t (conn_at k p1)" using d assms(5) at same_view_ready by (auto simp: tx_done_def)
    moreover have "k < length (p_synch p1)" "idle (lib_at libs k p1) (conn_at k p1)" using d by (auto simp: tx_done_def)
    ultimately obtain ok p2 where
      "direct_retry 5 libs k (tx_queries t) p1 = Some (Ret p2)" "tx_done libs k t ok p1 p2"
      using direct_retry_transaction by blast
    with True get o d clean tx_done_then [of libs k t "lock_at k p" p1 ok p2] show ?thesis
      by (auto simp: DirectCommitTransaction_def bind_run_def)
  next
    case False
    then have "DirectCommitTransaction libs t p =
        Some (Ret (if code = Code NoErrno then t else tx_cleaned t, pool_Unlock k p1))"
      using get o clean by (simp add: DirectCommitTransaction_def bind_run_def)
    with d show ?thesis by (intro exI [of _ "if code = Code NoErrno then t else tx_cleaned t"] exI [of _ p1]
        exI [of _ "code = Code NoErrno"]) simp
  qed
  then obtain t' p2 ok where r: "DirectCommitTransaction libs t p = Some (Ret (t', pool_Unlock k p2))"
    and d2: "tx_done libs k t ok (lock_at k p) p2" and t': "t' = t \<and> ok \<or> t' = tx_cleaned t"
    by blast
  have "conn_at k (pool_Unlock k p2) = (conn_at k p2)\<lparr>c_locked := False\<rparr>"
    using d2 conn_at_lock(2) by (simp add: tx_done_def)
  with d2 at r t' locks_Direct_commit [OF assms(1) r] show ?thesis
    by (auto simp: tx_done_def)
qed

theorem direct_commit_atomic_witness:
  "\<exists>t' p'. DirectCommitTransaction (\<lambda>_. sample_lib deadlock_twice (\<lambda>_ _. Okay)) (tx_Append ''b'' tx_new) (synch_pool [False]) =
      Some (Ret (t', p')) \<and> locks p' = [False] \<and>
    map fst (sv_committed (conn_server (conn_at 0 p'))) \<in> {[], [''b'']}"
proof -
  let ?libs = "\<lambda>_ :: nat. sample_lib deadlock_twice (\<lambda>_ _. Okay)"
  let ?p = "synch_pool [False]"
  have at: "conn_at 0 ?p = sample_conn\<lparr>c_locked := False\<rparr>" "lib_at ?libs 0 ?p = sample_lib deadlock_twice (\<lambda>_ _. Okay)"
    by (simp_all add: conn_at_def synch_pool_def lib_at_def)
  have "steady (sample_lib deadlock_twice (\<lambda>_ _. Okay))"
    by (auto simp: sample_lib_def steady_def steady_reply_def errno_class_def is_control_def deadlock_twice_def)
  then have idle: "idle (lib_at ?libs 0 ?p) (conn_at 0 ?p)"
    unfolding at conn_views_locked by (simp add: idle_def sample_conn_facts server_empty_def)
  have ready: "tx_ready (tx_Append ''b'' tx_new) (conn_at 0 ?p)" "tx_texts (tx_Append ''b'' tx_new) (conn_at 0 ?p) = [''b'']"
    by (simp_all add: at tx_ready_def tx_Append_def tx_new_def element_ready_def tx_texts_def element_text_def is_control_def stmt_ptr_def)
  have "length (p_synch ?p) \<le> 255" "p_synch ?p \<noteq> []" "free_order ?p = 0 # []"
    by (simp_all add: synch_pool_def free_order_def)
  from direct_commit_atomic [OF this idle ready(1)] obtain t' p' ok effs where
    r: "DirectCommitTransaction ?libs (tx_Append ''b'' tx_new) ?p = Some (Ret (t', p'))" "locks p' = locks ?p"
      "conn_server (conn_at 0 p') = atomic ok effs (conn_server (conn_at 0 ?p))"
      "map fst effs = tx_texts (tx_Append ''b'' tx_new) (conn_at 0 ?p)"
    by blast
  then have "map fst (sv_committed (conn_server (conn_at 0 p'))) \<in> {[], [''b'']}"
    using ready(2) by (simp only: at conn_views_locked) (simp add: sample_conn_facts server_empty_def atomic_def)
  with r(1,2) show ?thesis by (intro exI [of _ t'] exI [of _ p']) simp
qed

lemma open_loop_sizes: "open_loop libs ty n p = Ret (e, p') \<Longrightarrow> p_preparedSize p' = p_preparedSize p"
proof (induction n arbitrary: p)
  case (Suc n)
  have keeps: "p_preparedSize (drop_connections ty' m q) = p_preparedSize q" for ty' m q
    by (simp add: drop_connections_def cancel_queue_def pcq_Cancel_def)
  have keeps2: "p_preparedSize (set_connections ty' cs q) = p_preparedSize q" for ty' cs q
    by (simp add: set_connections_def split: internal_index.splits)
  from Suc.prems show ?case
    by (cases rule: open_loop_SucE) (auto simp: keeps keeps2 clear_connections_def dest!: Suc.IH)
qed simp

lemma pool_Open_sizes: "pool_Open libs p = Ret (e, p') \<Longrightarrow> p_preparedSize p' = p_preparedSize p"
  by (auto simp: pool_Open_def OpenConnections_def split: if_splits dest!: open_loop_sizes)

text \<open>A pool from its parameters to its prepared statements, when every server lets it in.\<close>

lemma open_prepare_fresh:
  assumes "\<forall>k. lets_in (libs k) \<and> counts_params (libs k)" and "tcp_info info"
    and "p = pool_empty\<lparr>p_info := Some info, p_async_threads := asyncs, p_synch_threads := synchs\<rparr>"
  shows "\<exists>p1 p2. pool_Open libs p = Ret (NoErrno, p1) \<and> pool_PrepareStatements libs p1 = Ret (True, p2) \<and>
    length (p_async p2) = unat asyncs \<and> length (p_synch p2) = unat synchs \<and>
    (synchs \<noteq> 0 \<longrightarrow> p_preparedSize p2 = [0, 0, 1, 5]) \<and>
    (synchs = 0 \<and> asyncs \<noteq> 0 \<longrightarrow> p_preparedSize p2 = [0, 0, 0, 0]) \<and>
    (\<forall>x \<in> set (p_synch p2). prepared_conn IDX_SYNCH (snd x))"
proof -
  have p: "p_info p = Some info" "\<forall>k \<ge> p_created p. lets_in (libs k)" "all_fresh p"
    using assms(1,3) by (simp_all add: all_fresh_def conns_of_def pool_empty_def split: internal_index.splits)
  from pool_Open_accepts [OF p(2,1) assms(2)] p(3) obtain p1 where
    o: "pool_Open libs p = Ret (NoErrno, p1)" "all_fresh p1" by blast
  have len: "length (p_async p1) = unat asyncs" "length (p_synch p1) = unat synchs"
    using pool_Open_effect [OF o(1)] assms(3) by (simp_all add: pool_empty_def)
  then have ne: "p_synch p1 = [] \<longleftrightarrow> synchs = 0" "p_async p1 = [] \<longleftrightarrow> asyncs = 0"
    by (metis length_0_conv unat_eq_0)+
  have "p_preparedSize p1 = []" using pool_Open_sizes [OF o(1)] assms(3) by (simp add: pool_empty_def)
  from PrepareStatements_fresh [OF o(2) _ this, of libs] assms(1) obtain p2 where
    "pool_PrepareStatements libs p1 = Ret (True, p2)" "p_synch p1 \<noteq> [] \<longrightarrow> p_preparedSize p2 = [0, 0, 1, 5]"
      "p_synch p1 = [] \<and> p_async p1 \<noteq> [] \<longrightarrow> p_preparedSize p2 = [0, 0, 0, 0]"
      "\<forall>x \<in> set (p_synch p2). prepared_conn IDX_SYNCH (snd x)"
      "length (p_async p2) = length (p_async p1)" "length (p_synch p2) = length (p_synch p1)"
    by blast
  with o(1) len ne show ?thesis by (intro exI [of _ p1] exI [of _ p2]) simp
qed

lemma login_statement_attempt:
  assumes "p_preparedSize p = [0, 0, 1, 5]" and "prepared_conn IDX_SYNCH c"
    and "index = LOGIN_SEL_LOGONCHALLENGE \<and> length args = 1 \<or> index = LOGIN_UPD_LOGONPROOF \<and> length args = 5"
  shows "\<exists>s st r. pool_GetPreparedStatement index p = Ret s \<and> SetArguments args (ps_stmt s) = Ret st \<and>
    attempt_stmt env st c = Ret r"
proof -
  from login_statement_ready [OF assms] obtain s st where
    s: "pool_GetPreparedStatement index p = Ret s" "SetArguments args (ps_stmt s) = Ret st" "stmt_ready st c"
    by blast
  with attempt_stmt_ready [OF s(3), of env] show ?thesis by blast
qed

text \<open>
  C10. The login database is ready for the logon service: against servers that let the program in, opening
  and preparing a pool with at least one synchronous connection succeeds, and then each of the two
  statements of the service, with the arguments it sets, can be executed on every synchronous
  connection without a failed assertion.
\<close>

theorem login_pool_serves:
  assumes "\<forall>k. lets_in (libs k) \<and> counts_params (libs k)" and "tcp_info info" and "synchs \<noteq> 0"
    and "p = pool_empty\<lparr>p_info := Some info, p_async_threads := asyncs, p_synch_threads := synchs\<rparr>"
  shows "\<exists>p1 p2. pool_Open libs p = Ret (NoErrno, p1) \<and> pool_PrepareStatements libs p1 = Ret (True, p2) \<and>
    length (p_async p2) = unat asyncs \<and> length (p_synch p2) = unat synchs \<and>
    (\<forall>x \<in> set (p_synch p2). \<forall>index args.
      index = LOGIN_SEL_LOGONCHALLENGE \<and> length args = 1 \<or> index = LOGIN_UPD_LOGONPROOF \<and> length args = 5 \<longrightarrow>
      (\<exists>s st r. pool_GetPreparedStatement index p2 = Ret s \<and> SetArguments args (ps_stmt s) = Ret st \<and>
        attempt_stmt (libs (fst x)) st (snd x) = Ret r))"
proof -
  from open_prepare_fresh [OF assms(1,2,4)] obtain p1 p2 where
    o: "pool_Open libs p = Ret (NoErrno, p1)" "pool_PrepareStatements libs p1 = Ret (True, p2)"
      "length (p_async p2) = unat asyncs" "length (p_synch p2) = unat synchs" "p_preparedSize p2 = [0, 0, 1, 5]"
      "\<forall>x \<in> set (p_synch p2). prepared_conn IDX_SYNCH (snd x)"
    using assms(3) by blast
  show ?thesis
    by (rule exI [of _ p1], rule exI [of _ p2], intro conjI o(1-4) ballI allI impI)
      (rule login_statement_attempt [OF o(5) o(6) [rule_format]])
qed

definition counting_lib :: mysql where
  "counting_lib = (sample_lib (\<lambda>_ _. Okay) (\<lambda>_ _. Okay))\<lparr>lib_prepare := \<lambda>_ q. Some (count_list q (CHR ''?''))\<rparr>"

lemma counting_lib_facts: "lets_in counting_lib" "counts_params counting_lib"
proof -
  show "lets_in counting_lib" using sample_lib_lets_in [of "\<lambda>_ _. Okay"] by (simp add: counting_lib_def lets_in_def)
  show "counts_params counting_lib" by (simp add: counting_lib_def counts_params_def sample_lib_def)
qed

theorem login_pool_serves_witness:
  "\<exists>p1 p2. pool_Open (\<lambda>_. counting_lib) (sample_pool 2 3) = Ret (NoErrno, p1) \<and>
    pool_PrepareStatements (\<lambda>_. counting_lib) p1 = Ret (True, p2) \<and>
    length (p_async p2) = 2 \<and> length (p_synch p2) = 3 \<and>
    (\<forall>x \<in> set (p_synch p2). \<exists>s st r. pool_GetPreparedStatement LOGIN_SEL_LOGONCHALLENGE p2 = Ret s \<and>
      SetArguments [PString ''NAME''] (ps_stmt s) = Ret st \<and> attempt_stmt counting_lib st (snd x) = Ret r)"
proof -
  have l: "\<forall>k :: nat. lets_in counting_lib \<and> counts_params counting_lib" by (simp add: counting_lib_facts)
  have s: "(3 :: uint8) \<noteq> 0" by simp
  from login_pool_serves [OF l sample_info_tcp s sample_pool_def] obtain p1 p2 where
    r: "pool_Open (\<lambda>_. counting_lib) (sample_pool 2 3) = Ret (NoErrno, p1)"
      "pool_PrepareStatements (\<lambda>_. counting_lib) p1 = Ret (True, p2)"
      "length (p_async p2) = unat (2 :: uint8)" "length (p_synch p2) = unat (3 :: uint8)"
    and q: "\<forall>x \<in> set (p_synch p2). \<forall>index args.
      index = LOGIN_SEL_LOGONCHALLENGE \<and> length args = 1 \<or> index = LOGIN_UPD_LOGONPROOF \<and> length args = 5 \<longrightarrow>
      (\<exists>s st r. pool_GetPreparedStatement index p2 = Ret s \<and> SetArguments args (ps_stmt s) = Ret st \<and>
        attempt_stmt counting_lib st (snd x) = Ret r)"
    by blast
  have "\<exists>s st r. pool_GetPreparedStatement LOGIN_SEL_LOGONCHALLENGE p2 = Ret s \<and>
      SetArguments [PString ''NAME''] (ps_stmt s) = Ret st \<and> attempt_stmt counting_lib st (snd x) = Ret r"
    if "x \<in> set (p_synch p2)" for x
    by (rule q [rule_format, OF that]) simp
  with r show ?thesis by (intro exI [of _ p1] exI [of _ p2]) simp
qed

end
