(* ===== verification/Login_Db.thy ===== *)
theory Login_Db
  imports Logon Pool_Login
begin

section \<open>The logon service on its database (NetWork.cpp with DatabaseWorkerPool.cpp)\<close>

text \<open>
  The two database calls of the logon handler, made through the pool: the query for the account and
  the update after a successful proof. The handler of Logon asks an account table and records the
  update; here the same handler is run on a pool, and shown to do what it does on the table.
\<close>

subsection \<open>The query\<close>

definition field_at :: "field list \<Rightarrow> nat \<Rightarrow> field outcome" where
  "field_at flds i = (if i < length flds then Ret (flds ! i) else Crash OutOfBounds)"

text \<open>
  Reading the row. The number and the texts of the other columns are only printed; the two binary
  columns are read once more with their length checked, which the handler does with the values
  given here.
\<close>

definition read_account :: "'f float_lib \<Rightarrow> prepared_set \<Rightarrow> account_row outcome option" where
  "read_account L result =
     bind_run (Some (ps_Fetch result)) (\<lambda>flds.
     bind_run (Some (field_at flds 0)) (\<lambda>f0.
     bind_run (GetData L f0 (TInt ty_uint32)) (\<lambda>id.
     Some (
       bind_outcome (field_at flds 1) (\<lambda>f1. bind_outcome (GetDataString f1) (\<lambda>userName.
       bind_outcome (field_at flds 2) (\<lambda>f2. bind_outcome (GetDataString f2) (\<lambda>last_ip.
       bind_outcome (field_at flds 3) (\<lambda>f3. bind_outcome (GetDataString f3) (\<lambda>salt.
       bind_outcome (field_at flds 4) (\<lambda>f4. bind_outcome (GetDataString f4) (\<lambda>verifier.
       bind_outcome (GetDataBinary f3) (\<lambda>s. bind_outcome (GetDataBinary f4) (\<lambda>v.
         Ret \<lparr>row_username = userName, row_last_ip = last_ip, row_salt = s, row_verifier = v\<rparr>))))))))))))))"

definition select_account_db ::
  "'f float_lib \<Rightarrow> libs \<Rightarrow> string \<Rightarrow> pool \<Rightarrow> (account_row option \<times> pool) outcome option" where
  "select_account_db L libs login p =
     bind_run (Some (pool_GetPreparedStatement LOGIN_SEL_LOGONCHALLENGE p)) (\<lambda>stmt.
     bind_run (Some (SetValidData 0 (PString login) (ps_stmt stmt))) (\<lambda>st.
     bind_run (pool_Query_stmt libs (stmt\<lparr>ps_stmt := st\<rparr>) p) (\<lambda>(result, p).
       case result of
         None \<Rightarrow> Some (Ret (None, p))
       | Some rs \<Rightarrow> bind_run (read_account L rs) (\<lambda>row. Some (Ret (Some row, p))))))"

subsection \<open>The update\<close>

definition update_params :: "event \<Rightarrow> param list" where
  "update_params e =
     (case e of
        DbUpdate key ip locale os user \<Rightarrow> [PBinary key, PString ip, PString locale, PString os, PString user]
      | _ \<Rightarrow> [])"

definition update_account_db :: "libs \<Rightarrow> event \<Rightarrow> pool \<Rightarrow> pool outcome option" where
  "update_account_db libs e p =
     bind_run (Some (pool_GetPreparedStatement LOGIN_UPD_LOGONPROOF p)) (\<lambda>stmt.
     bind_run (Some (set_data_from 0 (update_params e) (ps_stmt stmt))) (\<lambda>st.
       DirectExecute_stmt libs (stmt\<lparr>ps_stmt := st\<rparr>) p))"

subsection \<open>The handler\<close>

text \<open>The name a packet asks the database for, when it gets that far.\<close>

definition challenge_login :: "tcp_conn \<Rightarrow> read_result \<Rightarrow> string option" where
  "challenge_login c r =
     (case r of
        ReadError \<Rightarrow> None
      | ReadOk bs \<Rightarrow>
          let b = buff (received c bs); ch = read_challenge_c b in
          if b ! 0 = cmd_code AUTH_LOGON_CHALLENGE \<and> size_matches ch
          then Some (chars (take (unat (cc_I_len ch)) (cc_I ch))) else None)"

definition account_updates :: "tcp_conn \<Rightarrow> tcp_conn \<Rightarrow> event list" where
  "account_updates c c' = filter is_update (drop (length (events c)) (events c'))"

text \<open>
  The handler with any \<open>select\<close> and \<open>update\<close> on a state of any type. What the handler does after the
  update, computing and sending the answer, does not look at the database, so the update is made after
  it here.
\<close>

primrec updates_with :: "(event \<Rightarrow> 'p \<Rightarrow> 'p outcome option) \<Rightarrow> event list \<Rightarrow> 'p \<Rightarrow> 'p outcome option" where
  "updates_with update [] p = Some (Ret p)"
| "updates_with update (e # es) p = bind_run (update e p) (updates_with update es)"

definition handle_with ::
  "(string \<Rightarrow> 'p \<Rightarrow> (account_row option \<times> 'p) outcome option) \<Rightarrow> (event \<Rightarrow> 'p \<Rightarrow> 'p outcome option) \<Rightarrow>
    logon_env \<Rightarrow> tcp_conn \<Rightarrow> read_result \<Rightarrow> 'p \<Rightarrow> (tcp_conn \<times> 'p) outcome option" where
  "handle_with select update env c r p =
     bind_run
       (case challenge_login c r of
          None \<Rightarrow> Some (Ret (None, p))
        | Some login \<Rightarrow> select login p)
       (\<lambda>(row, p).
          bind_run (Some (handle_read (env\<lparr>select_account := \<lambda>_. row\<rparr>) c r)) (\<lambda>c'.
          bind_run (updates_with update (account_updates c c') p) (\<lambda>p. Some (Ret (c', p)))))"

primrec run_with ::
  "(string \<Rightarrow> 'p \<Rightarrow> (account_row option \<times> 'p) outcome option) \<Rightarrow> (event \<Rightarrow> 'p \<Rightarrow> 'p outcome option) \<Rightarrow>
    (logon_env \<times> read_result) list \<Rightarrow> tcp_conn \<Rightarrow> 'p \<Rightarrow> (tcp_conn \<times> 'p) outcome option" where
  "run_with select update [] c p = Some (Ret (c, p))"
| "run_with select update (r # rs) c p =
     bind_run (handle_with select update (fst r) c (snd r) p) (\<lambda>(c, p). run_with select update rs c p)"

text \<open>A completed read on the pool, and the reads of a connection in order.\<close>

definition handle_read_db ::
  "'f float_lib \<Rightarrow> libs \<Rightarrow> logon_env \<Rightarrow> tcp_conn \<Rightarrow> read_result \<Rightarrow> pool \<Rightarrow> (tcp_conn \<times> pool) outcome option" where
  "handle_read_db L libs = handle_with (select_account_db L libs) (update_account_db libs)"

definition conn_run_db ::
  "'f float_lib \<Rightarrow> libs \<Rightarrow> (logon_env \<times> read_result) list \<Rightarrow> tcp_conn \<Rightarrow> pool \<Rightarrow> (tcp_conn \<times> pool) outcome option" where
  "conn_run_db L libs = run_with (select_account_db L libs) (update_account_db libs)"

subsection \<open>What the handler relies on\<close>

text \<open>What the handler takes from an account; the address of the last login is only printed.\<close>

definition credentials :: "account_row \<Rightarrow> string \<times> bytes \<times> bytes" where
  "credentials row = (row_username row, row_salt row, row_verifier row)"

lemma handle_challenge_credentials:
  assumes "map_option credentials (f login) = map_option credentials (g login)"
    and "login = chars (take (unat (cc_I_len (read_challenge_c (buff c)))) (cc_I (read_challenge_c (buff c))))"
  shows "handle_challenge (env\<lparr>select_account := f\<rparr>) c = handle_challenge (env\<lparr>select_account := g\<rparr>) c"
proof -
  consider "f login = None" "g login = None"
    | x y where "f login = Some x" "g login = Some y" "credentials x = credentials y"
    using assms(1) by (cases "f login"; cases "g login") auto
  then show ?thesis
    by cases (simp_all add: handle_challenge_def Let_def assms(2) [symmetric] credentials_def del: bind_outcome_eq_Ret_iff)
qed

lemma handle_proof_select: "handle_proof (env\<lparr>select_account := f\<rparr>) c = handle_proof env c"
proof -
  have "lib (env\<lparr>select_account := f\<rparr>) = lib env"
    "GetRemoteIpAddress (env\<lparr>select_account := f\<rparr>) = GetRemoteIpAddress env" by (simp_all add: GetRemoteIpAddress_def)
  then show ?thesis unfolding handle_proof_def by presburger
qed

lemma handle_read_credentials:
  assumes "\<And>login. challenge_login c r = Some login \<Longrightarrow>
    map_option credentials (f login) = map_option credentials (g login)"
  shows "handle_read (env\<lparr>select_account := f\<rparr>) c r = handle_read (env\<lparr>select_account := g\<rparr>) c r"
proof (cases r)
  case ReadError
  then show ?thesis by (simp add: handle_read_cases)
next
  case (ReadOk bs)
  let ?c = "received c bs"
  have "handle_challenge (env\<lparr>select_account := f\<rparr>) ?c = handle_challenge (env\<lparr>select_account := g\<rparr>) ?c"
    if "buff ?c ! 0 = cmd_code AUTH_LOGON_CHALLENGE"
  proof (cases "size_matches (read_challenge_c (buff ?c))")
    case True
    show ?thesis
      by (rule handle_challenge_credentials [OF assms refl])
        (use that True ReadOk in \<open>simp add: challenge_login_def Let_def del: received_simps(7) cmd_code.simps\<close>)
  next
    case False
    then show ?thesis by (simp add: handle_challenge_def Let_def del: received_simps(7))
  qed
  then show ?thesis
    unfolding handle_read_cases ReadOk by (simp add: handle_proof_select del: received_simps(7) cmd_code.simps cong: if_cong)
qed

lemma handle_read_prefix:
  assumes "handle_read env c r = Ret c'"
  obtains es where "events c' = events c @ es"
  using handle_read_kind [OF assms] by (auto split: step_kind.splits)

lemma conn_run_prefix: "conn_run rs c = Ret c' \<Longrightarrow> \<exists>es. events c' = events c @ es"
proof (induction rs arbitrary: c)
  case (Cons r rs)
  then obtain c1 where c1: "handle_read (fst r) c (snd r) = Ret c1" "conn_run rs c1 = Ret c'" by auto
  from handle_read_prefix [OF c1(1)] Cons.IH [OF c1(2)] show ?case by (metis append_assoc)
qed simp

lemma account_updates_split:
  assumes "events c1 = events c @ es" and "events c2 = events c1 @ fs"
  shows "account_updates c c2 = account_updates c c1 @ account_updates c1 c2"
  using assms by (simp add: account_updates_def)

text \<open>
  The interface between the handler and its database: in a good state the query for a name comes back
  with the credentials a table of accounts has for it and changes nothing that counts, and an update
  comes back and adds one entry to the history.
\<close>

locale account_database =
  fixes select :: "string \<Rightarrow> 'p \<Rightarrow> (account_row option \<times> 'p) outcome option"
    and update :: "event \<Rightarrow> 'p \<Rightarrow> 'p outcome option"
    and good :: "'p \<Rightarrow> bool"
    and accounts :: "string \<Rightarrow> account_row option"
    and history :: "'p \<Rightarrow> 'e list"
    and entry :: "event \<Rightarrow> 'e"
  assumes select_step: "good p \<Longrightarrow> \<exists>row p'. select login p = Some (Ret (row, p')) \<and> good p' \<and> history p' = history p \<and>
      map_option credentials row = map_option credentials (accounts login)"
    and update_step: "good p \<Longrightarrow> is_update e \<Longrightarrow>
      \<exists>p'. update e p = Some (Ret p') \<and> good p' \<and> history p' = history p @ [entry e]"
begin

lemma updates_run:
  assumes "good p" and "list_all is_update es"
  shows "\<exists>p'. updates_with update es p = Some (Ret p') \<and> good p' \<and> history p' = history p @ map entry es"
  using assms
proof (induction es arbitrary: p)
  case (Cons e es)
  from update_step [OF Cons.prems(1), of e] Cons.prems(2) obtain p1 where
    p1: "update e p = Some (Ret p1)" "good p1" "history p1 = history p @ [entry e]" by auto
  from Cons.IH [OF p1(2)] Cons.prems(2) p1 show ?case by auto
qed simp

text \<open>The handler does on the database what it does on the table.\<close>

lemma handle_step:
  assumes "good p"
  shows "case handle_read (env\<lparr>select_account := accounts\<rparr>) c r of
      Crash x \<Rightarrow> handle_with select update env c r p = Some (Crash x)
    | Ret c' \<Rightarrow> \<exists>p'. handle_with select update env c r p = Some (Ret (c', p')) \<and> good p' \<and>
        history p' = history p @ map entry (account_updates c c')"
proof -
  let ?query = "case challenge_login c r of None \<Rightarrow> Some (Ret (None, p)) | Some login \<Rightarrow> select login p"
  obtain row p1 where q: "?query = Some (Ret (row, p1))" "good p1" "history p1 = history p"
    and row: "\<And>login. challenge_login c r = Some login \<Longrightarrow>
      map_option credentials row = map_option credentials (accounts login)"
  proof (cases "challenge_login c r")
    case None
    then show thesis using that [of None p] assms by simp
  next
    case (Some login)
    from select_step [OF assms, of login] obtain row p' where
      "select login p = Some (Ret (row, p'))" "good p'" "history p' = history p"
      "map_option credentials row = map_option credentials (accounts login)"
      by blast
    with Some show thesis by (intro that [of row p']) simp_all
  qed
  have h: "handle_read (env\<lparr>select_account := \<lambda>_. row\<rparr>) c r = handle_read (env\<lparr>select_account := accounts\<rparr>) c r"
    by (rule handle_read_credentials) (rule row)
  have db: "handle_with select update env c r p =
      bind_run (Some (handle_read (env\<lparr>select_account := accounts\<rparr>) c r)) (\<lambda>c'.
        bind_run (updates_with update (account_updates c c') p1) (\<lambda>p. Some (Ret (c', p))))"
    by (simp only: handle_with_def q(1)) (simp only: bind_run_def option.case outcome.case prod.case h)
  show ?thesis
  proof (cases "handle_read (env\<lparr>select_account := accounts\<rparr>) c r")
    case (Crash x)
    then show ?thesis by (simp add: db)
  next
    case (Ret c')
    have "list_all is_update (account_updates c c')" by (simp add: account_updates_def list_all_iff)
    from updates_run [OF q(2) this] q(3) Ret show ?thesis by (auto simp: db)
  qed
qed

lemma run_on_accounts:
  assumes "good p"
  shows "case conn_run (map (apfst (select_account_update (\<lambda>_. accounts))) rs) c of
      Crash x \<Rightarrow> run_with select update rs c p = Some (Crash x)
    | Ret c' \<Rightarrow> \<exists>p'. run_with select update rs c p = Some (Ret (c', p')) \<and> good p' \<and>
        history p' = history p @ map entry (account_updates c c')"
  using assms
proof (induction rs arbitrary: c p)
  case Nil
  then show ?case by (simp add: account_updates_def)
next
  case (Cons r rs)
  note step = handle_step [OF Cons.prems, where env = "fst r" and c = c and r = "snd r"]
  show ?case
  proof (cases "handle_read ((fst r)\<lparr>select_account := accounts\<rparr>) c (snd r)")
    case (Crash x)
    with step show ?thesis by simp
  next
    case first: (Ret c1)
    with step obtain p1 where
      p1: "handle_with select update (fst r) c (snd r) p = Some (Ret (c1, p1))" "good p1"
        "history p1 = history p @ map entry (account_updates c c1)"
      by auto
    note ih = Cons.IH [OF p1(2), of c1]
    show ?thesis
    proof (cases "conn_run (map (apfst (select_account_update (\<lambda>_. accounts))) rs) c1")
      case (Crash x)
      with ih first p1(1) show ?thesis by (simp add: bind_run_def)
    next
      case (Ret c2)
      with ih obtain p2 where p2: "run_with select update rs c1 p1 = Some (Ret (c2, p2))" "good p2"
        "history p2 = history p1 @ map entry (account_updates c1 c2)" by auto
      obtain es fs where "events c1 = events c @ es" "events c2 = events c1 @ fs"
        using handle_read_prefix [OF first] conn_run_prefix [OF Ret] by metis
      then have "account_updates c c2 = account_updates c c1 @ account_updates c1 c2" by (rule account_updates_split)
      then show ?thesis using first Ret p1 p2 by (simp add: bind_run_def)
    qed
  qed
qed

end

text \<open>The reference: the table itself, with the updates kept in a list.\<close>

interpretation table_db: account_database "\<lambda>login es. Some (Ret (accounts login, es))" "\<lambda>e es. Some (Ret (es @ [e]))"
  "\<lambda>_. True" accounts "\<lambda>es. es" "\<lambda>e. e"
  by unfold_locales auto

subsection \<open>The two statements on a connection\<close>

text \<open>A client-side statement that has only been bound to texts and binary values.\<close>

definition clean_stmt :: "nat \<Rightarrow> string \<Rightarrow> my_stmt \<Rightarrow> bool" where
  "clean_stmt n q m \<longleftrightarrow> ms_paramCount m = n \<and> ms_queryString m = q \<and> my_stmt_ok m \<and>
     list_all (\<lambda>b. \<not> is_unsigned b) (ms_bind m)"

definition sized :: "param \<Rightarrow> bool" where
  "sized a \<longleftrightarrow> (\<exists>s. a = PString s) \<or> (\<exists>bs. a = PBinary bs)"

definition bound_stmt :: "string \<Rightarrow> param list \<Rightarrow> my_stmt" where
  "bound_stmt q args = \<lparr>ms_paramCount = length args, ms_paramsSet = replicate (length args) True,
     ms_bind = map (\<lambda>a. bind_param a bind_zero) args, ms_queryString = q\<rparr>"

text \<open>A connection with the statements of the logon service.\<close>

definition login_conn :: "conn \<Rightarrow> bool" where
  "login_conn c \<longleftrightarrow> c_open c \<and>
     (\<exists>m2 m3. c_stmts c = [None, None, Some m2, Some m3] \<and> clean_stmt 1 challenge_sql m2 \<and> clean_stmt 5 proof_sql m3)"

definition login_args :: "nat \<Rightarrow> string \<Rightarrow> param list \<Rightarrow> bool" where
  "login_args index q args \<longleftrightarrow> list_all sized args \<and>
     (index = LOGIN_SEL_LOGONCHALLENGE \<and> q = challenge_sql \<and> length args = 1 \<or>
      index = LOGIN_UPD_LOGONPROOF \<and> q = proof_sql \<and> length args = 5)"

text \<open>A library at which statements succeed.\<close>

definition executes :: "mysql \<Rightarrow> bool" where
  "executes env \<longleftrightarrow> (\<forall>tr m. lib_bind env tr m = Okay) \<and> (\<forall>tr m. lib_execute env tr m = Okay)"

definition login_stmt :: "nat \<Rightarrow> param list \<Rightarrow> stmt" where
  "login_stmt index args =
     (stmt_new index (if index = LOGIN_SEL_LOGONCHALLENGE then 1 else 5))\<lparr>statement_data := args\<rparr>"

lemma sized_bind: "sized a \<Longrightarrow> \<not> is_unsigned b \<Longrightarrow> bind_param a b = bind_param a bind_zero \<and> \<not> is_unsigned (bind_param a b)"
  by (auto simp: sized_def bind_param_def sized_param_def bind_zero_def)

lemma sized_binds:
  assumes "list_all sized args" and "list_all (\<lambda>b. \<not> is_unsigned b) bs" and "length bs = length args"
  shows "map2 bind_param args bs = map (\<lambda>a. bind_param a bind_zero) args"
  using assms(3,1,2) by (induction bs args rule: list_induct2) (auto simp: sized_bind)

lemma bind_clean:
  assumes "clean_stmt (length args) q m" and "list_all sized args" and "length args < 256" and "statement_data st = args"
  shows "BindParameters st m = Ret (bound_stmt q args)"
  using assms BindParameters_eq [of m st] sized_binds [OF assms(2), of "ms_bind m"]
  by (simp add: clean_stmt_def my_stmt_ok_def bound_stmt_def)

lemma sized_zero: "sized a \<Longrightarrow> \<not> is_unsigned (bind_param a bind_zero)"
  using sized_bind [of a bind_zero] by (simp add: bind_zero_def)

lemma clean_bound: "list_all sized args \<Longrightarrow> clean_stmt (length args) q (ClearParameters (bound_stmt q args))"
  by (auto simp: clean_stmt_def bound_stmt_def ClearParameters_def my_stmt_ok_def list_all_iff sized_zero)

lemma login_index: "LOGIN_SEL_LOGONCHALLENGE = 2" "LOGIN_UPD_LOGONPROOF = 3"
  by (simp_all add: LOGIN_SEL_LOGONCHALLENGE_def LOGIN_UPD_LOGONPROOF_def)

text \<open>One attempt: it binds and executes, and changes only the statement and the log of calls.\<close>

lemma attempt_login:
  assumes "login_conn c" and "executes env" and "login_args index q args"
  defines "m \<equiv> bound_stmt q args"
  shows "\<exists>c1. attempt_stmt env (login_stmt index args) c = Ret (Okay, m, login_stmt index args, c1) \<and>
    c_events c1 = c_events c @ [EvBind m Okay, EvExec m Okay] \<and> c_open c1 \<and>
    c_stmts c1 = (c_stmts c)[index := Some m]"
proof -
  let ?st = "login_stmt index args"
  obtain m0 where m0: "resolve_stmt ?st c = Ret m0" "clean_stmt (length args) q m0"
    using assms(1,3)
    by (auto simp: login_conn_def login_args_def login_index login_stmt_def stmt_new_def resolve_stmt_def
        GetPreparedStatement_def)
  have data: "statement_data ?st = args" "\<not> st_isPrepared ?st" "st_index ?st = index"
    by (simp_all add: login_stmt_def stmt_new_def)
  have "length args < 256" "list_all sized args" using assms(3) by (auto simp: login_args_def)
  then have b: "BindParameters ?st m0 = Ret m"
    using bind_clean [OF m0(2) _ _ data(1)] by (simp add: m_def)
  have "length args \<le> count_list q (CHR ''?'')"
    using assms(3) by (auto simp: login_args_def login_sql_params)
  then obtain s where s: "getQueryString (fmt_float env) ?st m = Ret s"
    using getQueryString_Ret [of "fmt_float env" ?st m] by (auto simp: data m_def bound_stmt_def)
  have "c_open c" using assms(1) by (simp add: login_conn_def)
  then show ?thesis
    using m0(1) b s assms(2) data
    by (simp add: attempt_stmt_def store_stmt_def executes_def Let_def)
qed

text \<open>What is left after the statement was cleared is a connection as before, with the effect on the server.\<close>

lemma login_conn_after:
  assumes "login_conn c" and "login_args index q args"
    and "c_events c1 = c_events c @ [EvBind m Okay, EvExec m Okay]" and "c_open c1"
    and "c_stmts c1 = (c_stmts c)[index := Some m]" and m: "m = bound_stmt q args"
    and "store_stmt (ClearParameters m) (login_stmt index args, c1) = (st', c')"
  shows "login_conn c' \<and> conn_server c' = apply_effect (q, map (\<lambda>a. bind_param a bind_zero) args) (conn_server c)"
proof -
  have c': "c' = c1\<lparr>c_stmts := (c_stmts c)[index := Some (ClearParameters m)]\<rparr>"
    using assms(5,7) by (auto simp: store_stmt_def login_stmt_def stmt_new_def split: if_splits)
  have sized: "list_all sized args" using assms(2) by (simp add: login_args_def)
  have sv: "conn_server c' = apply_effect (q, map (\<lambda>a. bind_param a bind_zero) args) (conn_server c)"
    by (simp add: c' conn_server_def assms(3) m bound_stmt_def)
  have "clean_stmt (length args) q (ClearParameters m)" using clean_bound [OF sized] m by simp
  with assms(1,2,4) sv show ?thesis
    by (auto simp: c' login_conn_def login_args_def login_index numeral_2_eq_2 numeral_3_eq_3)
qed

lemma Execute_login:
  assumes "login_conn c" and "executes env" and "login_args index q args"
  shows "\<exists>st' c'. Execute_stmt env (login_stmt index args) c = Some (Ret (True, st', c')) \<and> login_conn c' \<and>
    conn_server c' = apply_effect (q, map (\<lambda>a. bind_param a bind_zero) args) (conn_server c)"
proof -
  from attempt_login [OF assms] obtain c1 where
    a: "attempt_stmt env (login_stmt index args) c = Ret (Okay, bound_stmt q args, login_stmt index args, c1)"
    and c1: "c_events c1 = c_events c @ [EvBind (bound_stmt q args) Okay, EvExec (bound_stmt q args) Okay]" "c_open c1"
      "c_stmts c1 = (c_stmts c)[index := Some (bound_stmt q args)]"
    by blast
  obtain st' c' where s: "store_stmt (ClearParameters (bound_stmt q args)) (login_stmt index args, c1) = (st', c')"
    by (cases "store_stmt (ClearParameters (bound_stmt q args)) (login_stmt index args, c1)")
  have "c_open c" using assms(1) by (simp add: login_conn_def)
  then have "Execute_stmt env (login_stmt index args) c = Some (Ret (True, st', c'))"
    using a s by (subst Execute_stmt.simps) simp
  with login_conn_after [OF assms(1,3) c1 refl s] show ?thesis by blast
qed

lemma Query_login:
  assumes "login_conn c" and "executes env" and "login_args index q args"
    and "\<And>tr. lib_stmt_result env (tr @ [EvExec (bound_stmt q args) Okay]) = res tr"
    and "PreparedResultSet_new (fst (res (c_events c @ [EvBind (bound_stmt q args) Okay])))
      (fst (snd (res (c_events c @ [EvBind (bound_stmt q args) Okay]))))
      (snd (snd (res (c_events c @ [EvBind (bound_stmt q args) Okay])))) = Ret ps"
  shows "\<exists>st' c'. conn_Query_stmt env (login_stmt index args) c = Some (Ret (Some ps, st', c')) \<and> login_conn c' \<and>
    conn_server c' = apply_effect (q, map (\<lambda>a. bind_param a bind_zero) args) (conn_server c)"
proof -
  let ?m = "bound_stmt q args"
  from attempt_login [OF assms(1-3)] obtain c1 where
    a: "attempt_stmt env (login_stmt index args) c = Ret (Okay, ?m, login_stmt index args, c1)"
    and c1: "c_events c1 = c_events c @ [EvBind ?m Okay, EvExec ?m Okay]" "c_open c1"
      "c_stmts c1 = (c_stmts c)[index := Some ?m]"
    by blast
  obtain st' c' where s: "store_stmt (ClearParameters ?m) (login_stmt index args, c1) = (st', c')"
    by (cases "store_stmt (ClearParameters ?m) (login_stmt index args, c1)")
  have "c_open c" using assms(1) by (simp add: login_conn_def)
  moreover have "lib_stmt_result env (c_events c1) = res (c_events c @ [EvBind ?m Okay])"
    using assms(4) [of "c_events c @ [EvBind ?m Okay]"] c1(1) by simp
  ultimately have "Query_stmt_loop env (login_stmt index args) c =
      Some (Ret (Some (res (c_events c @ [EvBind ?m Okay])), st', c'))"
    using a s by (subst Query_stmt_loop.simps) simp
  then have "conn_Query_stmt env (login_stmt index args) c = Some (Ret (Some ps, st', c'))"
    using assms(5) by (cases "res (c_events c @ [EvBind ?m Okay])") (simp add: conn_Query_stmt_def)
  with login_conn_after [OF assms(1,3) c1 refl s] show ?thesis by blast
qed

subsection \<open>The two statements on the pool\<close>

lemma conn_at_length: "k < length (p_synch p) \<Longrightarrow> conn_at k (set_synch k c p) = c"
  by (simp add: conn_at_def set_synch_def)

lemma free_order_locks:
  assumes "locks p' = locks p"
  shows "free_order p' = free_order p"
proof -
  have len: "length (p_synch p') = length (p_synch p)" using assms by (metis locks_simps(1))
  have "is_free (p_synch p') i = is_free (p_synch p) i" if "i < length (p_synch p)" for i
    using assms that locks_simps(3) [of i p] locks_simps(3) [of i p'] len by simp
  then have "filter (is_free (p_synch p')) [1..<length (p_synch p)] = filter (is_free (p_synch p)) [1..<length (p_synch p)]"
    by (intro filter_cong) auto
  moreover have "is_free (p_synch p') 0 = is_free (p_synch p) 0" if "p_synch p \<noteq> []"
    using assms that locks_simps(3) [of 0 p] locks_simps(3) [of 0 p'] len by simp
  moreover have "p_synch p = [] \<longleftrightarrow> p_synch p' = []" using len by (metis length_0_conv)
  ultimately show ?thesis by (cases "p_synch p = []") (simp_all add: free_order_def len)
qed

text \<open>A pool whose calls go to the connection at \<open>k\<close>, the first free one.\<close>

definition login_pool :: "nat \<Rightarrow> pool \<Rightarrow> bool" where
  "login_pool k p \<longleftrightarrow> p_synch p \<noteq> [] \<and> length (p_synch p) \<le> 255 \<and> (\<exists>ks. free_order p = k # ks) \<and>
     p_preparedSize p = [0, 0, 1, 5] \<and> login_conn (conn_at k p)"

lemma login_pool_free:
  assumes "login_pool k p"
  shows "GetFreeConnection p = Some (Ret (k, lock_at k p))" and "k < length (p_synch p)" and "\<not> locks p ! k"
proof -
  show g: "GetFreeConnection p = Some (Ret (k, lock_at k p))"
    using assms by (auto simp: login_pool_def GetFreeConnection_eq)
  have "length (p_synch p) \<le> 255" using assms by (simp add: login_pool_def)
  from locks_free [OF g this] show "k < length (p_synch p)" "\<not> locks p ! k" by simp_all
qed

lemma login_conn_locked [simp]: "login_conn (c\<lparr>c_locked := b\<rparr>) = login_conn c"
  by (simp add: login_conn_def)

text \<open>One call on the connection: it is locked, used and given back.\<close>

lemma login_pool_call:
  assumes "login_pool k p"
    and "f (lib_at libs k p) ((conn_at k p)\<lparr>c_locked := True\<rparr>) = Some (Ret (x, c'))" and "c_locked c'"
    and "login_conn c'"
  shows "\<exists>p1. on_synch libs k f (lock_at k p) = Some (Ret (x, p1)) \<and> login_pool k (pool_Unlock k p1) \<and>
    locks (pool_Unlock k p1) = locks p \<and> conn_at k (pool_Unlock k p1) = c'\<lparr>c_locked := False\<rparr> \<and>
    lib_at libs k (pool_Unlock k p1) = lib_at libs k p"
proof -
  note k = login_pool_free [OF assms(1)]
  let ?p1 = "share_info (c_info c') (set_synch k c' (lock_at k p))"
  have len: "length (p_synch (lock_at k p)) = length (p_synch p)" by (simp add: lock_at_def)
  have "libs (fst (p_synch (lock_at k p) ! k)) = lib_at libs k p"
    "snd (p_synch (lock_at k p) ! k) = (conn_at k p)\<lparr>c_locked := True\<rparr>"
    using conn_at_lock(1,3) [OF k(2)] by (simp_all add: conn_at_def lib_at_def)
  then have o: "on_synch libs k f (lock_at k p) = Some (Ret (x, ?p1))"
    using k(2) assms(2) len by (simp add: on_synch_def)
  have c1: "conn_at k ?p1 = c'" using k(2) len by (simp add: conn_at_def share_info_def set_synch_def)
  have k1: "k < length (p_synch ?p1)" using k(2) len by (simp add: share_info_def)
  have c2: "conn_at k (pool_Unlock k ?p1) = c'\<lparr>c_locked := False\<rparr>" using conn_at_lock(2) [OF k1] c1 by simp
  have lib: "lib_at libs k (pool_Unlock k ?p1) = lib_at libs k p"
    using k(2) by (simp add: lib_at_def pool_Unlock_def share_info_def set_synch_def lock_at_def)
  have l: "locks (pool_Unlock k ?p1) = locks p"
  proof -
    have "locks (pool_Unlock k ?p1) = (locks p)[k := False]" by (simp add: lock_at_def)
    also have "\<dots> = locks p" using k by (metis (full_types) list_update_id)
    finally show ?thesis .
  qed
  have "p_preparedSize (pool_Unlock k ?p1) = p_preparedSize p"
    by (simp add: pool_Unlock_def share_info_def set_synch_def lock_at_def)
  moreover have "length (p_synch (pool_Unlock k ?p1)) = length (p_synch p)"
    using l by (metis locks_simps(1))
  ultimately have "login_pool k (pool_Unlock k ?p1)"
    using assms(1,4) free_order_locks [OF l] c2 by (auto simp: login_pool_def)
  with o l c2 lib show ?thesis by blast
qed

lemma login_pool_statement:
  assumes "login_pool k p" and "login_args index q args"
  shows "\<exists>s. pool_GetPreparedStatement index p = Ret s \<and> ps_conn s = None \<and>
    set_data_from 0 args (ps_stmt s) = Ret (login_stmt index args) \<and>
    \<not> st_isPrepared (login_stmt index args)"
proof -
  let ?n = "if index = LOGIN_SEL_LOGONCHALLENGE then 1 else 5 :: uint8"
  have get: "pool_GetPreparedStatement index p = Ret \<lparr>ps_stmt = stmt_new index ?n, ps_conn = None\<rparr>"
    using assms by (auto simp: login_pool_def login_args_def login_index pool_GetPreparedStatement_def)
  have "length args < 256" "length args = length (statement_data (stmt_new index ?n))"
    using assms(2) by (auto simp: login_args_def login_index stmt_new_def)
  then have "set_data_from 0 args (stmt_new index ?n) = Ret (login_stmt index args)"
    using set_data_from_eq [of 0 args "stmt_new index ?n"] by (simp add: login_stmt_def)
  with get show ?thesis by (simp add: login_stmt_def stmt_new_def)
qed

lemma login_pool_execute:
  assumes "login_pool k p" and "executes (lib_at libs k p)" and "login_args index q args"
  shows "\<exists>p'. DirectExecute_stmt libs \<lparr>ps_stmt = login_stmt index args, ps_conn = None\<rparr> p = Some (Ret p') \<and>
    login_pool k p' \<and> locks p' = locks p \<and> lib_at libs k p' = lib_at libs k p \<and>
    conn_server (conn_at k p') = apply_effect (q, map (\<lambda>a. bind_param a bind_zero) args) (conn_server (conn_at k p))"
proof -
  let ?c = "(conn_at k p)\<lparr>c_locked := True\<rparr>"
  have "login_conn ?c" using assms(1) by (simp add: login_pool_def)
  from Execute_login [OF this assms(2,3)] obtain st' c' where
    e: "Execute_stmt (lib_at libs k p) (login_stmt index args) ?c = Some (Ret (True, st', c'))" "login_conn c'"
      "conn_server c' = apply_effect (q, map (\<lambda>a. bind_param a bind_zero) args) (conn_server ?c)"
    by blast
  have "c_locked c'" using conn_frame_Execute_stmt [OF e(1)] by (simp add: conn_frame_def)
  let ?f = "\<lambda>env c. bind_run (Execute_stmt env (login_stmt index args) c) (\<lambda>(ok, st, c). Some (Ret (ok, c)))"
  have "?f (lib_at libs k p) ?c = Some (Ret (True, c'))" using e(1) by simp
  from login_pool_call [OF assms(1), where f = ?f, OF this \<open>c_locked c'\<close> e(2)] obtain p1 where
    p1: "on_synch libs k ?f (lock_at k p) = Some (Ret (True, p1))" "login_pool k (pool_Unlock k p1)"
      "locks (pool_Unlock k p1) = locks p" "conn_at k (pool_Unlock k p1) = c'\<lparr>c_locked := False\<rparr>"
      "lib_at libs k (pool_Unlock k p1) = lib_at libs k p"
    by blast
  have "DirectExecute_stmt libs \<lparr>ps_stmt = login_stmt index args, ps_conn = None\<rparr> p = Some (Ret (pool_Unlock k p1))"
    using p1(1) login_pool_free(1) [OF assms(1)] by (simp add: DirectExecute_stmt_def)
  with p1(2-5) e(3) show ?thesis by (intro exI [of _ "pool_Unlock k p1"]) (simp del: locks_Unlock)
qed

lemma login_pool_query:
  assumes "login_pool k p" and "executes (lib_at libs k p)" and "login_args index q args"
    and "\<And>tr. lib_stmt_result (lib_at libs k p) (tr @ [EvExec (bound_stmt q args) Okay]) = res tr"
    and "\<And>tr. \<exists>ps. PreparedResultSet_new (fst (res tr)) (fst (snd (res tr))) (snd (snd (res tr))) = Ret ps \<and> good ps"
  shows "\<exists>ps p'. pool_Query_stmt libs \<lparr>ps_stmt = login_stmt index args, ps_conn = None\<rparr> p =
      Some (Ret (non_empty (Some ps), p')) \<and> good ps \<and>
    login_pool k p' \<and> locks p' = locks p \<and> lib_at libs k p' = lib_at libs k p \<and>
    conn_server (conn_at k p') = apply_effect (q, map (\<lambda>a. bind_param a bind_zero) args) (conn_server (conn_at k p))"
proof -
  let ?c = "(conn_at k p)\<lparr>c_locked := True\<rparr>" and ?st = "login_stmt index args"
  have c: "login_conn ?c" using assms(1) by (simp add: login_pool_def)
  from assms(5) obtain ps where ps: "PreparedResultSet_new (fst (res (c_events ?c @ [EvBind (bound_stmt q args) Okay])))
      (fst (snd (res (c_events ?c @ [EvBind (bound_stmt q args) Okay]))))
      (snd (snd (res (c_events ?c @ [EvBind (bound_stmt q args) Okay])))) = Ret ps" "good ps"
    by blast
  from Query_login [OF c assms(2,3,4) ps(1)] obtain st' c' where
    e: "conn_Query_stmt (lib_at libs k p) ?st ?c = Some (Ret (Some ps, st', c'))" "login_conn c'"
      "conn_server c' = apply_effect (q, map (\<lambda>a. bind_param a bind_zero) args) (conn_server ?c)"
    by blast
  have "c_locked c'" using conn_frame_Query_stmt [OF e(1)] by (simp add: conn_frame_def)
  let ?f = "\<lambda>env c. bind_run (conn_Query_stmt env ?st c) (\<lambda>(ret, st, c). Some (Ret (ret, c)))"
  have "?f (lib_at libs k p) ?c = Some (Ret (Some ps, c'))" using e(1) by simp
  from login_pool_call [OF assms(1), where f = ?f, OF this \<open>c_locked c'\<close> e(2)] obtain p1 where
    p1: "on_synch libs k ?f (lock_at k p) = Some (Ret (Some ps, p1))" "login_pool k (pool_Unlock k p1)"
      "locks (pool_Unlock k p1) = locks p" "conn_at k (pool_Unlock k p1) = c'\<lparr>c_locked := False\<rparr>"
      "lib_at libs k (pool_Unlock k p1) = lib_at libs k p"
    by blast
  have "\<not> st_isPrepared ?st" by (simp add: login_stmt_def stmt_new_def)
  then have "pool_Query_stmt libs \<lparr>ps_stmt = ?st, ps_conn = None\<rparr> p = Some (Ret (non_empty (Some ps), pool_Unlock k p1))"
    using p1(1) login_pool_free(1) [OF assms(1)] by (simp add: pool_Query_stmt_def)
  with p1(2-5) e(3) ps(2) show ?thesis by (intro exI [of _ ps] exI [of _ "pool_Unlock k p1"]) (simp del: locks_Unlock)
qed

subsection \<open>The row of an account\<close>

text \<open>
  What the server answers to the query for an account: the columns of the statement, with the
  longest lengths of their values, and one row or none.
\<close>

definition account_column :: "string \<Rightarrow> field_type \<Rightarrow> nat \<Rightarrow> lib_field" where
  "account_column name ty len = \<lparr>f_org_table = ''account'', f_table = ''a'', f_org_name = name, f_name = name,
     f_type = ty, f_max_length = len, f_unsigned = (ty = MYSQL_TYPE_LONG)\<rparr>"

definition account_values :: "uint32 \<times> account_row \<Rightarrow> bytes list" where
  "account_values a =
     [le_bytes 4 (unat (fst a)), bytes_of (row_username (snd a)), bytes_of (row_last_ip (snd a)), row_salt (snd a),
      row_verifier (snd a)]"

definition account_fields :: "bytes list \<Rightarrow> lib_field list" where
  "account_fields vs =
     [account_column ''id'' MYSQL_TYPE_LONG (length (vs ! 0)),
      account_column ''username'' MYSQL_TYPE_VAR_STRING (length (vs ! 1)),
      account_column ''last_ip'' MYSQL_TYPE_VAR_STRING (length (vs ! 2)),
      account_column ''salt'' MYSQL_TYPE_STRING (length (vs ! 3)),
      account_column ''verifier'' MYSQL_TYPE_STRING (length (vs ! 4))]"

definition account_cells :: "bytes list \<Rightarrow> cell list" where
  "account_cells vs = map (\<lambda>v. \<lparr>cell_data = Some v, cell_length = length v\<rparr>) vs"

definition account_result :: "uint32 \<Rightarrow> (nat \<Rightarrow> byte) \<Rightarrow> (uint32 \<times> account_row) option \<Rightarrow> stmt_result" where
  "account_result time_size fill a =
     (let vs = (case a of None \<Rightarrow> [[], [], [], [], []] | Some x \<Rightarrow> account_values x);
          rws = (case a of None \<Rightarrow> [] | Some x \<Rightarrow> [account_cells vs])
      in \<lparr>sr_metadata = Some (account_fields vs), sr_store_ok = True, sr_num_rows = length rws, sr_bind_ok = True,
          sr_fetches = map FetchRow rws, sr_time_size = time_size, sr_fresh = fill\<rparr>)"

text \<open>
  An account whose texts are not longer than the columns of the table, and whose number has a zero
  byte: the unsigned getter of the number also reads it as a text.
\<close>

definition account_fits :: "uint32 \<times> account_row \<Rightarrow> bool" where
  "account_fits a \<longleftrightarrow> unat (fst a) < 2 ^ 24 \<and> list_all (\<lambda>v. length v < 2 ^ 16) (account_values a)"

lemma account_columns:
  assumes "list_all (\<lambda>v. length v < 2 ^ 16) vs" and "length vs = 5" and "length (vs ! 0) \<le> 4"
  shows "map col_size (ps_columns t (account_fields vs)) =
      [4, length (vs ! 1) + 1, length (vs ! 2) + 1, length (vs ! 3) + 1, length (vs ! 4) + 1]"
    and "row_fits (ps_columns t (account_fields vs)) (account_cells vs)"
proof -
  have len: "length (vs ! i) < 65536" if "i < 5" for i using assms(1,2) that by (simp add: list_all_length)
  have w: "unat (1 + word_of_nat n :: uint32) = n + 1" if "n < 65536" for n :: nat
    using that by (simp add: unat_word_ariths unat_of_nat)
  note ls = len [of 1] len [of 2] len [of 3] len [of 4]
  show sizes: "map col_size (ps_columns t (account_fields vs)) =
      [4, length (vs ! 1) + 1, length (vs ! 2) + 1, length (vs ! 3) + 1, length (vs ! 4) + 1]"
    using ls
    by (simp add: ps_columns_def account_fields_def account_column_def SizeForType_def w upt_conv_Cons add.commute
        del: unsigned_numeral) (rule take_bit_nat_eq_self, simp)
  have l5: "length (ps_columns t (account_fields vs)) = 5" by (simp add: ps_columns_def account_fields_def)
  have c: "col_size (ps_columns t (account_fields vs) ! i) =
      [4, length (vs ! 1) + 1, length (vs ! 2) + 1, length (vs ! 3) + 1, length (vs ! 4) + 1] ! i" if "i < 5" for i
    using that l5 by (subst sizes [symmetric]) simp
  have "length (vs ! i) \<le> col_size (ps_columns t (account_fields vs) ! i)" if "i < 5" for i
  proof -
    from that consider "i = 0" | "i = 1" | "i = 2" | "i = 3" | "i = 4" by linarith
    then show ?thesis using c [OF that] assms(3) by cases simp_all
  qed
  then show "row_fits (ps_columns t (account_fields vs)) (account_cells vs)"
    using assms(2) l5 by (auto simp: row_fits_def account_cells_def)
qed

lemma row_entry_string:
  assumes "read_at mem p (length img) = img" and "length img < 2 ^ 32" and "cell_data c = Some img"
    and "cell_length c = length img" and "ps_memory ps = mem"
  shows "GetDataString (ps_view ps (row_entry p c m)) = Ret (chars img)"
proof -
  have "length img \<le> length (drop p mem)"
    using arg_cong [OF assms(1), of length] by (simp add: read_at_def)
  moreover have "unat (word_of_nat (length img) :: uint32) = length img"
    using assms(2) by (simp add: unat_of_nat)
  ultimately show ?thesis
    using assms(1,3-5) by (auto simp: GetDataString_def ps_view_def row_entry_def read_at_def)
qed

lemma le_bytes_small:
  assumes "n < 2 ^ 24"
  shows "0 \<in> set (le_bytes 4 n)"
proof -
  have four: "(4 :: nat) = Suc (Suc (Suc (Suc 0)))" by simp
  have "n div 256 div 256 div 256 = n div 2 ^ 24" by (simp add: div_mult2_eq [symmetric])
  then have "n div 256 div 256 div 256 = 0" using assms by simp
  then show ?thesis unfolding four by simp
qed

text \<open>The getter of the account's number comes back.\<close>

lemma account_id_read:
  assumes "read_at mem p 4 = le_bytes 4 n" and "n < 2 ^ 24" and "cell_data c = Some (le_bytes 4 n)"
    and "ps_memory ps = mem" and "CHR ''('' \<notin> set (Alias m)"
  shows "\<exists>v. GetData L (ps_view ps (row_entry p c m)) (TInt ty_uint32) = Some (Ret v)"
proof -
  let ?f = "ps_view ps (row_entry p c m)"
  have t: "take 4 (drop p mem) = le_bytes 4 n" using assms(1) by (simp add: read_at_def)
  have f: "fvalue ?f = Some (drop p mem)" "meta ?f = Some m" "raw ?f"
    using assms(3,4) by (simp_all add: ps_view_def row_entry_def)
  have "4 \<le> length (drop p mem)" using arg_cong [OF t, of length] by simp
  moreover have "0 \<in> set (drop p mem)"
    using le_bytes_small [OF assms(2)] set_take_subset [of 4 "drop p mem"] t by auto
  ultimately show ?thesis using GetData_raw_32 [OF f _ assms(5), of L] by simp
qed

definition reads_account :: "'f float_lib \<Rightarrow> (uint32 \<times> account_row) option \<Rightarrow> prepared_set \<Rightarrow> bool" where
  "reads_account L a ps \<longleftrightarrow>
     (case a of
        None \<Rightarrow> non_empty (Some ps) = None
      | Some x \<Rightarrow> non_empty (Some ps) = Some ps \<and> read_account L ps = Some (Ret (snd x)))"

lemma ps_columns_metadata:
  "i < length flds \<Longrightarrow> snd (snd (ps_columns t flds ! i)) = InitializeDatabaseFieldMetadata (flds ! i) i"
  by (simp add: ps_columns_def)

lemma account_result_read:
  assumes "account_fits x"
  shows "\<exists>ps. PreparedResultSet_new (account_result t fill (Some x)) n 5 = Ret ps \<and> reads_account L (Some x) ps"
proof -
  define vs where "vs = account_values x"
  let ?flds = "account_fields vs" and ?sr = "account_result t fill (Some x)" and ?rws = "[account_cells vs]"
  define cols where "cols = ps_columns t ?flds"
  have vs: "length vs = 5" "list_all (\<lambda>v. length v < 2 ^ 16) vs" "length (vs ! 0) \<le> 4"
    using assms by (simp_all add: vs_def account_fits_def account_values_def)
  note cs = account_columns [OF vs(2,1,3), of t, folded cols_def]
  have small: "length (vs ! i) < 2 ^ 16" if "i < 5" for i using vs(1,2) that by (simp add: list_all_length)
  have sum: "sum_list (map col_size cols) < 2 ^ 32"
    using small [of 1] small [of 2] small [of 3] small [of 4] by (simp add: cs(1))
  have sr: "sr_metadata ?sr = Some ?flds" "sr_store_ok ?sr" "sr_bind_ok ?sr" "sr_num_rows ?sr = length ?rws"
    "sr_fetches ?sr = map FetchRow ?rws @ []" "sr_time_size ?sr = t"
    by (simp_all add: account_result_def vs_def Let_def)
  have cols_sr: "cols = ps_columns (sr_time_size ?sr) ?flds" by (simp only: cols_def sr(6))
  have l5: "length ?flds = 5" "length cols = 5" and ne: "?flds \<noteq> []"
    by (simp_all add: account_fields_def cols_def ps_columns_def)
  obtain ps ptrs where ps: "PreparedResultSet_new ?sr n 5 = Ret ps" "ps_rowCount ps = 1" "ps_rowPosition ps = 0"
    "ps_fieldCount ps = 5" and inv: "rows_inv cols ?rws 1 (ps_rows ps, ps_memory ps, ptrs)"
    using prepared_result_built [OF sr(1-5) cols_sr _ _ _ sum, of n] cs(2) l5 ne
    by auto
  define at where "at = (\<lambda>i. slot (map col_size cols) i (stored ?rws i 0))"
  define md where "md = (\<lambda>i. snd (snd (cols ! i)))"
  have rows: "length (ps_rows ps) = 5" "\<And>i. i < 5 \<Longrightarrow> ps_rows ps ! i = row_entry (at i) (account_cells vs ! i) (md i)"
    "\<And>i. i < 5 \<Longrightarrow> read_at (ps_memory ps) (at i) (length (vs ! i)) = vs ! i"
    using inv vs(1) l5 by (simp_all add: rows_inv_def at_def md_def account_cells_def)
  have cell: "cell_data (account_cells vs ! i) = Some (vs ! i)" "cell_length (account_cells vs ! i) = length (vs ! i)"
    if "i < 5" for i
    using that vs(1) by (simp_all add: account_cells_def)
  define f where "f = (\<lambda>i. ps_view ps (row_entry (at i) (account_cells vs ! i) (md i)))"
  have fetch: "ps_Fetch ps = Ret (map (ps_view ps) (ps_rows ps))"
    using ps rows(1) by (simp add: ps_Fetch_def row_index_def)
  have fld: "field_at (map (ps_view ps) (ps_rows ps)) i = Ret (f i)" if "i < 5" for i
    using that rows(1) rows(2) [OF that] by (simp add: field_at_def f_def)
  have str: "GetDataString (f i) = Ret (chars (vs ! i))" and bin: "GetDataBinary (f i) = Ret (vs ! i)" if "i < 5" for i
  proof -
    have l: "length (vs ! i) < 2 ^ 32" using small [OF that] by simp
    show "GetDataString (f i) = Ret (chars (vs ! i))"
      unfolding f_def by (rule row_entry_string [OF rows(3) [OF that] l cell [OF that] refl])
    show "GetDataBinary (f i) = Ret (vs ! i)"
      unfolding f_def by (rule row_entry_read [OF rows(3) [OF that] l cell [OF that] refl])
  qed
  have "Alias (md 0) = ''id''"
    using ps_columns_metadata [of 0 ?flds t] l5(1)
    by (simp add: md_def cols_def InitializeDatabaseFieldMetadata_def) (simp add: account_fields_def account_column_def)
  moreover have "vs ! 0 = le_bytes 4 (unat (fst x))" by (simp add: vs_def account_values_def)
  moreover have "unat (fst x) < 2 ^ 24" using assms by (simp add: account_fits_def)
  ultimately obtain v where v: "GetData L (f 0) (TInt ty_uint32) = Some (Ret v)"
    using account_id_read [of "ps_memory ps" "at 0" "unat (fst x)" "account_cells vs ! 0" ps "md 0" L] rows(3) [of 0] cell [of 0]
    by (auto simp: f_def)
  have vals: "vs ! 1 = bytes_of (row_username (snd x))" "vs ! 2 = bytes_of (row_last_ip (snd x))"
    "vs ! 3 = row_salt (snd x)" "vs ! 4 = row_verifier (snd x)"
    by (simp_all add: vs_def account_values_def)
  have "read_account L ps = Some (Ret (snd x))"
    using v fld [of 0] fld [of 1] fld [of 2] fld [of 3] fld [of 4] str [of 1] str [of 2] str [of 3] str [of 4]
      bin [of 3] bin [of 4] vals
    by (simp add: read_account_def fetch)
  with ps show ?thesis by (auto simp: reads_account_def non_empty_def)
qed

lemma account_result_none:
  "\<exists>ps. PreparedResultSet_new (account_result t fill None) n 5 = Ret ps \<and> reads_account L None ps"
proof -
  let ?sr = "account_result t fill None" and ?vs = "[[], [], [], [], []] :: bytes list"
  let ?flds = "account_fields ?vs" and ?rws = "[] :: cell list list"
  define cols where "cols = ps_columns t ?flds"
  have sr: "sr_metadata ?sr = Some ?flds" "sr_store_ok ?sr" "sr_bind_ok ?sr" "sr_num_rows ?sr = length ?rws"
    "sr_fetches ?sr = map FetchRow ?rws @ []" "sr_time_size ?sr = t"
    by (simp_all add: account_result_def Let_def)
  have cols_sr: "cols = ps_columns (sr_time_size ?sr) ?flds" by (simp only: cols_def sr(6))
  have "map col_size cols = [4, 1, 1, 1, 1]" using account_columns(1) [of ?vs t] by (simp add: cols_def)
  then have sum: "sum_list (map col_size cols) < 2 ^ 32" by simp
  have l5: "length ?flds = 5" and ne: "?flds \<noteq> []" by (simp_all add: account_fields_def)
  obtain ps where "PreparedResultSet_new ?sr n 5 = Ret ps" "ps_rowCount ps = 0"
    using prepared_result_built [OF sr(1-5) cols_sr _ _ _ sum, of n] l5 ne
    by auto
  then show ?thesis by (auto simp: reads_account_def non_empty_def)
qed

subsection \<open>The account table behind the pool\<close>

definition same_account :: "(uint32 \<times> account_row) option \<Rightarrow> (uint32 \<times> account_row) option \<Rightarrow> bool" where
  "same_account a b \<longleftrightarrow>
     (case a of
        None \<Rightarrow> b = None
      | Some x \<Rightarrow> account_fits x \<and> (\<exists>y. b = Some y \<and> snd x = (snd y)\<lparr>row_last_ip := row_last_ip (snd x)\<rparr>))"

text \<open>
  A server that holds a table of accounts: statements succeed, and the query for a name answers with
  the account of that name or no row. The address of the last login, which the updates change, may
  be any.
\<close>

definition account_server :: "mysql \<Rightarrow> (string \<Rightarrow> (uint32 \<times> account_row) option) \<Rightarrow> bool" where
  "account_server env accounts \<longleftrightarrow> executes env \<and>
     (\<forall>login tr. \<exists>t fill a n. same_account a (accounts login) \<and>
        lib_stmt_result env (tr @ [EvExec (bound_stmt challenge_sql [PString login]) Okay]) = (account_result t fill a, n, 5))"

definition executed :: "server \<Rightarrow> effect list" where
  "executed sv = sv_committed sv @ (case sv_open sv of None \<Rightarrow> [] | Some es \<Rightarrow> es)"

lemma executed_apply [simp]: "executed (apply_effect e sv) = executed sv @ [e]"
  by (simp add: executed_def apply_effect_def split: option.splits)

text \<open>The updates of accounts the server at \<open>k\<close> has executed, with the values bound.\<close>

definition account_log :: "nat \<Rightarrow> pool \<Rightarrow> mysql_bind list list" where
  "account_log k p = map snd (filter (\<lambda>e. fst e = proof_sql) (executed (conn_server (conn_at k p))))"

definition update_binds :: "event \<Rightarrow> mysql_bind list" where
  "update_binds e = map (\<lambda>a. bind_param a bind_zero) (update_params e)"

text \<open>What every call of the service keeps of the pool.\<close>

definition serves :: "nat \<Rightarrow> libs \<Rightarrow> pool \<Rightarrow> pool \<Rightarrow> bool" where
  "serves k libs p p' \<longleftrightarrow> login_pool k p' \<and> locks p' = locks p \<and> lib_at libs k p' = lib_at libs k p"

lemma select_account_steady:
  assumes "login_pool k p" and "account_server (lib_at libs k p) accounts"
  shows "\<exists>a p'. select_account_db L libs login p = Some (Ret (map_option snd a, p')) \<and>
    same_account a (accounts login) \<and> serves k libs p p' \<and> account_log k p' = account_log k p"
proof -
  let ?args = "[PString login]" and ?env = "lib_at libs k p"
  have args: "login_args LOGIN_SEL_LOGONCHALLENGE challenge_sql ?args" by (simp add: login_args_def sized_def)
  have ex: "executes ?env" using assms(2) by (simp add: account_server_def)
  let ?good = "\<lambda>ps. \<exists>a. same_account a (accounts login) \<and> reads_account L a ps"
  have good: "\<exists>ps. PreparedResultSet_new (fst (lib_stmt_result ?env (tr @ [EvExec (bound_stmt challenge_sql ?args) Okay])))
      (fst (snd (lib_stmt_result ?env (tr @ [EvExec (bound_stmt challenge_sql ?args) Okay]))))
      (snd (snd (lib_stmt_result ?env (tr @ [EvExec (bound_stmt challenge_sql ?args) Okay])))) = Ret ps \<and> ?good ps" for tr
  proof -
    from assms(2) obtain t fill a n where r: "same_account a (accounts login)"
      "lib_stmt_result ?env (tr @ [EvExec (bound_stmt challenge_sql ?args) Okay]) = (account_result t fill a, n, 5)"
      unfolding account_server_def by blast
    show ?thesis
    proof (cases a)
      case None
      with r account_result_none [of t fill n L] show ?thesis by auto
    next
      case (Some x)
      with r(1) have "account_fits x" by (simp add: same_account_def)
      with r Some account_result_read [of x t fill n L] show ?thesis by auto
    qed
  qed
  from login_pool_query [OF assms(1) ex args refl good] obtain ps p' a where
    q: "pool_Query_stmt libs \<lparr>ps_stmt = login_stmt LOGIN_SEL_LOGONCHALLENGE ?args, ps_conn = None\<rparr> p =
      Some (Ret (non_empty (Some ps), p'))"
    and a: "same_account a (accounts login)" "reads_account L a ps"
    and p': "login_pool k p'" "locks p' = locks p" "lib_at libs k p' = lib_at libs k p"
      "conn_server (conn_at k p') =
        apply_effect (challenge_sql, map (\<lambda>a. bind_param a bind_zero) ?args) (conn_server (conn_at k p))"
    by blast
  from login_pool_statement [OF assms(1) args] obtain s where
    s: "pool_GetPreparedStatement LOGIN_SEL_LOGONCHALLENGE p = Ret s" "ps_conn s = None"
      "SetValidData 0 (PString login) (ps_stmt s) = Ret (login_stmt LOGIN_SEL_LOGONCHALLENGE ?args)"
    by auto
  have "s\<lparr>ps_stmt := login_stmt LOGIN_SEL_LOGONCHALLENGE ?args\<rparr> =
      \<lparr>ps_stmt = login_stmt LOGIN_SEL_LOGONCHALLENGE ?args, ps_conn = None\<rparr>"
    using s(2) by (cases s) simp
  then have "pool_Query_stmt libs (s\<lparr>ps_stmt := login_stmt LOGIN_SEL_LOGONCHALLENGE ?args\<rparr>) p =
      Some (Ret (non_empty (Some ps), p'))"
    by (simp only: q)
  then have "select_account_db L libs login p = Some (Ret (map_option snd a, p'))"
    using s a(2) by (cases a) (simp_all add: select_account_db_def reads_account_def del: bind_run_Ret, simp_all)
  moreover have "challenge_sql \<noteq> proof_sql" by (simp add: challenge_sql_def proof_sql_def)
  ultimately show ?thesis using a(1) p'
    by (intro exI [of _ a] exI [of _ p']) (simp add: serves_def account_log_def)
qed

lemma update_account_steady:
  assumes "login_pool k p" and "executes (lib_at libs k p)" and "is_update e"
  shows "\<exists>p'. update_account_db libs e p = Some (Ret p') \<and> serves k libs p p' \<and>
    account_log k p' = account_log k p @ [update_binds e]"
proof -
  have args: "login_args LOGIN_UPD_LOGONPROOF proof_sql (update_params e)"
    using assms(3) by (cases e) (simp_all add: login_args_def update_params_def sized_def)
  from login_pool_execute [OF assms(1,2) args] obtain p' where
    p': "DirectExecute_stmt libs \<lparr>ps_stmt = login_stmt LOGIN_UPD_LOGONPROOF (update_params e), ps_conn = None\<rparr> p =
        Some (Ret p')" "login_pool k p'" "locks p' = locks p" "lib_at libs k p' = lib_at libs k p"
      "conn_server (conn_at k p') = apply_effect (proof_sql, update_binds e) (conn_server (conn_at k p))"
    unfolding update_binds_def by blast
  from login_pool_statement [OF assms(1) args] obtain s where
    s: "pool_GetPreparedStatement LOGIN_UPD_LOGONPROOF p = Ret s" "ps_conn s = None"
      "set_data_from 0 (update_params e) (ps_stmt s) = Ret (login_stmt LOGIN_UPD_LOGONPROOF (update_params e))"
    by blast
  have "s\<lparr>ps_stmt := login_stmt LOGIN_UPD_LOGONPROOF (update_params e)\<rparr> =
      \<lparr>ps_stmt = login_stmt LOGIN_UPD_LOGONPROOF (update_params e), ps_conn = None\<rparr>"
    using s(2) by (cases s) simp
  then have "DirectExecute_stmt libs (s\<lparr>ps_stmt := login_stmt LOGIN_UPD_LOGONPROOF (update_params e)\<rparr>) p = Some (Ret p')"
    by (simp only: p'(1))
  then have "update_account_db libs e p = Some (Ret p')"
    using s by (simp add: update_account_db_def)
  with p' show ?thesis by (intro exI [of _ p']) (simp add: serves_def account_log_def)
qed

subsection \<open>The handler on the pool and on the table\<close>

text \<open>The handler's environment with the table in place of the database.\<close>

definition on_table :: "(string \<Rightarrow> (uint32 \<times> account_row) option) \<Rightarrow> logon_env \<Rightarrow> logon_env" where
  "on_table accounts env = env\<lparr>select_account := \<lambda>login. map_option snd (accounts login)\<rparr>"

lemma same_account_credentials:
  assumes "same_account a b"
  shows "map_option credentials (map_option snd a) = map_option credentials (map_option snd b)"
proof (cases a)
  case (Some x)
  with assms obtain y where "b = Some y" "snd x = (snd y)\<lparr>row_last_ip := row_last_ip (snd x)\<rparr>"
    by (auto simp: same_account_def)
  moreover from this(2) have "credentials (snd x) = credentials ((snd y)\<lparr>row_last_ip := row_last_ip (snd x)\<rparr>)" by simp
  then have "credentials (snd x) = credentials (snd y)" by (simp add: credentials_def)
  ultimately show ?thesis using Some by simp
qed (use assms in \<open>simp add: same_account_def\<close>)

text \<open>The pool as such a database, as long as it serves: its locks and its library stay.\<close>

definition serving :: "nat \<Rightarrow> libs \<Rightarrow> bool list \<Rightarrow> (string \<Rightarrow> (uint32 \<times> account_row) option) \<Rightarrow> pool \<Rightarrow> bool" where
  "serving k libs ls accounts p \<longleftrightarrow> login_pool k p \<and> locks p = ls \<and> account_server (lib_at libs k p) accounts"

interpretation pool_db: account_database "select_account_db L libs" "update_account_db libs" "serving k libs ls accounts"
  "\<lambda>login. map_option snd (accounts login)" "account_log k" update_binds
proof
  fix p login
  assume good: "serving k libs ls accounts p"
  with select_account_steady [of k p libs accounts L login] same_account_credentials
  show "\<exists>row p'. select_account_db L libs login p = Some (Ret (row, p')) \<and> serving k libs ls accounts p' \<and>
      account_log k p' = account_log k p \<and>
      map_option credentials row = map_option credentials (map_option snd (accounts login))"
    by (fastforce simp: serving_def serves_def)
  fix e
  assume "is_update e"
  with good update_account_steady [of k p libs e]
  show "\<exists>p'. update_account_db libs e p = Some (Ret p') \<and> serving k libs ls accounts p' \<and>
      account_log k p' = account_log k p @ [update_binds e]"
    by (auto simp: serving_def serves_def account_server_def)
qed

lemma conn_run_db_table:
  assumes "login_pool k p" and "account_server (lib_at libs k p) accounts"
  shows "case conn_run (map (apfst (on_table accounts)) rs) c of
      Crash x \<Rightarrow> conn_run_db L libs rs c p = Some (Crash x)
    | Ret c' \<Rightarrow> \<exists>p'. conn_run_db L libs rs c p = Some (Ret (c', p')) \<and> login_pool k p' \<and> locks p' = locks p \<and>
        account_log k p' = account_log k p @ map update_binds (account_updates c c')"
proof -
  have tab: "on_table accounts = select_account_update (\<lambda>_ login. map_option snd (accounts login))"
    by (rule ext) (simp add: on_table_def)
  have "serving k libs (locks p) accounts p" using assms by (simp add: serving_def)
  from pool_db.run_on_accounts [OF this, where rs = rs and c = c and L = L] show ?thesis
    unfolding tab by (auto simp: conn_run_db_def serving_def split: outcome.splits)
qed

subsection \<open>A pool that was prepared\<close>

lemma login_sql_shape: "c_stmts c = login_stmts IDX_SYNCH \<Longrightarrow> c_open c \<Longrightarrow> login_conn c"
  by (auto simp: login_conn_def login_stmts_def clean_stmt_def my_stmt_new_def my_stmt_ok_def bind_zero_def list_all_iff)

lemma prepared_login_pool:
  assumes "p_preparedSize p = [0, 0, 1, 5]" and "p_synch p \<noteq> []" and "length (p_synch p) \<le> 255"
    and "\<forall>x \<in> set (p_synch p). prepared_conn IDX_SYNCH (snd x)"
  shows "\<exists>k. login_pool k p \<and> k < length (p_synch p)"
proof -
  have c: "prepared_conn IDX_SYNCH (conn_at i p)" if "i < length (p_synch p)" for i
    using assms(4) that by (simp add: conn_at_def)
  have "is_free (p_synch p) 0" using c [of 0] assms(2) by (simp add: conn_at_def prepared_conn_def)
  then have "free_order p \<noteq> []" by (simp add: free_order_def)
  then obtain k ks where o: "free_order p = k # ks" by (cases "free_order p") auto
  then have "GetFreeConnection p = Some (Ret (k, lock_at k p))" using assms(2,3) by (simp add: GetFreeConnection_eq)
  with locks_free [OF this assms(3)] have k: "k < length (p_synch p)" by simp
  have "login_conn (conn_at k p)" using c [OF k] by (simp add: prepared_conn_def login_sql_shape)
  with assms o k show ?thesis by (auto simp: login_pool_def)
qed

subsection \<open>A server to try it on\<close>

text \<open>The accounts by name; the name is read back from the last call.\<close>

definition sample_accounts :: "string \<Rightarrow> (uint32 \<times> account_row) option" where
  "sample_accounts login = (if login = ''TEST'' then Some (1, sample_row) else None)"

definition asked_name :: "lib_call list \<Rightarrow> string" where
  "asked_name tr =
     (case last tr of EvExec m r \<Rightarrow> (case ms_bind m of b # bs \<Rightarrow> chars (the (bind_buffer b)) | [] \<Rightarrow> []) | _ \<Rightarrow> [])"

definition table_lib :: mysql where
  "table_lib = counting_lib\<lparr>lib_stmt_result := \<lambda>tr. (account_result 40 (\<lambda>_. 0) (sample_accounts (asked_name tr)), 1, 5)\<rparr>"

lemma sample_row_fits: "account_fits (1, sample_row)"
proof -
  have "length (row_verifier sample_row) = 32"
    using sample_row_verifier calculate_verifier_length [OF ossl_ref_ok] by blast
  moreover have "row_username sample_row = ''TEST''" "row_last_ip sample_row = ''127.0.0.1''" "row_salt sample_row = replicate 32 1"
    by (simp_all add: sample_row_def)
  ultimately show ?thesis by (simp add: account_fits_def account_values_def)
qed

lemma table_lib_facts: "account_server table_lib sample_accounts" "lets_in table_lib" "counts_params table_lib"
proof -
  have n: "asked_name (tr @ [EvExec (bound_stmt challenge_sql [PString login]) Okay]) = login" for tr login
    by (simp add: asked_name_def bound_stmt_def bind_param_def sized_param_def)
  have "same_account (sample_accounts login) (sample_accounts login)" for login
    using sample_row_fits by (simp add: same_account_def sample_accounts_def)
  moreover have "executes table_lib" by (simp add: executes_def table_lib_def counting_lib_def sample_lib_def)
  ultimately show "account_server table_lib sample_accounts"
    unfolding account_server_def
    by (intro conjI allI exI [of _ 40] exI [of _ "\<lambda>_. 0"] exI [of _ "sample_accounts _"] exI [of _ 1])
      (simp_all add: table_lib_def n)
  show "lets_in table_lib" "counts_params table_lib"
    using counting_lib_facts by (simp_all add: table_lib_def lets_in_def counts_params_def)
qed

definition sample_login_pool :: pool where
  "sample_login_pool = pool_empty\<lparr>p_preparedSize := [0, 0, 1, 5],
     p_synch := [(0, sample_conn\<lparr>c_stmts := login_stmts IDX_SYNCH\<rparr>)]\<rparr>"

lemma sample_login_pool_facts: "login_pool 0 sample_login_pool" "locks sample_login_pool = [False]"
  "lib_at (\<lambda>_. table_lib) 0 sample_login_pool = table_lib" "account_log 0 sample_login_pool = []"
proof -
  have "login_conn (conn_at 0 sample_login_pool)"
    by (rule login_sql_shape) (simp_all add: conn_at_def sample_login_pool_def sample_conn_def db_conn_new_def)
  then show "login_pool 0 sample_login_pool"
    by (simp add: login_pool_def sample_login_pool_def free_order_def sample_conn_def db_conn_new_def)
  show "locks sample_login_pool = [False]" "lib_at (\<lambda>_. table_lib) 0 sample_login_pool = table_lib"
    "account_log 0 sample_login_pool = []"
    by (simp_all add: locks_def sample_login_pool_def sample_conn_def db_conn_new_def lib_at_def account_log_def conn_at_def
        conn_server_def executed_def server_empty_def)
qed

subsection \<open>Property\<close>

text \<open>
  C8. The service on its database is the service on a table of accounts. On a pool with a free
  synchronous connection, against a server that answers the query for a name with the account of
  that name, every run of reads of a connection comes back and does exactly what it does when the
  handler is given the table: it crashes where that does, and otherwise leaves the same connection,
  the locks as they were, and on the server one update for each login, in order, with the session
  key, the address, the locale, the system and the name as its five values.
\<close>

theorem service_on_database:
  assumes "login_pool k p" and "account_server (lib_at libs k p) accounts"
  shows "case conn_run (map (apfst (on_table accounts)) rs) c of
      Crash x \<Rightarrow> conn_run_db L libs rs c p = Some (Crash x)
    | Ret c' \<Rightarrow> \<exists>p'. conn_run_db L libs rs c p = Some (Ret (c', p')) \<and> login_pool k p' \<and> locks p' = locks p \<and>
        account_log k p' = account_log k p @ map update_binds (account_updates c c')"
  using conn_run_db_table [OF assms, where rs = rs and c = c and L = L] by (auto split: outcome.splits)

theorem service_on_database_witness:
  "\<exists>c1 p1. conn_run_db (undefined :: int float_lib) (\<lambda>_. table_lib)
      [(sample_env, ReadOk (encode_challenge_c sample_challenge))] (conn_start (conn_new (replicate 1024 0) [] [])) sample_login_pool =
      Some (Ret (c1, p1)) \<and> locks p1 = [False] \<and> account_log 0 p1 = []"
proof -
  let ?c = "conn_start (conn_new (replicate 1024 0) [] [])" and ?r = "ReadOk (encode_challenge_c sample_challenge)"
  have row: "select_account (on_table sample_accounts sample_env) (chars (cc_I sample_challenge)) = Some sample_row"
    by (simp add: on_table_def sample_accounts_def sample_facts)
  have salt: "length (row_salt sample_row) = 32"
    "list_all (\<lambda>b. b = 0) (dropWhile (\<lambda>b. b \<noteq> 0) (row_salt sample_row))"
    using sample_salt by (simp_all add: sample_facts)
  have lib: "lib (on_table sample_accounts sample_env) = ossl_ref" by (simp add: on_table_def sample_facts)
  have "\<not> peer_gone (on_table sample_accounts sample_env)" by (simp add: on_table_def sample_facts)
  from logon_session_run [OF ossl_ref_ok lib lib sample_facts(1,2) row salt sample_row_verifier this, of "replicate 1024 0" "[]" "[]"]
  obtain c1 reply where c1: "handle_read (on_table sample_accounts sample_env) ?c ?r = Ret c1" "events c1 = [Sent reply]"
    by blast
  have lib: "account_server (lib_at (\<lambda>_. table_lib) 0 sample_login_pool) sample_accounts"
    using table_lib_facts(1) by (simp only: sample_login_pool_facts(3))
  from service_on_database [OF sample_login_pool_facts(1) lib, where rs = "[(sample_env, ?r)]" and c = ?c and L = "undefined :: int float_lib"]
  obtain p1 where "conn_run_db (undefined :: int float_lib) (\<lambda>_. table_lib) [(sample_env, ?r)] ?c sample_login_pool = Some (Ret (c1, p1))"
    "locks p1 = locks sample_login_pool"
    "account_log 0 p1 = account_log 0 sample_login_pool @ map update_binds (account_updates ?c c1)"
    using c1(1) by auto
  moreover have "account_updates ?c c1 = []" using c1(2) by (simp add: account_updates_def conn_start_def conn_new_def async_read_def)
  ultimately show ?thesis using sample_login_pool_facts(2,4) by (intro exI [of _ c1] exI [of _ p1]) simp
qed

end
