(* ===== verification/Loader.thy ===== *)
theory Loader
  imports Login_Db
begin

section \<open>Starting and stopping the program (DatabaseLoader.h/.cpp, main.cpp)\<close>

text \<open>
  The loader opens the databases that were added, then prepares their statements, and closes what it
  had opened when one of them fails. Its closures are kept as data: the entry of a database stands
  for the lambda that \<open>AddDatabase\<close> pushed for it. A database is its name and the number of its pool;
  \<open>libs i\<close> is the client library as pool \<open>i\<close> sees it. Sleeps and messages are left out.
\<close>

subsection \<open>The loader\<close>

type_synonym database = "string \<times> nat"

record loader =
  ld_open :: "database list"
  ld_prepare :: "database list"
  ld_close :: "nat list"
  ld_pools :: "nat \<Rightarrow> pool"

definition DatabaseLoader :: "(nat \<Rightarrow> pool) \<Rightarrow> loader" where
  "DatabaseLoader pools = \<lparr>ld_open = [], ld_prepare = [], ld_close = [], ld_pools = pools\<rparr>"

definition AddDatabase :: "nat \<Rightarrow> string \<Rightarrow> loader \<Rightarrow> loader" where
  "AddDatabase i name l = l\<lparr>ld_open := ld_open l @ [(name, i)], ld_prepare := ld_prepare l @ [(name, i)]\<rparr>"

text \<open>
  The loop that tries again, with the number of attempts that are left; the counter and the bound
  are both \<open>uint8\<close>, so it does not wrap.
\<close>

primrec reconnect_loop :: "libs \<Rightarrow> nat \<Rightarrow> errno \<Rightarrow> pool \<Rightarrow> (errno \<times> pool) outcome" where
  "reconnect_loop libs 0 error p = Ret (error, p)"
| "reconnect_loop libs (Suc n) error p =
     bind_outcome (pool_Open libs p) (\<lambda>(error, p).
       if error = CR_CONNECTION_ERROR then reconnect_loop libs n error p else Ret (error, p))"

definition option_uint8 :: "string \<Rightarrow> int \<Rightarrow> config \<Rightarrow> uint8" where
  "option_uint8 name dflt cfg = word_of_int (fst (GetOption_int ty_uint8 name dflt True cfg))"

definition open_pool :: "libs \<Rightarrow> config \<Rightarrow> pool \<Rightarrow> (errno \<times> pool) outcome" where
  "open_pool libs cfg p =
     bind_outcome (pool_Open libs p) (\<lambda>(error, p).
       if error = CR_CONNECTION_ERROR then
         reconnect_loop libs (unat (option_uint8 ''Database.Reconnect.Attempts'' 20 cfg)) error p
       else Ret (error, p))"

text \<open>The lambda in \<open>_open\<close>: whether it succeeded; the closer is pushed only then.\<close>

definition run_open :: "(nat \<Rightarrow> libs) \<Rightarrow> config \<Rightarrow> database \<Rightarrow> loader \<Rightarrow> (bool \<times> loader) outcome" where
  "run_open libs cfg d l =
     (case d of (name, i) \<Rightarrow>
        (let dbString = fst (GetOption_string (name @ ''DatabaseInfo'') [] True cfg) in
         if dbString = [] then Ret (False, l)
         else
           let asyncThreads = option_uint8 (name @ ''Database.WorkerThreads'') 1 cfg in
           if asyncThreads < 1 \<or> asyncThreads > 32 then Ret (False, l)
           else
             let synchThreads = option_uint8 (name @ ''Database.SynchThreads'') 1 cfg;
                 p = SetConnectionInfo dbString asyncThreads synchThreads (ld_pools l i)
             in bind_outcome (open_pool (libs i) cfg p) (\<lambda>(error, p).
                  let l1 = l\<lparr>ld_pools := (ld_pools l)(i := p)\<rparr> in
                  if error \<noteq> NoErrno then Ret (False, l1)
                  else Ret (True, l1\<lparr>ld_close := i # ld_close l1\<rparr>))))"

text \<open>The lambda in \<open>_prepare\<close>.\<close>

definition run_prepare :: "(nat \<Rightarrow> libs) \<Rightarrow> database \<Rightarrow> loader \<Rightarrow> (bool \<times> loader) outcome" where
  "run_prepare libs d l =
     (case d of (name, i) \<Rightarrow>
        bind_outcome (pool_PrepareStatements (libs i) (ld_pools l i)) (\<lambda>(ok, p).
          Ret (ok, l\<lparr>ld_pools := (ld_pools l)(i := p)\<rparr>)))"

text \<open>The closers from the top of the stack.\<close>

definition close_pool :: "nat \<Rightarrow> loader \<Rightarrow> loader" where
  "close_pool i l = l\<lparr>ld_pools := (ld_pools l)(i := pool_Close (ld_pools l i))\<rparr>"

definition close_all :: "loader \<Rightarrow> loader" where
  "close_all l = (fold close_pool (ld_close l) l)\<lparr>ld_close := []\<rparr>"

text \<open>\<open>Process\<close>: what is left in the queue, and the loader; the front is popped only on success.\<close>

primrec process_queue ::
  "(database \<Rightarrow> loader \<Rightarrow> (bool \<times> loader) outcome) \<Rightarrow> database list \<Rightarrow> loader \<Rightarrow> (bool \<times> database list \<times> loader) outcome" where
  "process_queue run [] l = Ret (True, [], l)"
| "process_queue run (d # ds) l =
     bind_outcome (run d l) (\<lambda>(ok, l).
       if ok then process_queue run ds l else Ret (False, d # ds, close_all l))"

definition OpenDatabases :: "(nat \<Rightarrow> libs) \<Rightarrow> config \<Rightarrow> loader \<Rightarrow> (bool \<times> loader) outcome" where
  "OpenDatabases libs cfg l =
     bind_outcome (process_queue (run_open libs cfg) (ld_open l) l) (\<lambda>(ok, left, l). Ret (ok, l\<lparr>ld_open := left\<rparr>))"

definition loader_PrepareStatements :: "(nat \<Rightarrow> libs) \<Rightarrow> loader \<Rightarrow> (bool \<times> loader) outcome" where
  "loader_PrepareStatements libs l =
     bind_outcome (process_queue (run_prepare libs) (ld_prepare l) l) (\<lambda>(ok, left, l). Ret (ok, l\<lparr>ld_prepare := left\<rparr>))"

definition Load :: "(nat \<Rightarrow> libs) \<Rightarrow> config \<Rightarrow> loader \<Rightarrow> (bool \<times> loader) outcome" where
  "Load libs cfg l =
     bind_outcome (OpenDatabases libs cfg l) (\<lambda>(ok, l).
       if \<not> ok then Ret (False, l) else loader_PrepareStatements libs l)"

subsection \<open>The program\<close>

text \<open>The one pool of the program is \<open>LoginDatabase\<close>, number 0 of the loader.\<close>

definition StartDB :: "libs \<Rightarrow> config \<Rightarrow> string \<Rightarrow> pool \<Rightarrow> (bool \<times> pool) outcome" where
  "StartDB libs cfg name p =
     (if fst (GetOption_string (name @ ''DatabaseInfo'') [] True cfg) = [] then Ret (False, p)
      else
        bind_outcome (Load (\<lambda>_. libs) cfg (AddDatabase 0 ''Login'' (DatabaseLoader (\<lambda>_. p)))) (\<lambda>(ok, l).
          Ret (ok, ld_pools l 0)))"

definition StopDB :: "pool \<Rightarrow> pool" where
  "StopDB p = pool_Close p"

definition POOL_CONFIG :: string where "POOL_CONFIG = ''logon.conf''"

text \<open>
  \<open>main\<close>, with the configuration files, the directory they are in, and the connections that are
  accepted until a key is pressed: the exit code and the pool at the end. \<open>listens port\<close>: the acceptor can be
  bound to the port and set to listen. The locals are destroyed in reverse order, so the service goes
  before the handle whose deleter is \<open>StopDB\<close>.
\<close>

definition main_run ::
  "libs \<Rightarrow> files \<Rightarrow> (int \<Rightarrow> bool) \<Rightarrow> string \<Rightarrow> string list \<Rightarrow> (bool \<times> tcp_conn) list \<Rightarrow> pool \<Rightarrow> (int \<times> pool) outcome" where
  "main_run libs fs listens confDir args accepted p =
     (let cfg0 = Configure (GetConfigPath confDir @ POOL_CONFIG) args [] config_new;
          (loaded, cfg) = LoadAppConfigs fs False cfg0
      in if \<not> loaded then Ret (1, p)
         else
           bind_outcome (StartDB libs cfg ''Login'' p) (\<lambda>(started, p).
             if \<not> started then Ret (1, p)
             else
               let port = fst (GetOption_int ty_int32 ''ServerPort'' 1234 True cfg) in
               if port < 0 \<or> port > 0xFFFF then Ret (1, StopDB p)
               else
                 let bindIp = fst (GetOption_string ''BindIP'' ''0.0.0.0'' True cfg)
                 in bind_outcome (service_new (listens port) bindIp port 1) (\<lambda>mySer.
                    bind_outcome (service_stop (accept_all accepted (service_start mySer))) (\<lambda>mySer.
                    bind_outcome (service_destroy mySer) (\<lambda>_. Ret (0, StopDB p))))))"

subsection \<open>Opening again\<close>

lemma reconnect_loop_effect:
  assumes "reconnect_loop libs n error p = Ret (NoErrno, p')" and "error \<noteq> NoErrno"
  shows "p_async_threads p' = p_async_threads p \<and> (q_shutdown (p_queue p) \<longrightarrow> q_shutdown (p_queue p')) \<and>
    (q_shutdown (p_queue p') \<or>
     (\<exists>m. 1 \<le> m \<and> m \<le> n \<and> length (p_async p') = length (p_async p) + m * unat (p_async_threads p)))"
  using assms
proof (induction n arbitrary: error p)
  case (Suc n)
  from Suc.prems(1) obtain e p1 where o: "pool_Open libs p = Ret (e, p1)"
    and c: "(if e = CR_CONNECTION_ERROR then reconnect_loop libs n e p1 else Ret (e, p1)) = Ret (NoErrno, p')"
    by auto
  note eff = pool_Open_effect [OF o]
  show ?case
  proof (cases "e = CR_CONNECTION_ERROR")
    case False
    then have "p' = p1" "e = NoErrno" using c by simp_all
    with eff show ?thesis by (intro conjI disjI2 exI [of _ 1]) simp_all
  next
    case True
    then have "reconnect_loop libs n e p1 = Ret (NoErrno, p')" "e \<noteq> NoErrno" using c by simp_all
    from Suc.IH [OF this] have ih: "p_async_threads p' = p_async_threads p1"
      "q_shutdown (p_queue p1) \<longrightarrow> q_shutdown (p_queue p')"
      "q_shutdown (p_queue p') \<or>
        (\<exists>m. 1 \<le> m \<and> m \<le> n \<and> length (p_async p') = length (p_async p1) + m * unat (p_async_threads p1))"
      by simp_all
    have step: "length (p_async p1) = length (p_async p) + unat (p_async_threads p)" if "\<not> q_shutdown (p_queue p')"
      using eff True ih(2) that by auto
    have "\<exists>m. 1 \<le> m \<and> m \<le> Suc n \<and> length (p_async p') = length (p_async p) + m * unat (p_async_threads p)"
      if "\<not> q_shutdown (p_queue p')"
    proof -
      from ih(3) that obtain m where "1 \<le> m" "m \<le> n" "length (p_async p') = length (p_async p1) + m * unat (p_async_threads p1)"
        by blast
      with step [OF that] eff show ?thesis by (intro exI [of _ "Suc m"]) simp
    qed
    moreover have "p_async_threads p' = p_async_threads p" using ih(1) eff by simp
    moreover have "q_shutdown (p_queue p) \<longrightarrow> q_shutdown (p_queue p')" using ih(2) eff by blast
    ultimately show ?thesis by blast
  qed
qed simp

subsection \<open>Closing\<close>

lemma cancel_queue_lists [simp]:
  "p_async (pool_Close p) = []" "p_synch (pool_Close p) = []"
  by (simp_all add: pool_Close_def clear_connections_def drop_connections_def set_connections_def cancel_queue_def
      pcq_Cancel_def conns_of_def)

text \<open>A pool all of whose connections are gone; when it had asynchronous ones, its queue is shut down.\<close>

lemma pool_Close_queue: "p_async p \<noteq> [] \<Longrightarrow> q_shutdown (p_queue (pool_Close p)) \<and> q_items (p_queue (pool_Close p)) = []"
  by (simp add: pool_Close_def clear_connections_def drop_connections_def set_connections_def cancel_queue_def
      pcq_Cancel_def conns_of_def)

subsection \<open>How the loader fails\<close>

definition add_databases :: "database list \<Rightarrow> loader \<Rightarrow> loader" where
  "add_databases ds l = fold (\<lambda>(name, i). AddDatabase i name) ds l"

lemma add_databases_fields:
  "add_databases ds l = l\<lparr>ld_open := ld_open l @ ds, ld_prepare := ld_prepare l @ ds\<rparr>"
  by (induction ds arbitrary: l) (auto simp: add_databases_def AddDatabase_def)

text \<open>The options of a database, and its pool once they are taken over.\<close>

definition bad_options :: "string \<Rightarrow> config \<Rightarrow> bool" where
  "bad_options name cfg \<longleftrightarrow> fst (GetOption_string (name @ ''DatabaseInfo'') [] True cfg) = [] \<or>
     option_uint8 (name @ ''Database.WorkerThreads'') 1 cfg \<notin> {1..32}"

definition configured :: "string \<Rightarrow> config \<Rightarrow> pool \<Rightarrow> pool" where
  "configured name cfg p = SetConnectionInfo (fst (GetOption_string (name @ ''DatabaseInfo'') [] True cfg))
     (option_uint8 (name @ ''Database.WorkerThreads'') 1 cfg) (option_uint8 (name @ ''Database.SynchThreads'') 1 cfg) p"

lemma run_open_eq:
  "run_open libs cfg (name, i) l =
     (if bad_options name cfg then Ret (False, l)
      else bind_outcome (open_pool (libs i) cfg (configured name cfg (ld_pools l i))) (\<lambda>(error, p).
        let l1 = l\<lparr>ld_pools := (ld_pools l)(i := p)\<rparr> in
        if error \<noteq> NoErrno then Ret (False, l1) else Ret (True, l1\<lparr>ld_close := i # ld_close l1\<rparr>)))"
proof -
  have "bad_options name cfg \<longleftrightarrow> fst (GetOption_string (name @ ''DatabaseInfo'') [] True cfg) = [] \<or>
      option_uint8 (name @ ''Database.WorkerThreads'') 1 cfg < 1 \<or> option_uint8 (name @ ''Database.WorkerThreads'') 1 cfg > 32"
    by (auto simp: bad_options_def not_le)
  then show ?thesis by (simp add: run_open_def configured_def Let_def)
qed

lemma close_all_fields:
  assumes "distinct (ld_close l)"
  shows "ld_close (close_all l) = []" "ld_open (close_all l) = ld_open l" "ld_prepare (close_all l) = ld_prepare l"
    "ld_pools (close_all l) i = (if i \<in> set (ld_close l) then pool_Close (ld_pools l i) else ld_pools l i)"
proof -
  have fold: "ld_open (fold close_pool is l) = ld_open l \<and> ld_prepare (fold close_pool is l) = ld_prepare l \<and>
      (distinct is \<longrightarrow> ld_pools (fold close_pool is l) i =
        (if i \<in> set is then pool_Close (ld_pools l i) else ld_pools l i))" for "is" l
    by (induction "is" arbitrary: l) (auto simp: close_pool_def)
  then show "ld_close (close_all l) = []" "ld_open (close_all l) = ld_open l" "ld_prepare (close_all l) = ld_prepare l"
    "ld_pools (close_all l) i = (if i \<in> set (ld_close l) then pool_Close (ld_pools l i) else ld_pools l i)"
    using assms by (simp_all add: close_all_def)
qed

lemma later_index:
  assumes "ds = before @ (name, j) # rest" and "distinct (map snd ds)" and "(n, i) \<in> set rest"
  shows "i \<notin> snd ` set before \<and> i \<noteq> j \<and> i \<in> set (map snd ds)"
proof -
  have "i \<in> snd ` set rest" using assms(3) by force
  with assms(1,2) show ?thesis by auto
qed

lemma opening_ends:
  assumes "process_queue (run_open libs cfg) ds l = Ret (ok, left, l')" and "distinct (map snd ds)"
    and "distinct (ld_close l)" and "set (map snd ds) \<inter> set (ld_close l) = {}"
  shows "if ok
    then left = [] \<and> ld_close l' = rev (map snd ds) @ ld_close l \<and> ld_prepare l' = ld_prepare l \<and>
      (\<forall>(n, i) \<in> set ds. \<not> bad_options n cfg \<and> open_pool (libs i) cfg (configured n cfg (ld_pools l i)) = Ret (NoErrno, ld_pools l' i)) \<and>
      (\<forall>i. i \<notin> snd ` set ds \<longrightarrow> ld_pools l' i = ld_pools l i)
    else \<exists>before name j rest. ds = before @ (name, j) # rest \<and> left = (name, j) # rest \<and> ld_close l' = [] \<and>
      (\<forall>(n, i) \<in> set before. \<not> bad_options n cfg \<and> (\<exists>q. open_pool (libs i) cfg (configured n cfg (ld_pools l i)) = Ret (NoErrno, q) \<and>
        ld_pools l' i = pool_Close q)) \<and>
      (if bad_options name cfg then ld_pools l' j = ld_pools l j
       else \<exists>e. e \<noteq> NoErrno \<and> open_pool (libs j) cfg (configured name cfg (ld_pools l j)) = Ret (e, ld_pools l' j)) \<and>
      (\<forall>i. i \<notin> snd ` set before \<and> i \<noteq> j \<longrightarrow>
        ld_pools l' i = (if i \<in> set (ld_close l) then pool_Close (ld_pools l i) else ld_pools l i))"
  using assms
proof (induction ds arbitrary: l)
  case Nil
  then show ?case by simp
next
  case (Cons d ds)
  obtain name j where d: "d = (name, j)" by (cases d)
  have j: "j \<notin> set (ld_close l)" "j \<notin> set (map snd ds)" using Cons.prems by (simp_all add: d)
  note close = close_all_fields
  show ?case
  proof (cases "bad_options name cfg")
    case True
    then have "ok = False" "left = d # ds" "l' = close_all l"
      using Cons.prems(1) by (simp_all add: d run_open_eq)
    with True j close [OF Cons.prems(3)] show ?thesis by (simp add: d)
  next
    case opts: False
    obtain e q where q: "open_pool (libs j) cfg (configured name cfg (ld_pools l j)) = Ret (e, q)"
      using Cons.prems(1) opts by (auto simp: d run_open_eq)
    let ?l1 = "l\<lparr>ld_pools := (ld_pools l)(j := q)\<rparr>"
    show ?thesis
    proof (cases "e = NoErrno")
      case False
      then have "ok = False" "left = d # ds" "l' = close_all ?l1"
        using Cons.prems(1) opts q by (simp_all add: d run_open_eq)
      with False opts q j close [of ?l1] Cons.prems(3) show ?thesis by (simp add: d)
    next
      case True
      let ?l2 = "?l1\<lparr>ld_close := j # ld_close l\<rparr>"
      have run: "process_queue (run_open libs cfg) ds ?l2 = Ret (ok, left, l')"
        using Cons.prems(1) opts q True by (simp add: d run_open_eq)
      note ih = Cons.IH [OF run]
      show ?thesis
      proof (cases ok)
        case ok: True
        with ih Cons.prems(2-4) j have "left = []" "ld_close l' = rev (map snd ds) @ j # ld_close l" "ld_prepare l' = ld_prepare l"
          "\<forall>(n, i) \<in> set ds. \<not> bad_options n cfg \<and> open_pool (libs i) cfg (configured n cfg (ld_pools ?l2 i)) = Ret (NoErrno, ld_pools l' i)"
          "\<forall>i. i \<notin> snd ` set ds \<longrightarrow> ld_pools l' i = ld_pools ?l2 i"
          by (auto simp: d)
        note hyps = this
        have "\<forall>(n, i) \<in> set ds. \<not> bad_options n cfg \<and> open_pool (libs i) cfg (configured n cfg (ld_pools l i)) = Ret (NoErrno, ld_pools l' i)"
        proof clarify
          fix n i assume i: "(n, i) \<in> set ds"
          then have "i \<noteq> j" using j(2) by force
          with bspec [OF hyps(4) i] show "\<not> bad_options n cfg \<and>
            open_pool (libs i) cfg (configured n cfg (ld_pools l i)) = Ret (NoErrno, ld_pools l' i)" by simp
        qed
        moreover have "ld_pools l' j = q" "\<forall>i. i \<notin> insert j (snd ` set ds) \<longrightarrow> ld_pools l' i = ld_pools l i"
          using hyps(5) j(2) by simp_all
        ultimately show ?thesis using ok opts q True hyps(1-3) by (simp add: d)
      next
        case fail: False
        with ih Cons.prems(2-4) j obtain before n k rest where
          "ds = before @ (n, k) # rest" "left = (n, k) # rest" "ld_close l' = []"
          "\<forall>(n, i) \<in> set before. \<not> bad_options n cfg \<and> (\<exists>q. open_pool (libs i) cfg (configured n cfg (ld_pools ?l2 i)) = Ret (NoErrno, q) \<and>
            ld_pools l' i = pool_Close q)"
          "if bad_options n cfg then ld_pools l' k = ld_pools ?l2 k
           else \<exists>e. e \<noteq> NoErrno \<and> open_pool (libs k) cfg (configured n cfg (ld_pools ?l2 k)) = Ret (e, ld_pools l' k)"
          "\<forall>i. i \<notin> snd ` set before \<and> i \<noteq> k \<longrightarrow>
            ld_pools l' i = (if i \<in> set (ld_close ?l2) then pool_Close (ld_pools ?l2 i) else ld_pools ?l2 i)"
          by (auto simp: d)
        note hyps = this
        have ne: "k \<noteq> j" "j \<notin> snd ` set before" using hyps(1) j(2) by auto
        have "ld_pools l' j = pool_Close q" using hyps(6) ne by auto
        moreover have "\<forall>(n, i) \<in> set before. \<not> bad_options n cfg \<and> (\<exists>q. open_pool (libs i) cfg (configured n cfg (ld_pools l i)) = Ret (NoErrno, q) \<and>
            ld_pools l' i = pool_Close q)"
          using hyps(4) ne(2) by force
        moreover have "if bad_options n cfg then ld_pools l' k = ld_pools l k
           else \<exists>e. e \<noteq> NoErrno \<and> open_pool (libs k) cfg (configured n cfg (ld_pools l k)) = Ret (e, ld_pools l' k)"
          using hyps(5) ne(1) by (cases "bad_options n cfg") simp_all
        moreover have "\<forall>i. i \<notin> insert j (snd ` set before) \<and> i \<noteq> k \<longrightarrow>
            ld_pools l' i = (if i \<in> set (ld_close l) then pool_Close (ld_pools l i) else ld_pools l i)"
          using hyps(6) by simp
        ultimately show ?thesis using fail opts q True hyps(1-3)
          unfolding if_not_P [OF fail]
          by (intro exI [of _ "d # before"] exI [of _ n] exI [of _ k] exI [of _ rest]) (simp add: d)
      qed
    qed
  qed
qed

lemma run_prepare_eq:
  "run_prepare libs (name, i) l =
     bind_outcome (pool_PrepareStatements (libs i) (ld_pools l i)) (\<lambda>(ok, p).
       Ret (ok, l\<lparr>ld_pools := (ld_pools l)(i := p)\<rparr>))"
  by (simp add: run_prepare_def)

lemma preparing_fails:
  assumes "process_queue (run_prepare libs) ds l = Ret (False, left, l')" and "distinct (map snd ds)"
    and "distinct (ld_close l)" and "set (map snd ds) \<subseteq> set (ld_close l)"
  shows "\<exists>before name j rest. ds = before @ (name, j) # rest \<and> ld_close l' = [] \<and> ld_open l' = ld_open l \<and>
      (\<forall>(n, i) \<in> set before. \<exists>q. pool_PrepareStatements (libs i) (ld_pools l i) = Ret (True, q) \<and> ld_pools l' i = pool_Close q) \<and>
      (\<exists>q. pool_PrepareStatements (libs j) (ld_pools l j) = Ret (False, q) \<and> ld_pools l' j = pool_Close q) \<and>
      (\<forall>i \<in> set (ld_close l). i \<notin> snd ` set before \<and> i \<noteq> j \<longrightarrow> ld_pools l' i = pool_Close (ld_pools l i))"
  using assms
proof (induction ds arbitrary: l)
  case (Cons d ds)
  obtain name j where d: "d = (name, j)" by (cases d)
  have j: "j \<in> set (ld_close l)" "j \<notin> set (map snd ds)" using Cons.prems by (simp_all add: d)
  from Cons.prems(1) obtain ok q where q: "pool_PrepareStatements (libs j) (ld_pools l j) = Ret (ok, q)"
    by (auto simp: d run_prepare_eq)
  let ?l1 = "l\<lparr>ld_pools := (ld_pools l)(j := q)\<rparr>"
  show ?case
  proof (cases ok)
    case False
    then have "l' = close_all ?l1" using Cons.prems(1) q by (simp add: d run_prepare_eq)
    with False q j close_all_fields [of ?l1] Cons.prems(3) show ?thesis
      by (intro exI [of _ "[]"] exI [of _ name] exI [of _ j] exI [of _ ds]) (simp add: d)
  next
    case True
    then have run: "process_queue (run_prepare libs) ds ?l1 = Ret (False, left, l')"
      using Cons.prems(1) q by (simp add: d run_prepare_eq)
    from Cons.IH [OF run] Cons.prems(2-4) obtain before n k rest where
      ih: "ds = before @ (n, k) # rest" "ld_close l' = []" "ld_open l' = ld_open l"
      "\<forall>(n, i) \<in> set before. \<exists>q. pool_PrepareStatements (libs i) (ld_pools ?l1 i) = Ret (True, q) \<and> ld_pools l' i = pool_Close q"
      "\<exists>q. pool_PrepareStatements (libs k) (ld_pools ?l1 k) = Ret (False, q) \<and> ld_pools l' k = pool_Close q"
      "\<forall>i \<in> set (ld_close l). i \<notin> snd ` set before \<and> i \<noteq> k \<longrightarrow> ld_pools l' i = pool_Close (ld_pools ?l1 i)"
      by (auto simp: d)
    from ih(1) j(2) have ne: "k \<noteq> j" "j \<notin> snd ` set before" by auto
    have "ld_pools l' j = pool_Close q" using ih(6) j ne by auto
    moreover have "\<forall>(n, i) \<in> set before. \<exists>q. pool_PrepareStatements (libs i) (ld_pools l i) = Ret (True, q) \<and> ld_pools l' i = pool_Close q"
      using ih(4) ne(2) by force
    moreover have "\<exists>q. pool_PrepareStatements (libs k) (ld_pools l k) = Ret (False, q) \<and> ld_pools l' k = pool_Close q"
      using ih(5) ne(1) by simp
    moreover have "\<forall>i \<in> set (ld_close l). i \<notin> insert j (snd ` set before) \<and> i \<noteq> k \<longrightarrow> ld_pools l' i = pool_Close (ld_pools l i)"
      using ih(6) by simp
    ultimately show ?thesis using q True ih(1-3)
      by (intro exI [of _ "d # before"] exI [of _ n] exI [of _ k] exI [of _ rest]) (simp add: d)
  qed
qed simp

subsection \<open>The one database of the program\<close>

text \<open>\<open>StartDB\<close> unfolded for its one pool: the two queues have one entry each.\<close>

lemma StartDB_login:
  "StartDB libs cfg ''Login'' p =
    (let dbString = fst (GetOption_string ''LoginDatabaseInfo'' [] True cfg);
         asyncThreads = option_uint8 ''LoginDatabase.WorkerThreads'' 1 cfg;
         synchThreads = option_uint8 ''LoginDatabase.SynchThreads'' 1 cfg
     in if dbString = [] \<or> asyncThreads < 1 \<or> asyncThreads > 32 then Ret (False, p)
        else
          bind_outcome (open_pool libs cfg (SetConnectionInfo dbString asyncThreads synchThreads p)) (\<lambda>(error, p).
            if error \<noteq> NoErrno then Ret (False, p)
            else
              bind_outcome (pool_PrepareStatements libs p) (\<lambda>(ok, p).
                Ret (ok, if ok then p else pool_Close p))))"
proof -
  let ?db = "fst (GetOption_string ''LoginDatabaseInfo'' [] True cfg)"
  let ?as = "option_uint8 ''LoginDatabase.WorkerThreads'' 1 cfg"
  let ?p = "SetConnectionInfo ?db ?as (option_uint8 ''LoginDatabase.SynchThreads'' 1 cfg) p"
  note defs = StartDB_def Load_def OpenDatabases_def loader_PrepareStatements_def AddDatabase_def DatabaseLoader_def
    run_open_def run_prepare_def close_all_def close_pool_def Let_def
  show ?thesis
  proof (cases "?db = [] \<or> ?as < 1 \<or> ?as > 32")
    case True
    then show ?thesis by (auto simp: defs simp del: bind_outcome_eq_Ret_iff)
  next
    case ok: False
    show ?thesis
    proof (cases "open_pool libs cfg ?p")
      case (Crash k)
      with ok show ?thesis by (simp add: defs)
    next
      case (Ret r)
      obtain error q where r: "r = (error, q)" by (cases r)
      show ?thesis
      proof (cases "error = NoErrno")
        case False
        with ok Ret r show ?thesis by (simp add: defs del: bind_outcome_eq_Ret_iff)
      next
        case True
        with ok Ret r show ?thesis
          by (cases "pool_PrepareStatements libs q") (auto simp: defs simp del: bind_outcome_eq_Ret_iff)
      qed
    qed
  qed
qed

text \<open>A database whose servers let the program in, and whose options are as required.\<close>

definition db_ready :: "libs \<Rightarrow> config \<Rightarrow> conn_info \<Rightarrow> bool" where
  "db_ready libs cfg info \<longleftrightarrow> (\<forall>k. lets_in (libs k) \<and> counts_params (libs k)) \<and> tcp_info info \<and>
     fst (GetOption_string ''LoginDatabaseInfo'' [] True cfg) \<noteq> [] \<and>
     MySQLConnectionInfo (fst (GetOption_string ''LoginDatabaseInfo'' [] True cfg)) = info \<and>
     1 \<le> option_uint8 ''LoginDatabase.WorkerThreads'' 1 cfg \<and> option_uint8 ''LoginDatabase.WorkerThreads'' 1 cfg \<le> 32"

lemma StartDB_ready:
  assumes "db_ready libs cfg info"
  shows "\<exists>p. StartDB libs cfg ''Login'' pool_empty = Ret (True, p) \<and>
    length (p_async p) = unat (option_uint8 ''LoginDatabase.WorkerThreads'' 1 cfg) \<and>
    length (p_synch p) = unat (option_uint8 ''LoginDatabase.SynchThreads'' 1 cfg) \<and>
    p_preparedSize p =
      (if option_uint8 ''LoginDatabase.SynchThreads'' 1 cfg = 0 then [0, 0, 0, 0] else [0, 0, 1, 5]) \<and>
    (\<forall>x \<in> set (p_synch p). prepared_conn IDX_SYNCH (snd x))"
proof -
  let ?as = "option_uint8 ''LoginDatabase.WorkerThreads'' 1 cfg"
  let ?ss = "option_uint8 ''LoginDatabase.SynchThreads'' 1 cfg"
  let ?p = "SetConnectionInfo (fst (GetOption_string ''LoginDatabaseInfo'' [] True cfg)) ?as ?ss pool_empty"
  have r: "\<forall>k. lets_in (libs k) \<and> counts_params (libs k)" "tcp_info info"
    and p: "?p = pool_empty\<lparr>p_info := Some info, p_async_threads := ?as, p_synch_threads := ?ss\<rparr>"
    and opts: "fst (GetOption_string ''LoginDatabaseInfo'' [] True cfg) \<noteq> []" "\<not> ?as < 1" "\<not> ?as > 32" "?as \<noteq> 0"
    using assms by (auto simp: db_ready_def SetConnectionInfo_def)
  from open_prepare_fresh [OF r p] obtain p1 p2 where
    p2: "pool_Open libs ?p = Ret (NoErrno, p1)" "pool_PrepareStatements libs p1 = Ret (True, p2)"
      "length (p_async p2) = unat ?as" "length (p_synch p2) = unat ?ss"
      "?ss \<noteq> 0 \<longrightarrow> p_preparedSize p2 = [0, 0, 1, 5]" "?ss = 0 \<and> ?as \<noteq> 0 \<longrightarrow> p_preparedSize p2 = [0, 0, 0, 0]"
      "\<forall>x \<in> set (p_synch p2). prepared_conn IDX_SYNCH (snd x)"
    by blast
  have "StartDB libs cfg ''Login'' pool_empty = Ret (True, p2)"
    using p2(1,2) opts by (simp add: StartDB_login open_pool_def Let_def)
  with p2(3-7) opts(4) show ?thesis by (intro exI [of _ p2]) simp
qed

subsection \<open>Properties\<close>

text \<open>
  C9. The program starts as configured. With options for the login database that are present and in
  range and servers that let it in, \<open>StartDB\<close> succeeds with exactly the configured connections, and
  both statements of the logon service can be executed. The number of synchronous connections is
  not checked: 0 is accepted as well, and then the first statement the service asks for has no
  place for its argument and the first synchronous call divides by zero.
\<close>

theorem start_as_configured:
  assumes "db_ready libs cfg info" and "synchs = option_uint8 ''LoginDatabase.SynchThreads'' 1 cfg"
  shows "\<exists>p. StartDB libs cfg ''Login'' pool_empty = Ret (True, p) \<and>
    length (p_async p) = unat (option_uint8 ''LoginDatabase.WorkerThreads'' 1 cfg) \<and>
    length (p_synch p) = unat synchs \<and>
    (if synchs = 0
     then GetFreeConnection p = Some (Crash DivByZero) \<and>
       (\<exists>s. pool_GetPreparedStatement LOGIN_SEL_LOGONCHALLENGE p = Ret s \<and>
          SetArguments [name] (ps_stmt s) = Crash (AssertFail ''index < statement_data.size()''))
     else \<forall>x \<in> set (p_synch p). \<forall>index args.
       index = LOGIN_SEL_LOGONCHALLENGE \<and> length args = 1 \<or> index = LOGIN_UPD_LOGONPROOF \<and> length args = 5 \<longrightarrow>
       (\<exists>s st r. pool_GetPreparedStatement index p = Ret s \<and> SetArguments args (ps_stmt s) = Ret st \<and>
         attempt_stmt (libs (fst x)) st (snd x) = Ret r))"
proof -
  from StartDB_ready [OF assms(1), folded assms(2)] obtain p where
    p: "StartDB libs cfg ''Login'' pool_empty = Ret (True, p)"
      "length (p_async p) = unat (option_uint8 ''LoginDatabase.WorkerThreads'' 1 cfg)" "length (p_synch p) = unat synchs"
    and sizes: "p_preparedSize p = (if synchs = 0 then [0, 0, 0, 0] else [0, 0, 1, 5])"
    and conns: "\<forall>x \<in> set (p_synch p). prepared_conn IDX_SYNCH (snd x)"
    by blast
  show ?thesis
  proof (cases "synchs = 0")
    case True
    then have "p_synch p = []" using p(3) by simp
    moreover have "pool_GetPreparedStatement LOGIN_SEL_LOGONCHALLENGE p =
        Ret \<lparr>ps_stmt = stmt_new LOGIN_SEL_LOGONCHALLENGE 0, ps_conn = None\<rparr>"
      using sizes True by (simp add: pool_GetPreparedStatement_def LOGIN_SEL_LOGONCHALLENGE_def)
    moreover have "SetArguments [name] (stmt_new LOGIN_SEL_LOGONCHALLENGE 0) =
        Crash (AssertFail ''index < statement_data.size()'')"
      by (simp add: SetArguments_def SetValidData_def stmt_new_def)
    ultimately show ?thesis using p True by (simp add: GetFreeConnection_empty)
  next
    case False
    then have s: "p_preparedSize p = [0, 0, 1, 5]" using sizes by simp
    have "\<forall>x \<in> set (p_synch p). \<forall>index args.
       index = LOGIN_SEL_LOGONCHALLENGE \<and> length args = 1 \<or> index = LOGIN_UPD_LOGONPROOF \<and> length args = 5 \<longrightarrow>
       (\<exists>s st r. pool_GetPreparedStatement index p = Ret s \<and> SetArguments args (ps_stmt s) = Ret st \<and>
         attempt_stmt (libs (fst x)) st (snd x) = Ret r)"
      by (intro ballI allI impI) (rule login_statement_attempt [OF s conns [rule_format]])
    with p False show ?thesis by (simp only: if_False simp_thms) blast
  qed
qed

lemma sample_database: "MySQLConnectionInfo ''db;3306;u;p;auth'' = sample_info"
  by code_simp

definition sample_config :: "string \<Rightarrow> config" where
  "sample_config synchs = config_new\<lparr>configOptions :=
     [(''LoginDatabaseInfo'', ''db;3306;u;p;auth''), (''LoginDatabase.SynchThreads'', synchs)]\<rparr>"

lemma sample_config_ready: "db_ready (\<lambda>_. counting_lib) (sample_config synchs) sample_info"
  using sample_info_tcp
  by (simp add: db_ready_def counting_lib_facts sample_database GetOption_string_def GetValueDefault_string_def um_find_def
      sample_config_def option_uint8_def GetOption_int_def GetValueDefault_int_def config_new_def)

theorem start_as_configured_witness:
  "\<exists>p. StartDB (\<lambda>_. counting_lib) (sample_config ''0'') ''Login'' pool_empty = Ret (True, p) \<and>
    length (p_async p) = 1 \<and> GetFreeConnection p = Some (Crash DivByZero)"
proof -
  have "option_uint8 ''LoginDatabase.SynchThreads'' 1 (sample_config ''0'') = 0"
    by code_simp
  moreover have "option_uint8 ''LoginDatabase.WorkerThreads'' 1 (sample_config ''0'') = 1"
    by code_simp
  ultimately show ?thesis
    using start_as_configured [OF sample_config_ready refl, of "''0''"] by auto
qed

text \<open>
  C21. A pool that was opened by trying again is not the one that was configured. When the first attempt
  succeeds the connections are as many as asked for; when a later one does, either the queue was
  shut down on the way and no asynchronous operation will ever run, or the asynchronous connections
  of every attempt are still there.
\<close>

theorem retried_pool_is_damaged:
  assumes "open_pool libs cfg p = Ret (NoErrno, p')" and "pool_Open libs p = Ret (e, p1)"
  shows "if e = NoErrno
    then p' = p1 \<and> length (p_async p') = length (p_async p) + unat (p_async_threads p) \<and>
      length (p_synch p') = length (p_synch p) + unat (p_synch_threads p)
    else e = CR_CONNECTION_ERROR \<and>
      (q_shutdown (p_queue p') \<or>
       (\<exists>m. 2 \<le> m \<and> m \<le> 1 + unat (option_uint8 ''Database.Reconnect.Attempts'' 20 cfg) \<and>
          length (p_async p') = length (p_async p) + m * unat (p_async_threads p)))"
proof (cases "e = NoErrno")
  case True
  with assms pool_Open_effect [OF assms(2)] show ?thesis by (simp add: open_pool_def)
next
  case False
  let ?n = "unat (option_uint8 ''Database.Reconnect.Attempts'' 20 cfg)"
  from False assms have e: "e = CR_CONNECTION_ERROR" and r: "reconnect_loop libs ?n e p1 = Ret (NoErrno, p')"
    by (auto simp: open_pool_def split: if_splits)
  note first = pool_Open_effect [OF assms(2)]
  note loop = reconnect_loop_effect [OF r False]
  show ?thesis
  proof (cases "q_shutdown (p_queue p')")
    case True
    with e show ?thesis by simp
  next
    case alive: False
    with loop obtain m where m: "1 \<le> m" "m \<le> ?n" "length (p_async p') = length (p_async p1) + m * unat (p_async_threads p1)"
      by blast
    have "length (p_async p1) = length (p_async p) + unat (p_async_threads p)" "p_async_threads p1 = p_async_threads p"
      using first False loop alive by auto
    with m have "2 \<le> Suc m \<and> Suc m \<le> 1 + ?n \<and> length (p_async p') = length (p_async p) + Suc m * unat (p_async_threads p)"
      by simp
    then have "\<exists>m. 2 \<le> m \<and> m \<le> 1 + ?n \<and> length (p_async p') = length (p_async p) + m * unat (p_async_threads p)" by blast
    with e False show ?thesis by simp
  qed
qed

theorem retried_pool_is_damaged_witness:
  "\<exists>p'. open_pool late_libs config_new (sample_pool 1 1) = Ret (NoErrno, p') \<and> length (p_async p') = 1 \<and>
    q_shutdown (p_queue p')"
proof -
  from late_libs_opens obtain p1 p2 where
    o: "pool_Open late_libs (sample_pool 1 1) = Ret (CR_CONNECTION_ERROR, p1)"
      "pool_Open late_libs p1 = Ret (NoErrno, p2)" "length (p_async p2) = 1"
    by blast
  have n: "unat (option_uint8 ''Database.Reconnect.Attempts'' 20 config_new) = Suc 19" by code_simp
  have "reconnect_loop late_libs (Suc 19) CR_CONNECTION_ERROR p1 = Ret (NoErrno, p2)"
    by (simp only: reconnect_loop.simps o(2) bind_outcome.simps) simp
  then have "open_pool late_libs config_new (sample_pool 1 1) = Ret (NoErrno, p2)"
    by (simp only: open_pool_def o(1) n bind_outcome.simps prod.case if_True refl)
  moreover from retried_pool_is_damaged [OF this o(1)] o(3) have "q_shutdown (p_queue p2)"
    by (auto simp: sample_pool_def pool_empty_def)
  ultimately show ?thesis using o(3) by blast
qed

text \<open>
  C37. How loading any number of databases fails, and what it leaves of each pool. When a database has
  bad options or cannot be opened, the pools opened before it are closed, the later ones are as they
  were, and its own keeps whatever the opening left in it, connections included, because its closer
  is pushed only after success. When a statement cannot be prepared, every pool is closed, prepared or
  not. A closed pool has no connections, and if it had asynchronous ones its queue is shut down.
\<close>

theorem failed_start:
  assumes "Load libs cfg (add_databases ds (DatabaseLoader pools)) = Ret (False, l)" and "distinct (map snd ds)"
  shows "\<exists>before name j rest. ds = before @ (name, j) # rest \<and> ld_close l = [] \<and>
    (ld_open l = (name, j) # rest \<and>
     (\<forall>(n, i) \<in> set before. \<not> bad_options n cfg \<and> (\<exists>q. open_pool (libs i) cfg (configured n cfg (pools i)) = Ret (NoErrno, q) \<and>
        ld_pools l i = pool_Close q)) \<and>
     (if bad_options name cfg then ld_pools l j = pools j
      else \<exists>e. e \<noteq> NoErrno \<and> open_pool (libs j) cfg (configured name cfg (pools j)) = Ret (e, ld_pools l j)) \<and>
     (\<forall>(n, i) \<in> set rest. ld_pools l i = pools i)
     \<or>
     ld_open l = [] \<and>
     (\<exists>opened. (\<forall>(n, i) \<in> set ds. \<not> bad_options n cfg \<and> open_pool (libs i) cfg (configured n cfg (pools i)) = Ret (NoErrno, opened i)) \<and>
       (\<forall>(n, i) \<in> set before. \<exists>q. pool_PrepareStatements (libs i) (opened i) = Ret (True, q) \<and>
          ld_pools l i = pool_Close q) \<and>
       (\<exists>q. pool_PrepareStatements (libs j) (opened j) = Ret (False, q) \<and> ld_pools l j = pool_Close q) \<and>
       (\<forall>(n, i) \<in> set rest. ld_pools l i = pool_Close (opened i)))) \<and>
    (\<forall>q. p_async (pool_Close q) = [] \<and> p_synch (pool_Close q) = [] \<and>
      (p_async q \<noteq> [] \<longrightarrow> q_shutdown (p_queue (pool_Close q))))"
proof -
  let ?l0 = "add_databases ds (DatabaseLoader pools)"
  have l0: "ld_open ?l0 = ds" "ld_prepare ?l0 = ds" "ld_close ?l0 = []" "ld_pools ?l0 = pools"
    by (simp_all add: add_databases_fields DatabaseLoader_def)
  have closed: "\<forall>q. p_async (pool_Close q) = [] \<and> p_synch (pool_Close q) = [] \<and>
      (p_async q \<noteq> [] \<longrightarrow> q_shutdown (p_queue (pool_Close q)))"
    using pool_Close_queue by auto
  from assms(1) obtain ok left l1 where o: "process_queue (run_open libs cfg) ds ?l0 = Ret (ok, left, l1)"
    and c: "(if \<not> ok then Ret (False, l1\<lparr>ld_open := left\<rparr>)
      else loader_PrepareStatements libs (l1\<lparr>ld_open := left\<rparr>)) = Ret (False, l)"
    by (auto simp: Load_def OpenDatabases_def l0)
  note opens = opening_ends [OF o assms(2), unfolded l0, simplified]
  show ?thesis
  proof (cases ok)
    case False
    with c have l: "l = l1\<lparr>ld_open := left\<rparr>" by simp
    from False opens obtain before name j rest where
      "ds = before @ (name, j) # rest" "left = (name, j) # rest" "ld_close l1 = []"
      "\<forall>(n, i) \<in> set before. \<not> bad_options n cfg \<and> (\<exists>q. open_pool (libs i) cfg (configured n cfg (pools i)) = Ret (NoErrno, q) \<and>
        ld_pools l1 i = pool_Close q)"
      "if bad_options name cfg then ld_pools l1 j = pools j
       else \<exists>e. e \<noteq> NoErrno \<and> open_pool (libs j) cfg (configured name cfg (pools j)) = Ret (e, ld_pools l1 j)"
      "\<forall>i. i \<notin> snd ` set before \<and> i \<noteq> j \<longrightarrow> ld_pools l1 i = pools i"
      by auto
    note hyps = this
    have rest: "\<forall>(n, i) \<in> set rest. ld_pools l1 i = pools i"
      using hyps(6) later_index [OF hyps(1) assms(2)] by blast
    have l': "ld_pools l = ld_pools l1" "ld_close l = []" "ld_open l = (name, j) # rest" using l hyps(2,3) by simp_all
    show ?thesis
      unfolding l'
      by (rule exI [of _ before], rule exI [of _ name], rule exI [of _ j], rule exI [of _ rest],
        rule conjI [OF hyps(1)], rule conjI [OF refl], rule conjI, rule disjI1, rule conjI [OF refl],
        rule conjI [OF hyps(4)], rule conjI [OF hyps(5)], rule rest, rule closed)
  next
    case True
    let ?l1 = "l1\<lparr>ld_open := left\<rparr>"
    from opens have "left = [] \<and> ld_close l1 = rev (map snd ds) \<and> ld_prepare l1 = ds \<and>
      (\<forall>(n, i) \<in> set ds. \<not> bad_options n cfg \<and> open_pool (libs i) cfg (configured n cfg (pools i)) = Ret (NoErrno, ld_pools l1 i))"
      unfolding if_P [OF True] by simp
    then have l1: "left = []" "ld_close ?l1 = rev (map snd ds)" "ld_prepare ?l1 = ds"
      "\<forall>(n, i) \<in> set ds. \<not> bad_options n cfg \<and> open_pool (libs i) cfg (configured n cfg (pools i)) = Ret (NoErrno, ld_pools ?l1 i)"
      by simp_all
    from c True l1(3) obtain left2 l2 where p: "process_queue (run_prepare libs) ds ?l1 = Ret (False, left2, l2)"
      and l: "l = l2\<lparr>ld_prepare := left2\<rparr>"
      by (auto simp: loader_PrepareStatements_def)
    have "distinct (ld_close ?l1)" "set (map snd ds) \<subseteq> set (ld_close ?l1)" using assms(2) l1(2) by (simp_all only: distinct_rev set_rev)
    from preparing_fails [OF p assms(2) this] obtain before name j rest where
      "ds = before @ (name, j) # rest" "ld_close l2 = []" "ld_open l2 = ld_open ?l1"
      "\<forall>(n, i) \<in> set before. \<exists>q. pool_PrepareStatements (libs i) (ld_pools ?l1 i) = Ret (True, q) \<and> ld_pools l2 i = pool_Close q"
      "\<exists>q. pool_PrepareStatements (libs j) (ld_pools ?l1 j) = Ret (False, q) \<and> ld_pools l2 j = pool_Close q"
      "\<forall>i \<in> set (ld_close ?l1). i \<notin> snd ` set before \<and> i \<noteq> j \<longrightarrow> ld_pools l2 i = pool_Close (ld_pools ?l1 i)"
      by blast
    note hyps = this
    have rest: "\<forall>(n, i) \<in> set rest. ld_pools l2 i = pool_Close (ld_pools ?l1 i)"
      using hyps(6) later_index [OF hyps(1) assms(2)] l1(2) by (simp only: set_rev) blast
    have l': "ld_pools l = ld_pools l2" "ld_close l = []" "ld_open l = []" using l hyps(2,3) l1(1) by simp_all
    show ?thesis
      unfolding l'
      by (rule exI [of _ before], rule exI [of _ name], rule exI [of _ j], rule exI [of _ rest],
        rule conjI [OF hyps(1)], rule conjI [OF refl], rule conjI, rule disjI2, rule conjI [OF refl],
        rule exI [of _ "ld_pools ?l1"], intro conjI, rule l1(4), rule hyps(4), rule hyps(5), rule rest, rule closed)
  qed
qed

text \<open>Two databases; the second has no options, so the first, which was opened, is closed again.\<close>

theorem failed_start_witness:
  "\<exists>l q. Load (\<lambda>_ _. counting_lib) (sample_config ''1'') (add_databases [(''Login'', 0), (''World'', 1)]
      (DatabaseLoader (\<lambda>_. pool_empty))) = Ret (False, l) \<and>
    open_pool (\<lambda>_. counting_lib) (sample_config ''1'') (configured ''Login'' (sample_config ''1'') pool_empty) = Ret (NoErrno, q) \<and>
    length (p_async q) = 1 \<and> ld_pools l 0 = pool_Close q \<and> ld_pools l 1 = pool_empty"
proof -
  let ?cfg = "sample_config ''1''" and ?libs = "\<lambda>_ :: nat. counting_lib"
  let ?ds = "[(''Login'', 0), (''World'', 1)] :: database list"
  have opts: "\<not> bad_options ''Login'' ?cfg" "bad_options ''World'' ?cfg"
    "configured ''Login'' ?cfg pool_empty = pool_empty\<lparr>p_info := Some sample_info, p_async_threads := 1, p_synch_threads := 1\<rparr>"
    unfolding bad_options_def configured_def SetConnectionInfo_def
    by code_simp+
  have lib: "\<forall>k. lets_in (?libs k) \<and> counts_params (?libs k)" using counting_lib_facts by blast
  from open_prepare_fresh [OF lib sample_info_tcp opts(3)] obtain q where
    "pool_Open ?libs (configured ''Login'' ?cfg pool_empty) = Ret (NoErrno, q)" by blast
  then have o: "pool_Open ?libs (configured ''Login'' ?cfg pool_empty) = Ret (NoErrno, q)" .
  then have q: "open_pool ?libs ?cfg (configured ''Login'' ?cfg pool_empty) = Ret (NoErrno, q)" by (simp add: open_pool_def)
  have "length (p_async q) = 1" using pool_Open_effect [OF o] unfolding opts(3) by (simp add: pool_empty_def)
  note q = q this
  have "\<exists>l. Load (\<lambda>_. ?libs) ?cfg (add_databases ?ds (DatabaseLoader (\<lambda>_. pool_empty))) = Ret (False, l)"
    using opts(1,2) q(1) by (simp add: Load_def OpenDatabases_def add_databases_fields DatabaseLoader_def run_open_eq Let_def)
  then obtain l where l: "Load (\<lambda>_. ?libs) ?cfg (add_databases ?ds (DatabaseLoader (\<lambda>_. pool_empty))) = Ret (False, l)" by blast
  have d: "distinct (map snd ?ds)" by simp
  have two: "ds = before @ x # rest \<Longrightarrow> ds = [a, b] \<Longrightarrow> before = [] \<and> x = a \<and> rest = [b] \<or> before = [a] \<and> x = b \<and> rest = []"
    for ds before rest :: "database list" and x a b by (cases before) (auto simp: Cons_eq_append_conv)
  have "ld_pools l 0 = pool_Close q \<and> ld_pools l 1 = pool_empty"
    using failed_start [OF l d] opts(1,2) q(1) by (elim exE conjE disjE) (drule two [OF _ refl], auto)+
  with l q show ?thesis by blast
qed

text \<open>
  C19. No run of the program ends with success. \<open>main\<close> returns 1 when the configuration, the database or
  the port is bad; when the port cannot be listened on, the constructor of the service throws;
  otherwise the service is stopped, its destructor stops it once more, and joining its threads again
  throws. In both last cases the database is not closed either.
\<close>

theorem main_never_succeeds:
  "(\<forall>q. main_run libs fs listens confDir args accepted p \<noteq> Ret (0, q)) \<and>
   main_run libs fs listens confDir args accepted p =
     (let (loaded, cfg) = LoadAppConfigs fs False (Configure (confDir @ ''/logon.conf'') args [] config_new);
          port = fst (GetOption_int ty_int32 ''ServerPort'' 1234 True cfg)
      in if \<not> loaded then Ret (1, p)
         else
           bind_outcome (StartDB libs cfg ''Login'' p) (\<lambda>(started, p).
             if \<not> started then Ret (1, p)
             else if port < 0 \<or> port > 65535 then Ret (1, pool_Close p)
             else if \<not> listens port then Crash (Thrown ''boost::system::system_error'')
             else Crash (Thrown ''std::system_error'')))"
proof -
  have life: "bind_outcome (service_new b ip port (Suc 0)) (\<lambda>s.
      bind_outcome (service_stop (accept_all accepted (service_start s))) (\<lambda>s. bind_outcome (service_destroy s) (\<lambda>_. r))) =
      (if b then Crash (Thrown ''std::system_error'') else Crash (Thrown ''boost::system::system_error''))"
    for b ip port and r :: "(int \<times> pool) outcome"
  proof (cases b)
    case True
    then show ?thesis using service_life [of ip port 0 accepted] by auto
  qed (simp add: service_new_def)
  obtain loaded cfg where l: "LoadAppConfigs fs False (Configure (confDir @ ''/logon.conf'') args [] config_new) = (loaded, cfg)"
    by (cases "LoadAppConfigs fs False (Configure (confDir @ ''/logon.conf'') args [] config_new)")
  have eq: "main_run libs fs listens confDir args accepted p =
     (if \<not> loaded then Ret (1, p)
      else
        bind_outcome (StartDB libs cfg ''Login'' p) (\<lambda>(started, p).
          if \<not> started then Ret (1, p)
          else if fst (GetOption_int ty_int32 ''ServerPort'' 1234 True cfg) < 0 \<or>
              fst (GetOption_int ty_int32 ''ServerPort'' 1234 True cfg) > 65535
          then Ret (1, pool_Close p)
          else if \<not> listens (fst (GetOption_int ty_int32 ''ServerPort'' 1234 True cfg))
          then Crash (Thrown ''boost::system::system_error'') else Crash (Thrown ''std::system_error'')))"
    by (simp add: main_run_def GetConfigPath_def POOL_CONFIG_def StopDB_def l life Let_def
        del: bind_outcome_eq_Ret_iff cong: if_cong)
  show ?thesis
  proof (intro conjI allI)
    show "main_run libs fs listens confDir args accepted p \<noteq> Ret (0, q)" for q
      unfolding eq by (auto split: if_splits)
  qed (simp add: eq l Let_def)
qed

text \<open>
  C3. From the start of the program to a login. With a configuration that is in range and at least one
  synchronous connection, servers that let the program in and hold the accounts, and a client on
  Windows that knows the password of one of them, whose salt has no zero byte before another byte,
  and that stays connected: \<open>StartDB\<close> succeeds, both packets of the client are answered,
  and the server has executed one more update, of that account, with the session key the client
  computes, the client's address, locale and system. No lock is left behind.
\<close>

theorem password_login:
  assumes "db_ready libs cfg info" and "option_uint8 ''LoginDatabase.SynchThreads'' 1 cfg \<noteq> 0"
    and "\<forall>k. account_server (libs k) accounts"
    and "ossl_ok api" and "lib env1 = api" and "lib env2 = api"
    and "wf_challenge_c ch" and "cc_os ch = [0x6E, 0x69, 0x57, 0]"
    and "accounts (chars (cc_I ch)) = Some (number, row)" and "length (row_salt row) = 32"
    and "list_all (\<lambda>b. b = 0) (dropWhile (\<lambda>b. b \<noteq> 0) (row_salt row))"
    and "calculate_verifier api (row_username row) password (row_salt row) = Ret (row_verifier row)"
    and "\<not> peer_gone env2"
  shows "\<exists>p k p' c2 reply q K answer.
    StartDB libs cfg ''Login'' pool_empty = Ret (True, p) \<and> k < length (p_synch p) \<and>
    q = client_packet api (row_username row) password a reply \<and>
    K = client_key api (row_username row) password (row_salt row) (substr reply 3 32) a \<and>
    conn_run_db L libs [(env1, ReadOk (encode_challenge_c ch)), (env2, ReadOk (encode_proof_c q))]
      (conn_start (conn_new mem wh mh)) p = Some (Ret (c2, p')) \<and>
    events c2 = [Sent reply, DbUpdate K (remote_ip env2) (chars (rev (cc_country ch))) ''Win'' (row_username row), Sent answer] \<and>
    locks p' = locks p \<and>
    account_log k p' = account_log k p @ [map (\<lambda>a. bind_param a bind_zero)
      [PBinary K, PString (remote_ip env2), PString (chars (rev (cc_country ch))), PString ''Win'', PString (row_username row)]]"
proof -
  from StartDB_ready [OF assms(1)] obtain p where
    p: "StartDB libs cfg ''Login'' pool_empty = Ret (True, p)"
      "length (p_synch p) = unat (option_uint8 ''LoginDatabase.SynchThreads'' 1 cfg)" "p_preparedSize p = [0, 0, 1, 5]"
      "\<forall>x \<in> set (p_synch p). prepared_conn IDX_SYNCH (snd x)"
    using assms(2) by auto
  have "p_synch p \<noteq> []" using p(2) assms(2) by (metis length_0_conv unat_eq_0)
  moreover have "length (p_synch p) \<le> 255"
    using unat_byte_less [of "option_uint8 ''LoginDatabase.SynchThreads'' 1 cfg"] p(2) by simp
  ultimately obtain k where k: "login_pool k p" "k < length (p_synch p)"
    using prepared_login_pool [OF p(3) _ _ p(4)] by blast
  have server: "account_server (lib_at libs k p) accounts" using assms(3) by (simp add: lib_at_def)
  let ?e1 = "on_table accounts env1" and ?e2 = "on_table accounts env2"
  let ?c = "conn_start (conn_new mem wh mh)"
  have e: "lib ?e1 = api" "lib ?e2 = api" "select_account ?e1 (chars (cc_I ch)) = Some row" "remote_ip ?e2 = remote_ip env2"
    "\<not> peer_gone ?e2"
    using assms(5,6,9,13) by (simp_all add: on_table_def)
  from logon_session_run [OF assms(4) e(1,2) assms(7,8) e(3) assms(10-12) e(5), of mem wh mh a] obtain c1 c2 reply q K answer where
    run: "handle_read ?e1 ?c (ReadOk (encode_challenge_c ch)) = Ret c1"
      "q = client_packet api (row_username row) password a reply"
      "K = client_key api (row_username row) password (row_salt row) (substr reply 3 32) a"
      "handle_read ?e2 c1 (ReadOk (encode_proof_c q)) = Ret c2"
      "events c2 = [Sent reply, DbUpdate K (remote_ip env2) (chars (rev (cc_country ch))) ''Win'' (row_username row), Sent answer]"
    unfolding e(4) by blast
  let ?rs = "[(env1, ReadOk (encode_challenge_c ch)), (env2, ReadOk (encode_proof_c q))]"
  have "conn_run (map (apfst (on_table accounts)) ?rs) ?c = Ret c2" using run(1,4) by simp
  with conn_run_db_table [OF k(1) server, where rs = ?rs and c = ?c and L = L] obtain p' where
    p': "conn_run_db L libs ?rs ?c p = Some (Ret (c2, p'))" "locks p' = locks p"
      "account_log k p' = account_log k p @ map update_binds (account_updates ?c c2)"
    by (auto simp del: conn_run.simps)
  have "events ?c = []" by (simp add: conn_start_def conn_new_def async_read_def)
  then have "account_updates ?c c2 = [DbUpdate K (remote_ip env2) (chars (rev (cc_country ch))) ''Win'' (row_username row)]"
    by (simp add: account_updates_def run(5))
  then have "account_log k p' = account_log k p @ [map (\<lambda>a. bind_param a bind_zero)
      [PBinary K, PString (remote_ip env2), PString (chars (rev (cc_country ch))), PString ''Win'', PString (row_username row)]]"
    using p'(3) by (simp add: update_binds_def update_params_def)
  then show ?thesis using p(1) k(2) run(2,3,5) p'(1,2) by blast
qed

lemma sample_table_ready: "db_ready (\<lambda>_. table_lib) (sample_config synchs) sample_info"
  using sample_config_ready [of synchs] table_lib_facts(2,3) by (simp add: db_ready_def)

theorem password_login_witness:
  "\<exists>p p' c2 reply K. StartDB (\<lambda>_. table_lib) (sample_config ''2'') ''Login'' pool_empty = Ret (True, p) \<and>
    conn_run_db (undefined :: int float_lib) (\<lambda>_. table_lib)
      [(sample_env, ReadOk (encode_challenge_c sample_challenge)),
       (sample_env, ReadOk (encode_proof_c (client_packet ossl_ref ''TEST'' ''PW'' 9 reply)))]
      (conn_start (conn_new (replicate 1024 0) [] [])) p = Some (Ret (c2, p')) \<and>
    events c2 ! 1 = DbUpdate K ''10.0.0.7'' (chars (rev (cc_country sample_challenge))) ''Win'' ''TEST'' \<and> locks p' = locks p"
proof -
  have synchs: "option_uint8 ''LoginDatabase.SynchThreads'' 1 (sample_config ''2'') \<noteq> 0" by code_simp
  have row: "sample_accounts (chars (cc_I sample_challenge)) = Some (1, sample_row)"
    by (simp add: sample_accounts_def sample_facts)
  have salt: "length (row_salt sample_row) = 32"
    "list_all (\<lambda>b. b = 0) (dropWhile (\<lambda>b. b \<noteq> 0) (row_salt sample_row))"
    using sample_salt by (simp_all add: sample_facts)
  have servers: "\<forall>k :: nat. account_server table_lib sample_accounts" using table_lib_facts(1) by blast
  have "remote_ip sample_env = ''10.0.0.7''" "row_username sample_row = ''TEST''" by (simp_all add: sample_env_def sample_facts)
  with password_login [OF sample_table_ready synchs servers ossl_ref_ok sample_facts(3) sample_facts(3) sample_facts(1,2)
      row salt sample_row_verifier sample_facts(6), of 9 "undefined :: int float_lib" "replicate 1024 0" "[]" "[]"]
  show ?thesis by fastforce
qed

end
