(* ===== verification/Diagnostics.thy ===== *)
theory Diagnostics
  imports Loader
begin

section \<open>Banner, date and database test (common/Banner.cpp, apps/logon/main.cpp)\<close>

text \<open>
  The parts of the program that only print: the lines of the banner, the date at the end of \<open>main\<close>,
  and \<open>DBTest\<close>, the sequence of database calls whose call in \<open>main\<close> is commented out.
\<close>

subsection \<open>Banner and date\<close>

text \<open>The lines given to \<open>log\<close>, with those of \<open>logExtraInfo\<close>, which may be absent, in between.\<close>

definition Banner_Show :: "string \<Rightarrow> string \<Rightarrow> string list option \<Rightarrow> string list" where
  "Banner_Show fullVersion applicationName logExtraInfo =
     [fullVersion @ '' ('' @ applicationName @ '')'', ''<Ctrl-C> to stop.'', ''-----------'',
      ''Hello From mpool, mpool writen in c++17'', ''-----------''] @
     (case logExtraInfo of None \<Rightarrow> [] | Some info \<Rightarrow> info) @ ['' '']"

definition GetDateStr :: "(tm \<Rightarrow> string \<Rightarrow> string) \<Rightarrow> clib \<Rightarrow> int \<Rightarrow> string" where
  "GetDateStr put_time lc timer = put_time (localtime lc timer) ''%Y-%m-%d %H:%M:%S''"

subsection \<open>DBTest\<close>

text \<open>The rows of a result, whose first column is printed as a text: at least one, then while there are more.\<close>

function print_names :: "string \<Rightarrow> prepared_set \<Rightarrow> string list outcome" where
  "print_names label result =
     bind_outcome (ps_Fetch result) (\<lambda>flds.
     bind_outcome (field_at flds 0) (\<lambda>f.
     bind_outcome (GetDataString f) (\<lambda>accountName.
       let (more, result') = ps_NextRow result; line = label @ accountName in
       if more then bind_outcome (print_names label result') (\<lambda>ls. Ret (line # ls)) else Ret [line])))"
  by pat_completeness auto
termination
  by (relation "measure (\<lambda>(label, r). ps_rowCount r - ps_rowPosition r)") (auto simp: ps_NextRow_def Let_def)

declare print_names.simps [simp del]

definition test_upd_sql :: string where "test_upd_sql = ''update test set count = count + 2 where id = ?''"
definition test_sel_sql :: string where "test_sel_sql = ''select name from test where id in (?, ?, ?)''"

text \<open>The last part: a statement prepared from its text, executed on the connection that prepared it.\<close>

definition DBTest_just_in_time :: "libs \<Rightarrow> pool \<Rightarrow> (string list \<times> pool) outcome option" where
  "DBTest_just_in_time libs p =
     bind_run (GetPreparedStatement_sql libs test_sel_sql p) (\<lambda>(stmt_just, p).
     bind_run (Some (set_data_from 0 [PI32 1, PI32 2, PI32 3] (ps_stmt stmt_just))) (\<lambda>st.
     bind_run (pool_Query_stmt libs (stmt_just\<lparr>ps_stmt := st\<lparr>st_isPrepared := True\<rparr>\<rparr>) p) (\<lambda>(test_result, p).
       case test_result of
         None \<Rightarrow> Some (Ret ([''DBTest() no record''], p))
       | Some rs \<Rightarrow>
           Some (bind_outcome (print_names ''DBTest() prepare accountName:'' rs) (\<lambda>ls. Ret (ls, p))))))"

text \<open>The two updates in between, given to the workers.\<close>

definition DBTest_updates :: "pool \<Rightarrow> pool outcome" where
  "DBTest_updates p =
     bind_outcome (pool_GetPreparedStatement LOGIN_UPD_TEST p) (\<lambda>stmt_upd.
     bind_outcome (SetData 0 (PI32 3) (ps_stmt stmt_upd)) (\<lambda>st.
       let p1 = pool_Execute_stmt st p in
       bind_outcome (SetData 0 (PI32 2) (stmt_new_prepared None 1)) (\<lambda>stmt_upd_just.
         Ret (pool_Execute_stmt (stmt_upd_just\<lparr>st_isPrepared := True, st_sql := test_upd_sql\<rparr>) p1))))"

definition DBTest :: "libs \<Rightarrow> pool \<Rightarrow> (string list \<times> pool) outcome option" where
  "DBTest libs p =
     bind_run (Some (pool_GetPreparedStatement LOGIN_SEL_TEST p)) (\<lambda>stmt.
     bind_run (Some (SetData 0 (PI32 1) (ps_stmt stmt))) (\<lambda>st.
     bind_run (pool_Query_stmt libs (stmt\<lparr>ps_stmt := st\<rparr>) p) (\<lambda>(result, p).
       case result of
         None \<Rightarrow> Some (Ret ([''DBTest() sel'', ''DBTest() no record''], p))
       | Some rs \<Rightarrow>
           bind_run (Some (print_names ''DBTest() accountName:'' rs)) (\<lambda>ls.
           bind_run (Some (DBTest_updates p)) (\<lambda>p.
           bind_run (DBTest_just_in_time libs p) (\<lambda>(ls', p).
             Some (Ret ([''DBTest() sel''] @ ls @ [''DBTest() upd'', ''DBTest() sel just in time prepare sql''] @ ls', p))))))))"

subsection \<open>Lemmas\<close>

text \<open>
  The statements \<open>DBTest\<close> uses are commented out in LoginDatabase.cpp, so no pool that has been prepared
  knows a parameter of them: the first \<open>SetData\<close> is a failed assertion, whatever the servers hold.
\<close>

lemma dbtest_fails:
  assumes "known_sizes (p_preparedSize p)" and "p_preparedSize p \<noteq> []"
  shows "DBTest libs p = Some (Crash (AssertFail ''index < statement_data.size()''))"
proof -
  have "p_preparedSize p \<in> {[0, 0, 0, 0], [0, 0, 1, 5]}" using assms by (auto simp: known_sizes_def)
  then have "pool_GetPreparedStatement LOGIN_SEL_TEST p = Ret \<lparr>ps_stmt = stmt_new 0 0, ps_conn = None\<rparr>"
    by (auto simp: pool_GetPreparedStatement_def LOGIN_SEL_TEST_def)
  then show ?thesis by (simp add: DBTest_def SetData_def SetValidData_def stmt_new_def bind_run_def)
qed

text \<open>\<open>print_names\<close> prints one line for each row from the current one on.\<close>

lemma print_names_length:
  assumes "print_names label result = Ret ls"
  shows "length ls = ps_rowCount result - ps_rowPosition result"
  using assms
proof (induction label result arbitrary: ls rule: print_names.induct)
  case (1 label result)
  have pos: "ps_rowPosition result < ps_rowCount result"
    using "1.prems" by (subst (asm) print_names.simps) (auto simp: ps_Fetch_def split: if_splits)
  show ?case
  proof (cases "ps_rowPosition result + 1 < ps_rowCount result")
    case True
    let ?r = "result\<lparr>ps_rowPosition := ps_rowPosition result + 1\<rparr>"
    have step: "(True, ?r) = ps_NextRow result" using True by (simp add: ps_NextRow_def Let_def)
    from True "1.prems" obtain flds f n ls' where s: "ps_Fetch result = Ret flds" "field_at flds 0 = Ret f"
      "GetDataString f = Ret n" "print_names label ?r = Ret ls'" "ls = (label @ n) # ls'"
      by (subst (asm) print_names.simps) (auto simp: ps_NextRow_def Let_def)
    from "1.IH" [OF refl step refl TrueI s(4)] True pos s(5) show ?thesis by auto
  next
    case False
    with "1.prems" pos show ?thesis
      by (subst (asm) print_names.simps) (auto simp: ps_NextRow_def Let_def)
  qed
qed

end
