(* ===== verification/Errors.thy ===== *)
theory Errors
  imports Text_Util
begin

section \<open>Assertions and fatal errors (common/Debugging/Errors.h/.cpp)\<close>

text \<open>
  What \<open>ASSERT\<close>, \<open>WPFatal\<close>, \<open>ABORT\<close> and the others do before the process goes: the text they build and
  the steps they take. The other theories only keep the condition of a failed check, as the
  outcome \<open>Crash (AssertFail condition)\<close>; here is what that outcome stands for. The padding is done by
  the fmt library; \<open>cols\<close> is its estimate of the columns a text takes, the number of characters for
  a text in ASCII.
\<close>

subsection \<open>Steps\<close>

text \<open>
  \<open>CrashWith\<close> is the macro \<open>Crash\<close> outside Windows: the message is kept as a C string, and then a
  write through a null pointer ends the process.
\<close>

datatype diag = Stderr string | FlushStderr | SleepSeconds nat | CrashWith string

definition Crash_message :: "string \<Rightarrow> diag" where
  "Crash_message message = CrashWith (c_str message)"

subsection \<open>The messages\<close>

definition newline :: string where "newline = [CHR 0x0A]"

text \<open>\<open>{: ^width}\<close> of fmt: the left half of the padding is the smaller one.\<close>

definition pad_center :: "(string \<Rightarrow> nat) \<Rightarrow> char \<Rightarrow> nat \<Rightarrow> string \<Rightarrow> string" where
  "pad_center cols fill w s =
     (let padding = if w > cols s then w - cols s else 0;
          left_padding = padding div 2;
          right_padding = padding - left_padding
      in replicate left_padding fill @ s @ replicate right_padding fill)"

definition boxed :: "(string \<Rightarrow> nat) \<Rightarrow> string \<Rightarrow> string" where
  "boxed cols msg =
     ''#'' @ pad_center cols (CHR ''-'') 70 [] @ ''#'' @ newline @
     '' '' @ pad_center cols (CHR '' '') 70 msg @ '' '' @ newline @
     ''#'' @ pad_center cols (CHR ''-'') 70 [] @ ''#'' @ newline"

definition quoted :: "string \<Rightarrow> string" where
  "quoted s = CHR 0x27 # s @ [CHR 0x27]"

definition location :: "string \<Rightarrow> uint32 \<Rightarrow> string" where
  "location path line = quoted (path @ '':'' @ dec_digits (unat line))"

definition message_line :: "string \<Rightarrow> string" where
  "message_line fmtMessage = (if fmtMessage \<noteq> [] then ''# Message '' @ quoted fmtMessage @ newline else [])"

definition MakeMessage ::
  "(string \<Rightarrow> nat) \<Rightarrow> string \<Rightarrow> string \<Rightarrow> uint32 \<Rightarrow> string \<Rightarrow> string \<Rightarrow> string \<Rightarrow> string \<Rightarrow> string" where
  "MakeMessage cols messageType path line func message fmtMessage debugInfo =
     boxed cols
       (newline @ ''>> '' @ messageType @ newline @ newline @ ''# Location '' @ location path line @ newline @
        ''# Function '' @ quoted func @ newline @ ''# Condition '' @ quoted message @ newline @
        message_line fmtMessage @
        (if debugInfo \<noteq> [] then newline @ ''# Debug info: '' @ quoted debugInfo @ newline else []))"

definition MakeAbortMessage :: "(string \<Rightarrow> nat) \<Rightarrow> string \<Rightarrow> uint32 \<Rightarrow> string \<Rightarrow> string \<Rightarrow> string" where
  "MakeAbortMessage cols path line func fmtMessage =
     newline @ boxed cols
       (newline @ ''>> ABORTED'' @ newline @ newline @ ''# Location '' @ location path line @ newline @
        ''# Function '' @ quoted func @ newline @ message_line fmtMessage)"

subsection \<open>The functions\<close>

definition GetDebugInfo :: string where "GetDebugInfo = []"

definition wp_Assert ::
  "(string \<Rightarrow> nat) \<Rightarrow> string \<Rightarrow> uint32 \<Rightarrow> string \<Rightarrow> string \<Rightarrow> string \<Rightarrow> string \<Rightarrow> diag list" where
  "wp_Assert cols path line func debugInfo message fmtMessage =
     (let m = MakeMessage cols ''ASSERTION FAILED'' path line func message fmtMessage debugInfo in
      [Stderr m, FlushStderr, Crash_message m])"

definition wp_Fatal :: "(string \<Rightarrow> nat) \<Rightarrow> string \<Rightarrow> uint32 \<Rightarrow> string \<Rightarrow> string \<Rightarrow> string \<Rightarrow> diag list" where
  "wp_Fatal cols path line func message fmtMessage =
     (let m = MakeMessage cols ''FATAL ERROR'' path line func message fmtMessage [] in
      [Stderr m, FlushStderr, SleepSeconds 10, Crash_message m])"

definition wp_Error :: "(string \<Rightarrow> nat) \<Rightarrow> string \<Rightarrow> uint32 \<Rightarrow> string \<Rightarrow> string \<Rightarrow> diag list" where
  "wp_Error cols path line func message =
     (let m = MakeMessage cols ''ERROR'' path line func message [] [] in
      [Stderr m, FlushStderr, SleepSeconds 10, Crash_message m])"

definition wp_Warning :: "(string \<Rightarrow> nat) \<Rightarrow> string \<Rightarrow> uint32 \<Rightarrow> string \<Rightarrow> string \<Rightarrow> diag list" where
  "wp_Warning cols path line func message =
     (let m = MakeMessage cols ''WARNING'' path line func message [] [] in [Stderr m])"

definition wp_Abort :: "(string \<Rightarrow> nat) \<Rightarrow> string \<Rightarrow> uint32 \<Rightarrow> string \<Rightarrow> string \<Rightarrow> diag list" where
  "wp_Abort cols path line func fmtMessage =
     (let m = MakeAbortMessage cols path line func fmtMessage in
      [Stderr m, FlushStderr, SleepSeconds 10, Crash_message m])"

definition AbortHandler :: "nat \<Rightarrow> diag list" where
  "AbortHandler sigval =
     (let m = ''Caught signal '' @ dec_digits sigval @ newline in [Stderr m, FlushStderr, Crash_message m])"

subsection \<open>The macros\<close>

text \<open>A check: nothing when the condition holds, else the steps of the report.\<close>

definition WPAssert ::
  "(string \<Rightarrow> nat) \<Rightarrow> string \<Rightarrow> uint32 \<Rightarrow> string \<Rightarrow> bool \<Rightarrow> string \<Rightarrow> string \<Rightarrow> diag list" where
  "WPAssert cols path line func cond condText fmtMessage =
     (if cond then [] else wp_Assert cols path line func GetDebugInfo condText fmtMessage)"

definition WPFatal ::
  "(string \<Rightarrow> nat) \<Rightarrow> string \<Rightarrow> uint32 \<Rightarrow> string \<Rightarrow> bool \<Rightarrow> string \<Rightarrow> string \<Rightarrow> diag list" where
  "WPFatal cols path line func cond condText fmtMessage =
     (if cond then [] else wp_Fatal cols path line func condText fmtMessage)"

definition WPError :: "(string \<Rightarrow> nat) \<Rightarrow> string \<Rightarrow> uint32 \<Rightarrow> string \<Rightarrow> bool \<Rightarrow> string \<Rightarrow> diag list" where
  "WPError cols path line func cond msg = (if cond then [] else wp_Error cols path line func msg)"

definition WPWarning :: "(string \<Rightarrow> nat) \<Rightarrow> string \<Rightarrow> uint32 \<Rightarrow> string \<Rightarrow> bool \<Rightarrow> string \<Rightarrow> diag list" where
  "WPWarning cols path line func cond msg = (if cond then [] else wp_Warning cols path line func msg)"

text \<open>With \<open>PERFORMANCE_PROFILING\<close> defined, \<open>ASSERT\<close> does not even evaluate its condition.\<close>

definition ASSERT_macro ::
  "bool \<Rightarrow> (string \<Rightarrow> nat) \<Rightarrow> string \<Rightarrow> uint32 \<Rightarrow> string \<Rightarrow> bool \<Rightarrow> string \<Rightarrow> string \<Rightarrow> diag list" where
  "ASSERT_macro profiling cols path line func cond condText fmtMessage =
     (if profiling then [] else WPAssert cols path line func cond condText fmtMessage)"

text \<open>\<open>ASSERT_NOTNULL\<close>: the pointer, or the report with the text of the expression as message.\<close>

definition ASSERT_NOTNULL ::
  "bool \<Rightarrow> (string \<Rightarrow> nat) \<Rightarrow> string \<Rightarrow> uint32 \<Rightarrow> 'a option \<Rightarrow> string \<Rightarrow> 'a option \<times> diag list" where
  "ASSERT_NOTNULL profiling cols path line pointer expr =
     (pointer, ASSERT_macro profiling cols path line ''ASSERT_NOTNULL_IMPL'' (pointer \<noteq> None) ''pointer'' expr)"

subsection \<open>Lemmas\<close>

definition ends_process :: "diag list \<Rightarrow> bool" where
  "ends_process ds \<longleftrightarrow> list_ex (\<lambda>d. case d of CrashWith m \<Rightarrow> True | _ \<Rightarrow> False) ds"

lemmas report_defs = wp_Assert_def wp_Fatal_def wp_Error_def wp_Warning_def wp_Abort_def AbortHandler_def Crash_message_def
  Let_def

text \<open>A failed check ends the process, a warning never does; an abort and a caught signal always do.\<close>

lemma which_reports_end:
  "ends_process (WPAssert cols path line func cond condText fmtMessage) \<longleftrightarrow> \<not> cond"
  "ends_process (WPFatal cols path line func cond condText fmtMessage) \<longleftrightarrow> \<not> cond"
  "ends_process (WPError cols path line func cond msg) \<longleftrightarrow> \<not> cond"
  "\<not> ends_process (WPWarning cols path line func cond msg)"
  "ends_process (wp_Abort cols path line func fmtMessage)"
  "ends_process (AbortHandler sigval)"
  by (simp_all add: ends_process_def WPAssert_def WPFatal_def WPError_def WPWarning_def report_defs)

lemma set_pad_center: "set (pad_center cols fill w s) \<subseteq> insert fill (set s)"
  by (auto simp: pad_center_def Let_def)

lemma dec_digits_no_NUL: "CHR 0x00 \<notin> set (dec_digits n)"
  using dec_digits_in_base [of n] by (auto simp: list_all_iff digit_in_base_def digit_value_def of_char_def split: if_splits)

lemma NUL_parts:
  "CHR 0x00 \<in> set (boxed cols msg) \<Longrightarrow> CHR 0x00 \<in> set msg"
  "CHR 0x00 \<in> set (quoted s) \<longleftrightarrow> CHR 0x00 \<in> set s"
  "CHR 0x00 \<in> set (location path line) \<longleftrightarrow> CHR 0x00 \<in> set path"
  "CHR 0x00 \<in> set (message_line m) \<longleftrightarrow> CHR 0x00 \<in> set m"
  "CHR 0x00 \<notin> set newline"
  using set_pad_center [of cols "CHR ''-''" 70 "[]"] set_pad_center [of cols "CHR '' ''" 70 msg]
  by (auto simp: boxed_def quoted_def location_def message_line_def newline_def dec_digits_no_NUL)

text \<open>
  The report of a failed assertion: what the crash keeps is what was printed, when no part of it has
  a NUL, and the text says where the check is and which one, between two rules of 70 dashes.
\<close>

theorem assertion_report:
  assumes "CHR 0x00 \<notin> set path \<union> set func \<union> set condText \<union> set fmtMessage" and "cols [] = 0"
  shows "\<exists>m body. WPAssert cols path line func False condText fmtMessage = [Stderr m, FlushStderr, CrashWith m] \<and>
    body = ''# Location '' @ location path line @ newline @ ''# Function '' @ quoted func @ newline @
      ''# Condition '' @ quoted condText @ newline @ message_line fmtMessage \<and>
    (\<exists>before after. m = ''#'' @ replicate 70 (CHR ''-'') @ ''#'' @ newline @ before @ body @ after @
      ''#'' @ replicate 70 (CHR ''-'') @ ''#'' @ newline)"
proof -
  let ?body = "''# Location '' @ location path line @ newline @ ''# Function '' @ quoted func @ newline @
      ''# Condition '' @ quoted condText @ newline @ message_line fmtMessage"
  define m where "m = MakeMessage cols ''ASSERTION FAILED'' path line func condText fmtMessage GetDebugInfo"
  have "CHR 0x00 \<notin> set m"
    using assms(1) NUL_parts(5)
    by (auto simp: m_def MakeMessage_def GetDebugInfo_def NUL_parts(2-4) dest!: NUL_parts(1))
  then have run: "WPAssert cols path line func False condText fmtMessage = [Stderr m, FlushStderr, CrashWith m]"
    by (simp add: WPAssert_def report_defs m_def c_str_id)
  obtain l r where pad: "pad_center cols (CHR '' '') 70 s = replicate (l s) (CHR '' '') @ s @ replicate (r s) (CHR '' '')" for s
    using that [of "\<lambda>s. (if 70 > cols s then 70 - cols s else 0) div 2"
      "\<lambda>s. (if 70 > cols s then 70 - cols s else 0) - (if 70 > cols s then 70 - cols s else 0) div 2"]
    by (simp add: pad_center_def Let_def)
  have rule: "pad_center cols (CHR ''-'') 70 [] = replicate 70 (CHR ''-'')"
    using assms(2) by (simp add: pad_center_def flip: replicate_add)
  let ?msg = "newline @ ''>> ASSERTION FAILED'' @ newline @ newline @ ?body"
  have "m = ''#'' @ replicate 70 (CHR ''-'') @ ''#'' @ newline @ ('' '' @ replicate (l ?msg) (CHR '' '') @ newline @
      ''>> ASSERTION FAILED'' @ newline @ newline) @ ?body @ (replicate (r ?msg) (CHR '' '') @ '' '' @ newline) @
      ''#'' @ replicate 70 (CHR ''-'') @ ''#'' @ newline"
    unfolding m_def MakeMessage_def GetDebugInfo_def boxed_def rule pad by simp
  with run show ?thesis by blast
qed

theorem assertion_report_witness:
  "\<exists>m. WPAssert length ''SRP6.cpp'' 70 ''VerifyChallengeResponse'' False ''!_used'' ''used only once'' =
    [Stderr m, FlushStderr, CrashWith m]"
  using assertion_report [of "''SRP6.cpp''" "''VerifyChallengeResponse''" "''!_used''" "''used only once''" length 70] by auto

end
