(* ===== verification/Queue_Liveness.thy ===== *)
theory Queue_Liveness
  imports Operations
begin

section \<open>The queue is worked off (PCQueue.h, DatabaseWorker.cpp)\<close>

text \<open>
  While no worker is being destroyed the queue stays open and no worker has left its loop. Then
  every step of a worker brings one operation closer to its end. A worker is held up for good only by
  a call that never comes back, and the process dies only by a call that crashes; apart from that
  all queued operations get executed, whatever the scheduler does. What comes of a call is a parameter
  here; \<open>worker_calls\<close> is what it is for the operations and connections of the pool.
\<close>

subsection \<open>Workers that are left alone\<close>

definition all_alive :: "'a system \<Rightarrow> bool" where
  "all_alive s \<longleftrightarrow> list_all (\<lambda>w. w_dtor w = Alive) (sys_workers s)"

definition at_work :: "'a worker_pc \<Rightarrow> bool" where
  "at_work pc \<longleftrightarrow> (case pc of Waiting \<Rightarrow> True | Popped operation \<Rightarrow> operation \<noteq> None | Executing op \<Rightarrow> True | Exited \<Rightarrow> False)"

definition undisturbed :: "'a system \<Rightarrow> bool" where
  "undisturbed s \<longleftrightarrow> list_all (\<lambda>w. at_work (w_pc w) \<and> \<not> w_token w) (sys_workers s) \<and>
     \<not> q_shutdown (sys_queue s) \<and> sys_deleted s = [] \<and> sys_dropped s = []"

lemma at_work_simps [simp]:
  "at_work Waiting" "at_work (Popped operation) = (operation \<noteq> None)" "at_work (Executing op)" "\<not> at_work Exited"
  by (simp_all add: at_work_def)

lemma list_all_update: "list_all P xs \<Longrightarrow> P x \<Longrightarrow> list_all P (xs[i := x])"
  by (auto simp: list_all_iff dest!: set_update_subset_insert [THEN subsetD])

lemma list_all_nth: "list_all P xs \<Longrightarrow> i < length xs \<Longrightarrow> P (xs ! i)"
  by (simp add: list_all_length)

inductive_simps sys_step_simps: "sys_step calls s s'"

text \<open>
  The phase of a worker, in steps until it waits again; the work that is left, in steps. A process
  that crashed has none.
\<close>

definition phase :: "'a worker_pc \<Rightarrow> nat" where
  "phase pc = (case pc of Popped operation \<Rightarrow> 2 | Executing op \<Rightarrow> 1 | _ \<Rightarrow> 0)"

definition work_left :: "'a system \<Rightarrow> nat" where
  "work_left s =
     (if sys_crashed s \<noteq> None then 0
      else 3 * pcq_Size (sys_queue s) + sum_list (map (\<lambda>w. phase (w_pc w)) (sys_workers s)))"

text \<open>The workers that are in a call which never comes back, with the operation each one holds.\<close>

definition held_up :: "'a calls \<Rightarrow> nat \<Rightarrow> 'a system \<Rightarrow> 'a option" where
  "held_up calls i s =
     (case w_pc (sys_workers s ! i) of
        Executing op \<Rightarrow> (if calls i (done_by i s) op = None then Some op else None)
      | _ \<Rightarrow> None)"

definition held_up_list :: "'a calls \<Rightarrow> 'a system \<Rightarrow> (nat \<times> 'a) list" where
  "held_up_list calls s =
     List.map_filter (\<lambda>i. map_option (Pair i) (held_up calls i s)) [0..<length (sys_workers s)]"

lemma sum_list_update_nat:
  fixes f :: "'b \<Rightarrow> nat"
  assumes "i < length xs"
  shows "sum_list (map f (xs[i := x])) + f (xs ! i) = sum_list (map f xs) + f x"
  using assms
proof (induction xs arbitrary: i)
  case (Cons a xs)
  show ?case
  proof (cases i)
    case (Suc j)
    with Cons.IH [of j] Cons.prems show ?thesis by simp
  qed simp
qed simp

lemma phase_le_sum: "i < length ws \<Longrightarrow> phase (w_pc (ws ! i)) \<le> sum_list (map (\<lambda>w. phase (w_pc w)) ws)"
  using elem_le_sum_list [of i "map (\<lambda>w. phase (w_pc w)) ws"] by simp

lemma undisturbed_worker_step:
  assumes "worker_step calls i s = Some s'" and "i < length (sys_workers s)" and "undisturbed s"
    and "sys_crashed s = None"
  shows "undisturbed s' \<and> sys_pushed s' = sys_pushed s \<and> length (sys_workers s') = length (sys_workers s) \<and>
    Suc (work_left s') \<le> work_left s"
proof -
  let ?w = "sys_workers s ! i"
  from assms(2,3) have w: "at_work (w_pc ?w)" "\<not> w_token ?w"
    by (auto simp: undisturbed_def dest!: list_all_nth [of _ _ i])
  note upd = sum_list_update_nat [OF assms(2), of "\<lambda>w. phase (w_pc w)"]
  from assms(1) show ?thesis
  proof (cases rule: worker_step_cases)
    case shut
    with assms(3) show ?thesis by (simp add: undisturbed_def)
  next
    case (pop op ops)
    from upd [of "?w\<lparr>w_pc := Popped (Some op)\<rparr>"] pop assms(3,4) w show ?thesis
      by (simp add: undisturbed_def list_all_update work_left_def pcq_Size_def phase_def)
  next
    case (leave operation)
    with w show ?thesis by simp
  next
    case (execute op)
    from upd [of "?w\<lparr>w_pc := Executing op\<rparr>"] execute assms(3,4) w show ?thesis
      by (simp add: undisturbed_def list_all_update work_left_def phase_def)
  next
    case (crash op k)
    then have "0 < sum_list (map (\<lambda>w. phase (w_pc w)) (sys_workers s))"
      using phase_le_sum [OF assms(2)] by (simp add: phase_def)
    with crash assms(3,4) show ?thesis by (simp add: undisturbed_def work_left_def)
  next
    case (finish op)
    from upd [of "?w\<lparr>w_pc := Waiting\<rparr>"] finish assms(3,4) w show ?thesis
      by (simp add: undisturbed_def list_all_update work_left_def phase_def)
  qed
qed

lemma dtor_step_not_alive:
  "dtor_step i s = Some s' \<Longrightarrow> i < length (sys_workers s) \<Longrightarrow> \<not> all_alive s'"
  by (auto elim!: dtor_step_cases simp: all_alive_def list_all_length)

text \<open>A destructor only moves forward; so who is alive after a step was alive before it.\<close>

lemma dtor_forward:
  assumes "sys_step calls s s'"
  shows "w_dtor (sys_workers s ! j) \<le> w_dtor (sys_workers s' ! j)"
  using assms(1) unfolding sys_step_simps
proof (elim disjE exE conjE)
  show "s' = do_push op s \<Longrightarrow> ?thesis" for op by simp
  show ?thesis if i: "i < length (sys_workers s)" and "worker_step calls i s = Some s'" for i
    using that(2) by (cases rule: worker_step_cases) (use i in \<open>auto simp: nth_list_update\<close>)
  show ?thesis if i: "i < length (sys_workers s)" and "dtor_step i s = Some s'" for i
    using that(2) by (cases rule: dtor_step_cases) (use i in \<open>auto simp: nth_list_update less_eq_dtor_pc_def\<close>)
qed

lemma alive_before:
  assumes "sys_step calls s s'" and "dtor_inv s" and "all_alive s'"
  shows "all_alive s"
  unfolding all_alive_def list_all_length
proof (intro allI impI)
  fix j
  assume "j < length (sys_workers s)"
  with assms(3) dtor_inv_step [OF assms(1,2)] have "w_dtor (sys_workers s' ! j) = Alive"
    by (simp add: all_alive_def list_all_length)
  with dtor_forward [OF assms(1), of j] show "w_dtor (sys_workers s ! j) = Alive" by simp
qed

lemma undisturbed_reachable:
  assumes "reachable calls (sys_new n) s" and "all_alive s"
  shows "undisturbed s"
  using assms
proof (induction rule: reachable.induct)
  case reach_refl
  then show ?case by (simp add: undisturbed_def sys_new_def worker_new_def pcq_new_def list_all_iff)
next
  case (reach_step s' s'')
  have "dtor_inv s'" using dtor_inv_reachable [OF reach_step.hyps(1) dtor_inv_new] by blast
  with reach_step alive_before have u: "undisturbed s'" by blast
  from reach_step.hyps(2) show ?case
    unfolding sys_step_simps
  proof (elim disjE exE conjE)
    fix op
    assume "s'' = do_push op s'"
    with u show ?thesis by (simp add: undisturbed_def)
  next
    fix i
    assume "sys_crashed s' = None" "i < length (sys_workers s')" "worker_step calls i s' = Some s''"
    with u undisturbed_worker_step show ?thesis by blast
  next
    fix i
    assume "i < length (sys_workers s')" "dtor_step i s' = Some s''"
    with reach_step.prems show ?thesis by (simp add: dtor_step_not_alive)
  qed
qed

subsection \<open>Runs of the workers alone\<close>

inductive worker_run :: "'a calls \<Rightarrow> nat \<Rightarrow> 'a system \<Rightarrow> 'a system \<Rightarrow> bool" for calls where
  run_none: "worker_run calls 0 s s"
| run_more: "worker_run calls k s s' \<Longrightarrow> sys_crashed s' = None \<Longrightarrow> i < length (sys_workers s') \<Longrightarrow>
    worker_step calls i s' = Some s'' \<Longrightarrow> worker_run calls (Suc k) s s''"

lemma worker_run_undisturbed:
  "worker_run calls k s s' \<Longrightarrow> undisturbed s \<Longrightarrow>
   undisturbed s' \<and> sys_pushed s' = sys_pushed s \<and> length (sys_workers s') = length (sys_workers s) \<and>
   k + work_left s' \<le> work_left s"
  by (induction rule: worker_run.induct) (auto dest: undisturbed_worker_step)

lemma worker_run_reachable: "worker_run calls k s s' \<Longrightarrow> reachable calls r s \<Longrightarrow> reachable calls r s'"
  by (induction rule: worker_run.induct) (auto intro: reachable.intros step_worker)

text \<open>A process that crashed was brought down by the call some worker is still in.\<close>

definition crash_known :: "'a calls \<Rightarrow> 'a system \<Rightarrow> bool" where
  "crash_known calls s \<longleftrightarrow> (case sys_crashed s of None \<Rightarrow> True | Some k \<Rightarrow>
     \<exists>i < length (sys_workers s). \<exists>op. w_pc (sys_workers s ! i) = Executing op \<and>
       calls i (done_by i s) op = Some (Crash k))"

lemma crash_known_step:
  assumes "sys_step calls s s'"
  shows "crash_known calls s'"
  using assms unfolding sys_step_simps
proof (elim disjE exE conjE)
  show "s' = do_push op s \<Longrightarrow> sys_crashed s = None \<Longrightarrow> ?thesis" for op by (simp add: crash_known_def)
next
  fix i
  assume i: "i < length (sys_workers s)" "sys_crashed s = None" and st: "worker_step calls i s = Some s'"
  from st show ?thesis
    by (cases rule: worker_step_cases) (use i in \<open>auto simp: crash_known_def done_by_def\<close>)
next
  fix i
  assume "sys_crashed s = None" and "dtor_step i s = Some s'"
  from this(2,1) show ?thesis by (cases rule: dtor_step_cases) (auto simp: crash_known_def)
qed

lemma crash_known_reachable: "reachable calls (sys_new n) s \<Longrightarrow> crash_known calls s"
  by (erule reachable.cases) (auto simp: crash_known_def sys_new_def dest: crash_known_step)

text \<open>When no worker can go on, each one waits at the empty queue or is held up.\<close>

lemma stopped_worker:
  assumes "worker_step calls i s = None" and "i < length (sys_workers s)" and "undisturbed s"
  shows "(\<exists>op. held_up calls i s = Some op \<and> in_flight (sys_workers s ! i) = [op]) \<or>
    held_up calls i s = None \<and> in_flight (sys_workers s ! i) = [] \<and> q_items (sys_queue s) = []"
proof -
  let ?w = "sys_workers s ! i"
  have "at_work (w_pc ?w)" "\<not> w_token ?w"
    using assms(2,3) by (auto simp: undisturbed_def dest!: list_all_nth [of _ _ i])
  with assms(1,3) show ?thesis
    by (cases "w_pc ?w")
      (auto simp: worker_step_def Let_def pcq_WaitAndPop_def undisturbed_def held_up_def in_flight_pc
        split: option.splits outcome.splits if_splits)
qed

lemma concat_map_filter:
  "(\<And>x. x \<in> set xs \<Longrightarrow> f x = (case g x of None \<Rightarrow> [] | Some y \<Rightarrow> [h y])) \<Longrightarrow>
   concat (map f xs) = map h (List.map_filter g xs)"
  by (induction xs) (auto simp: map_filter_simps split: option.splits)

lemma length_map_filter_all: "(\<And>x. x \<in> set xs \<Longrightarrow> g x \<noteq> None) \<Longrightarrow> length (List.map_filter g xs) = length xs"
  by (induction xs) (auto simp: map_filter_simps split: option.splits)

lemma stopped_system:
  assumes "\<forall>i < length (sys_workers s). worker_step calls i s = None" and "undisturbed s"
  shows "all_in_flight s = map snd (held_up_list calls s)"
    and "q_items (sys_queue s) \<noteq> [] \<Longrightarrow> length (held_up_list calls s) = length (sys_workers s)"
proof -
  have st: "(\<exists>op. held_up calls i s = Some op \<and> in_flight (sys_workers s ! i) = [op]) \<or>
    held_up calls i s = None \<and> in_flight (sys_workers s ! i) = [] \<and> q_items (sys_queue s) = []"
    if "i < length (sys_workers s)" for i
    using stopped_worker [OF _ that assms(2)] assms(1) that by blast
  have "map in_flight (sys_workers s) = map (\<lambda>i. in_flight (sys_workers s ! i)) [0..<length (sys_workers s)]"
    by (rule nth_equalityI) simp_all
  then have "all_in_flight s = concat (map (\<lambda>i. in_flight (sys_workers s ! i)) [0..<length (sys_workers s)])"
    by (simp only: all_in_flight_def)
  also have "\<dots> = map snd (held_up_list calls s)"
    unfolding held_up_list_def
  proof (rule concat_map_filter)
    fix i assume "i \<in> set [0..<length (sys_workers s)]"
    then have "i < length (sys_workers s)" by simp
    from st [OF this] show "in_flight (sys_workers s ! i) =
        (case map_option (Pair i) (held_up calls i s) of None \<Rightarrow> [] | Some y \<Rightarrow> [snd y])" by (elim disjE exE conjE) simp_all
  qed
  finally show "all_in_flight s = map snd (held_up_list calls s)" .
  show "length (held_up_list calls s) = length (sys_workers s)" if "q_items (sys_queue s) \<noteq> []"
    unfolding held_up_list_def by (subst length_map_filter_all) (use st that in fastforce)+
qed

subsection \<open>The calls of the pool's workers\<close>

text \<open>
  \<open>operation->call()\<close> on worker \<open>i\<close>, whose connection starts as \<open>conns i\<close>: what the modelled operation
  makes of the connection as the operations executed before have left it. Each operation comes with
  its clock. The clean-up of a transaction that nothing else holds, when the operation is deleted, is
  not part of it.
\<close>

definition worker_calls ::
  "(nat \<Rightarrow> mysql) \<Rightarrow> (nat \<Rightarrow> conn) \<Rightarrow> ((nat \<Rightarrow> int) \<times> operation) calls" where
  "worker_calls libs conns i before op =
     bind_run (run_operations (libs i) before (conns i)) (\<lambda>(ops, c).
       bind_run (op_call (libs i) (fst op) (snd op) c) (\<lambda>r. Some (Ret ())))"

subsection \<open>Property\<close>

text \<open>
  C16. The queue is worked off, but for calls that do not come back. From any state that is reached
  while no worker is being destroyed, every run of the workers, scheduled in any way, has at most
  \<open>work_left\<close> steps, three for each queued operation. Where a run cannot be continued the process was
  brought down by a call that crashed; or every pushed operation is executed, except one for each
  worker that is held in a call that never returns, and except what is still queued, which there
  is only when all workers are held so. When every call of a pushed operation returns, on every
  worker and after any of the pushed ones, there is no crash, and exactly the pushed operations are
  executed.
\<close>

theorem queue_is_worked_off:
  assumes "reachable calls (sys_new n) s" and "0 < n" and "all_alive s" and "worker_run calls k s s'"
  shows "k + work_left s' \<le> work_left s \<and>
    (case sys_crashed s' of
       Some e \<Rightarrow> \<exists>i < n. \<exists>op. w_pc (sys_workers s' ! i) = Executing op \<and> calls i (done_by i s') op = Some (Crash e)
     | None \<Rightarrow> (\<forall>i < n. worker_step calls i s' = None) \<longrightarrow>
         mset (sys_pushed s) = mset (map snd (sys_done s')) + mset (map snd (held_up_list calls s')) +
           mset (q_items (sys_queue s')) \<and>
         (q_items (sys_queue s') \<noteq> [] \<longrightarrow> length (held_up_list calls s') = n)) \<and>
    ((\<forall>op \<in> set (sys_pushed s). \<forall>i before. set before \<subseteq> set (sys_pushed s) \<longrightarrow> calls i before op = Some (Ret ())) \<longrightarrow>
       sys_crashed s' = None \<and>
       ((\<forall>i < n. worker_step calls i s' = None) \<longrightarrow> mset (map snd (sys_done s')) = mset (sys_pushed s)))"
proof -
  note run = worker_run_undisturbed [OF assms(4) undisturbed_reachable [OF assms(1,3)]]
  note reach = worker_run_reachable [OF assms(4,1)]
  have len: "length (sys_workers s') = n"
    using dtor_inv_reachable [OF reach dtor_inv_new] by (simp add: sys_new_def)
  have crash: "\<exists>i < n. \<exists>op. w_pc (sys_workers s' ! i) = Executing op \<and> calls i (done_by i s') op = Some (Crash e)"
    if "sys_crashed s' = Some e" for e
    using crash_known_reachable [OF reach] that len by (simp add: crash_known_def)
  have acc: "mset (sys_pushed s) = mset (q_items (sys_queue s')) + mset (all_in_flight s') + mset (map snd (sys_done s'))"
    using accounted_reachable [OF reach accounted_new] run by (simp add: accounted_def undisturbed_def)
  have flight: "op \<in> set (sys_pushed s)" "set (done_by i s') \<subseteq> set (sys_pushed s)"
    if "i < n" "w_pc (sys_workers s' ! i) = Executing op" for i op
  proof -
    have "in_flight (sys_workers s' ! i) = [op]" using that(2) by (rule in_flight_pc)
    then have "op \<in> set (all_in_flight s')"
      using that(1) len unfolding all_in_flight_def by (force simp: in_set_conv_nth)
    moreover have "set (done_by i s') \<subseteq> set (map snd (sys_done s'))" by (auto simp: done_by_def)
    moreover have "set (sys_pushed s) = set (q_items (sys_queue s')) \<union> set (all_in_flight s') \<union> set (map snd (sys_done s'))"
      using acc by (metis mset_append set_append set_mset_mset)
    ultimately show "op \<in> set (sys_pushed s)" "set (done_by i s') \<subseteq> set (sys_pushed s)" by auto
  qed
  note stop = stopped_system [of s' calls, unfolded len]
  have returns: "sys_crashed s' = None \<and> held_up_list calls s' = []"
    if "\<forall>op \<in> set (sys_pushed s). \<forall>i before. set before \<subseteq> set (sys_pushed s) \<longrightarrow> calls i before op = Some (Ret ())"
  proof -
    have "calls i (done_by i s') op = Some (Ret ())" if "i < n" "w_pc (sys_workers s' ! i) = Executing op" for i op
      using flight that \<open>\<forall>op \<in> _. _\<close> by blast
    moreover from this have "held_up calls i s' = None" if "i < n" for i
      using that by (auto simp: held_up_def split: worker_pc.splits)
    ultimately show ?thesis
      using crash by (cases "sys_crashed s'") (auto simp: held_up_list_def len map_filter_def filter_empty_conv)
  qed
  show ?thesis
    using run crash acc stop returns assms(2) by (auto split: option.splits)
qed

text \<open>A worker of the pool with a ping in its queue.\<close>

lemma ping_returns:
  assumes "c_open c" and "set before \<subseteq> {(clock, OpPing)}"
  shows "\<exists>ops c'. run_operations env before c = Some (Ret (ops, c')) \<and> c_open c'"
  using assms
proof (induction before arbitrary: c)
  case (Cons x before)
  then have x: "x = (clock, OpPing)" "set before \<subseteq> {(clock, OpPing)}" by auto
  obtain ops c' where "run_operations env before (conn_event EvPing c) = Some (Ret (ops, c'))" "c_open c'"
    using Cons.IH [of "conn_event EvPing c"] Cons.prems(1) x(2) by (auto simp: conn_event_def)
  with x Cons.prems(1) show ?case
    by (simp add: bind_run_def op_call_def op_Execute_def PingOperation_Execute_def Ping_def)
qed simp

lemma ping_call_returns:
  assumes "set before \<subseteq> {(clock, OpPing)}"
  shows "worker_calls (\<lambda>_. env) (\<lambda>_. sample_conn) i before (clock, OpPing) = Some (Ret ())"
proof -
  obtain ops c' where "run_operations env before sample_conn = Some (Ret (ops, c'))" "c_open c'"
    using ping_returns [OF sample_conn_facts(1) assms] by blast
  then show ?thesis
    by (simp add: worker_calls_def bind_run_def op_call_def op_Execute_def PingOperation_Execute_def Ping_def)
qed

theorem queue_is_worked_off_witness:
  "\<exists>s k s'. s = do_push ((\<lambda>_. 0), OpPing) (sys_new 1) \<and>
     worker_run (worker_calls (\<lambda>_. sample_lib (\<lambda>_ _. Okay) (\<lambda>_ _. Okay)) (\<lambda>_. sample_conn)) k s s' \<and> k = 3 \<and>
     work_left s' = 0 \<and> mset (map snd (sys_done s')) = {#((\<lambda>_. 0), OpPing)#}"
proof -
  let ?calls = "worker_calls (\<lambda>_. sample_lib (\<lambda>_ _. Okay) (\<lambda>_ _. Okay)) (\<lambda>_. sample_conn)"
  let ?op = "((\<lambda>_. 0), OpPing) :: (nat \<Rightarrow> int) \<times> operation"
  let ?st = "\<lambda>pc q dn. \<lparr>sys_queue = \<lparr>q_items = q, q_shutdown = False\<rparr>,
    sys_workers = [\<lparr>w_pc = pc, w_token = False, w_dtor = Alive\<rparr>], sys_pushed = [?op], sys_done = dn,
    sys_deleted = [], sys_dropped = [], sys_crashed = None\<rparr> :: ((nat \<Rightarrow> int) \<times> operation) system"
  have s: "do_push ?op (sys_new 1) = ?st Waiting [?op] []"
    by (simp add: do_push_def sys_new_def pcq_Push_def pcq_new_def worker_new_def)
  have "reachable ?calls (sys_new 1) (do_push ?op (sys_new 1))"
    by (rule reach_step [OF reach_refl step_push]) (simp add: sys_new_def)
  then have reach: "reachable ?calls (sys_new 1) (?st Waiting [?op] [])" unfolding s .
  have r1: "worker_run ?calls (Suc 0) (?st Waiting [?op] []) (?st (Popped (Some ?op)) [] [])"
    by (rule run_more [OF run_none, of _ 0]) (simp_all add: worker_step_def pcq_WaitAndPop_def set_worker_def)
  have r2: "worker_run ?calls (Suc (Suc 0)) (?st Waiting [?op] []) (?st (Executing ?op) [] [])"
    by (rule run_more [OF r1, of 0]) (simp_all add: worker_step_def set_worker_def)
  have r3: "worker_run ?calls (Suc (Suc (Suc 0))) (?st Waiting [?op] []) (?st Waiting [] [(0, ?op)])"
    by (rule run_more [OF r2, of 0]) (simp_all add: worker_step_def set_worker_def ping_call_returns done_by_def)
  have alive: "all_alive (?st Waiting [?op] [])" by (simp add: all_alive_def)
  have stop: "\<forall>i < 1. worker_step ?calls i (?st Waiting [] [(0, ?op)]) = None"
    by (simp add: worker_step_def pcq_WaitAndPop_def)
  have ret: "\<forall>op \<in> set (sys_pushed (?st Waiting [?op] [])). \<forall>i before.
      set before \<subseteq> set (sys_pushed (?st Waiting [?op] [])) \<longrightarrow> ?calls i before op = Some (Ret ())"
    by (simp add: ping_call_returns)
  note claim = queue_is_worked_off [OF reach zero_less_one alive r3]
  have "Suc (Suc (Suc 0)) + work_left (?st Waiting [] [(0, ?op)]) \<le> work_left (?st Waiting [?op] [])"
    by (rule claim [THEN conjunct1])
  moreover have "mset (map snd (sys_done (?st Waiting [] [(0, ?op)]))) = mset (sys_pushed (?st Waiting [?op] []))"
    by (rule claim [THEN conjunct2, THEN conjunct2, THEN mp, OF ret, THEN conjunct2, THEN mp, OF stop])
  moreover have "work_left (?st Waiting [?op] []) = 3" by (simp add: work_left_def pcq_Size_def phase_def)
  ultimately have worked: "work_left (?st Waiting [] [(0, ?op)]) = 0"
    "mset (map snd (sys_done (?st Waiting [] [(0, ?op)]))) = {#?op#}" by simp_all
  have three: "Suc (Suc (Suc 0)) = 3" by simp
  show ?thesis
    unfolding s by (intro exI conjI, rule refl, rule r3, rule three, rule worked(1), rule worked(2))
qed

end
