(* ===== verification/Async_Flow.thy ===== *)
theory Async_Flow
  imports Pool_Locks
begin

section \<open>An asynchronous query from the call to its callback\<close>

text \<open>
  The pool, its worker threads and the list of pending callbacks put together: a caller queues
  operations and keeps callbacks (DatabaseWorkerPool.cpp, QueryCallback.cpp), the workers take the
  operations from the shared queue and run them on their connections (DatabaseWorker.cpp), and the
  caller polls for results (AsyncCallbackProcessor.h), in any order of these steps.
\<close>

subsection \<open>The parts together\<close>

text \<open>
  An operation is named by its ticket, the number of operations queued before it; the ticket of a
  callback stands for the shared state of the promise and the future. \<open>fl_running\<close> is what each
  worker has taken and not finished. The last four fields only record what happened: the
  operations queued, the callbacks given, what the workers ran (ticket, connection with its library,
  operation) and which callbacks were called with what.
\<close>

record 'id flow =
  fl_pool :: pool
  fl_running :: "(nat \<times> operation) option list"
  fl_callbacks :: "(nat \<times> (answer, 'id) qcb) list"
  fl_pushed :: "operation list"
  fl_asked :: "(nat \<times> 'id) list"
  fl_executed :: "(nat \<times> nat \<times> conn \<times> operation) list"
  fl_delivered :: "(nat \<times> 'id \<times> answer) list"

definition flow_new :: "pool \<Rightarrow> 'id flow" where
  "flow_new p = \<lparr>fl_pool = p, fl_running = replicate (length (p_async p)) None, fl_callbacks = [], fl_pushed = [],
     fl_asked = [], fl_executed = [], fl_delivered = []\<rparr>"

subsection \<open>The caller\<close>

definition submit :: "operation \<Rightarrow> 'id flow \<Rightarrow> 'id flow" where
  "submit op s = s\<lparr>fl_pool := Enqueue op (fl_pool s), fl_pushed := fl_pushed s @ [op]\<rparr>"

text \<open>\<open>AddCallback(AsyncQuery(...).WithCallback(...))\<close>, for both kinds of queries.\<close>

definition keep_callback :: "'id \<Rightarrow> (answer, 'id) qcb \<Rightarrow> pool \<Rightarrow> 'id flow \<Rightarrow> 'id flow" where
  "keep_callback cbid cb p s =
     (let t = length (fl_pushed s) in
      s\<lparr>fl_pool := p, fl_callbacks := AddCallback (t, cb) (fl_callbacks s),
        fl_pushed := fl_pushed s @ [last (q_items (p_queue p))], fl_asked := fl_asked s @ [(t, cbid)]\<rparr>)"

definition ask_text :: "string \<Rightarrow> 'id \<Rightarrow> 'id flow \<Rightarrow> 'id flow outcome" where
  "ask_text sql cbid s =
     (case AsyncQuery_sql sql (fl_pool s) of (cb, p) \<Rightarrow>
        bind_outcome (WithCallback cbid cb) (\<lambda>cb. Ret (keep_callback cbid cb p s)))"

definition ask_stmt :: "stmt \<Rightarrow> 'id \<Rightarrow> 'id flow \<Rightarrow> 'id flow outcome" where
  "ask_stmt st cbid s =
     (case AsyncQuery_stmt st (fl_pool s) of (cb, p) \<Rightarrow>
        bind_outcome (WithPreparedCallback cbid cb) (\<lambda>cb. Ret (keep_callback cbid cb p s)))"

text \<open>The callbacks of \<open>WithCallback\<close> do not touch the query callback, so the chain ends after one.\<close>

definition delivered :: "nat \<times> (answer, 'id) qcb \<Rightarrow> (nat \<times> 'id \<times> answer) list" where
  "delivered x =
     (case qc_future (snd x) of FReady a \<Rightarrow> [(fst x, snd (hd (qc_callbacks (snd x))), a)] | _ \<Rightarrow> [])"

definition poll_one :: "(nat \<times> (answer, 'id) qcb, (nat \<times> 'id \<times> answer) list) invoke_fun" where
  "poll_one x log =
     bind_outcome (qc_InvokeIfReady (\<lambda>_ _. Ret) (snd x)) (\<lambda>(cb, complete).
       Ret ((fst x, cb), complete, [], log @ delivered x))"

definition poll :: "'id flow \<Rightarrow> 'id flow outcome" where
  "poll s =
     bind_outcome (ProcessReadyCallbacks poll_one (fl_callbacks s) (fl_delivered s)) (\<lambda>(cbs, log).
       Ret (s\<lparr>fl_callbacks := cbs, fl_delivered := log\<rparr>))"

subsection \<open>The workers\<close>

text \<open>
  The loop of a worker, cut where other threads can be seen: taking an operation, which waits while
  the queue is empty and does not happen while the worker runs one; and running it, which makes the
  future of its callback ready.
\<close>

definition take_op :: "nat \<Rightarrow> 'id flow \<Rightarrow> 'id flow" where
  "take_op w s =
     (if \<not> w < length (fl_running s) \<or> fl_running s ! w \<noteq> None then s
      else
        (case pcq_WaitAndPop (p_queue (fl_pool s)) of
           Some (q, Some op) \<Rightarrow>
             s\<lparr>fl_pool := (fl_pool s)\<lparr>p_queue := q\<rparr>,
               fl_running := (fl_running s)[w := Some (length (fl_pushed s) - QueueSize (fl_pool s), op)]\<rparr>
         | _ \<Rightarrow> s))"

definition set_async :: "nat \<Rightarrow> conn \<Rightarrow> pool \<Rightarrow> pool" where
  "set_async w c p = p\<lparr>p_async := (p_async p)[w := (fst (p_async p ! w), c)]\<rparr>"

definition fulfil :: "nat \<Rightarrow> answer option \<Rightarrow> (nat \<times> (answer, 'id) qcb) list \<Rightarrow> (nat \<times> (answer, 'id) qcb) list" where
  "fulfil t a cbs = map (\<lambda>(k, cb). (k, if k = t then arrive a cb else cb)) cbs"

definition run_op :: "libs \<Rightarrow> (nat \<Rightarrow> nat \<Rightarrow> int) \<Rightarrow> nat \<Rightarrow> 'id flow \<Rightarrow> 'id flow outcome option" where
  "run_op libs clocks w s =
     (if \<not> w < length (fl_running s) then Some (Ret s)
      else
        (case fl_running s ! w of
           None \<Rightarrow> Some (Ret s)
         | Some (t, op) \<Rightarrow>
             (case p_async (fl_pool s) ! w of (n, c) \<Rightarrow>
                bind_run (op_call (libs n) (clocks t) op c) (\<lambda>(r, op', c').
                  Some (Ret (s\<lparr>fl_pool := share_info (c_info c') (set_async w c' (fl_pool s)),
                    fl_running := (fl_running s)[w := None],
                    fl_callbacks := fulfil t (task_answer op') (fl_callbacks s),
                    fl_executed := fl_executed s @ [(t, n, c, op)]\<rparr>))))))"

subsection \<open>Runs\<close>

datatype 'id flow_event = AskText string 'id | AskStmt stmt 'id | Submit operation | Poll | Take nat | Run nat

definition flow_step ::
  "libs \<Rightarrow> (nat \<Rightarrow> nat \<Rightarrow> int) \<Rightarrow> 'id flow_event \<Rightarrow> 'id flow \<Rightarrow> 'id flow outcome option" where
  "flow_step libs clocks e s =
     (case e of
        AskText sql cbid \<Rightarrow> Some (ask_text sql cbid s)
      | AskStmt st cbid \<Rightarrow> Some (ask_stmt st cbid s)
      | Submit op \<Rightarrow> Some (Ret (submit op s))
      | Poll \<Rightarrow> Some (poll s)
      | Take w \<Rightarrow> Some (Ret (take_op w s))
      | Run w \<Rightarrow> run_op libs clocks w s)"

primrec flow_run ::
  "libs \<Rightarrow> (nat \<Rightarrow> nat \<Rightarrow> int) \<Rightarrow> 'id flow_event list \<Rightarrow> 'id flow \<Rightarrow> 'id flow outcome option" where
  "flow_run libs clocks [] s = Some (Ret s)"
| "flow_run libs clocks (e # es) s = bind_run (flow_step libs clocks e s) (flow_run libs clocks es)"

text \<open>Nothing is queued and nothing runs.\<close>

definition worked_off :: "'id flow \<Rightarrow> bool" where
  "worked_off s \<longleftrightarrow> QueueSize (fl_pool s) = 0 \<and> (\<forall>r \<in> set (fl_running s). r = None)"

text \<open>
  \<open>gives env c op a\<close>: \<open>a\<close> is what the query of \<open>op\<close> gives on the connection \<open>c\<close>, by the synchronous
  functions of the connection.
\<close>

definition gives :: "mysql \<Rightarrow> conn \<Rightarrow> operation \<Rightarrow> answer \<Rightarrow> bool" where
  "gives env c op a \<longleftrightarrow>
     (case op of
        OpBasic b \<Rightarrow>
          (case conn_Query_sql env (bt_sql b) c of
             Some (Ret (rs, _)) \<Rightarrow> map_outcome TextAnswer (first_row rs) = Ret a
           | _ \<Rightarrow> False)
      | OpPrepared p \<Rightarrow>
          (case task_stmt env (pt_stmt p) c of
             Ret (st, c1) \<Rightarrow>
               (case conn_Query_stmt env st c1 of Some (Ret (rs, _)) \<Rightarrow> a = RowsAnswer (non_empty rs) | _ \<Rightarrow> False)
           | _ \<Rightarrow> False)
      | _ \<Rightarrow> False)"

subsection \<open>What a task puts into its promise\<close>

lemma op_call_gives:
  assumes "open_question op" and "op_call env clock op c = Some (Ret (r, op', c'))"
  shows "\<exists>a. task_answer op' = Some a \<and> gives env c op a"
proof (cases op)
  case (OpBasic b)
  with assms obtain rs res where q: "conn_Query_sql env (bt_sql b) c = Some (Ret (rs, c'))" "first_row rs = Ret res"
    and op': "op' = OpBasic (b\<lparr>bt_result := Some (FReady res)\<rparr>)"
    by (auto simp: open_question_def op_call_def op_Execute_def BasicStatementTask_Execute_def)
  with OpBasic show ?thesis by (simp add: task_answer_def gives_def)
next
  case (OpPrepared p)
  with assms obtain st c1 rs st' where "task_stmt env (pt_stmt p) c = Ret (st, c1)"
    "conn_Query_stmt env st c1 = Some (Ret (rs, st', c'))"
    and "op' = OpPrepared (p\<lparr>pt_result := Some (FReady (non_empty rs))\<rparr>)"
    by (auto simp: open_question_def op_call_def op_Execute_def PreparedStatementTask_Execute_def)
  with OpPrepared show ?thesis by (simp add: task_answer_def gives_def)
qed (use assms(1) in \<open>simp_all add: open_question_def\<close>)

subsection \<open>Tickets\<close>

definition tickets :: "(nat \<times> operation) option list \<Rightarrow> nat list" where
  "tickets rs = concat (map (\<lambda>r. case r of None \<Rightarrow> [] | Some (t, op) \<Rightarrow> [t]) rs)"

definition taken :: "'id flow \<Rightarrow> nat" where
  "taken s = length (fl_pushed s) - length (q_items (p_queue (fl_pool s)))"

text \<open>Every ticket up to the number of operations taken is running or done, once.\<close>

definition work_inv :: "'id flow \<Rightarrow> bool" where
  "work_inv s \<longleftrightarrow>
     length (fl_running s) = length (p_async (fl_pool s)) \<and>
     length (q_items (p_queue (fl_pool s))) \<le> length (fl_pushed s) \<and>
     q_items (p_queue (fl_pool s)) = drop (taken s) (fl_pushed s) \<and>
     mset (tickets (fl_running s)) + mset (map fst (fl_executed s)) = mset [0..<taken s] \<and>
     (\<forall>t op. Some (t, op) \<in> set (fl_running s) \<longrightarrow> op = fl_pushed s ! t) \<and>
     (\<forall>(t, n, c, op) \<in> set (fl_executed s). op = fl_pushed s ! t)"

lemma tickets_update:
  assumes "w < length rs"
  shows "mset (tickets (rs[w := Some (t, op)])) = add_mset t (mset (tickets (rs[w := None])))"
    and "rs ! w = None \<Longrightarrow> mset (tickets (rs[w := None])) = mset (tickets rs)"
    and "rs ! w = Some (t, op) \<Longrightarrow> mset (tickets rs) = add_mset t (mset (tickets (rs[w := None])))"
  using assms by (auto simp: tickets_def upd_conv_take_nth_drop
      id_take_nth_drop [OF assms, THEN arg_cong, of "\<lambda>rs. mset (concat (map (\<lambda>r. case r of None \<Rightarrow> [] | Some (t, op) \<Rightarrow> [t]) rs))"])

lemma tickets_member: "t \<in> set (tickets rs) \<longleftrightarrow> (\<exists>op. Some (t, op) \<in> set rs)"
  by (force simp: tickets_def split: option.splits)

lemma work_inv_ticket:
  assumes "work_inv s"
  shows "Some (t, op) \<in> set (fl_running s) \<Longrightarrow> t < taken s \<and> t \<notin> fst ` set (fl_executed s)"
    and "(t, n, c, op) \<in> set (fl_executed s) \<Longrightarrow> t < taken s"
    and "taken s \<le> length (fl_pushed s)"
    and "distinct (map fst (fl_executed s))"
proof -
  have m: "mset (tickets (fl_running s) @ map fst (fl_executed s)) = mset [0..<taken s]"
    using assms by (simp add: work_inv_def)
  from mset_eq_imp_distinct_iff [OF m] have d: "distinct (tickets (fl_running s) @ map fst (fl_executed s))" by simp
  from mset_eq_setD [OF m] have st: "set (tickets (fl_running s)) \<union> fst ` set (fl_executed s) = {0..<taken s}" by simp
  show "t < taken s \<and> t \<notin> fst ` set (fl_executed s)" if "Some (t, op) \<in> set (fl_running s)"
    using that d st tickets_member [of t "fl_running s"] by auto
  show "t < taken s" if "(t, n, c, op) \<in> set (fl_executed s)"
    using that st by (force simp: image_iff)
  show "taken s \<le> length (fl_pushed s)" by (simp add: taken_def)
  show "distinct (map fst (fl_executed s))" using d by simp
qed

subsection \<open>The workers keep count\<close>

lemma pool_parts [simp]:
  "p_queue (share_info info p) = p_queue p" "length (p_async (share_info info p)) = length (p_async p)"
  "p_queue (set_async w c p) = p_queue p" "length (p_async (set_async w c p)) = length (p_async p)"
  "p_async (Enqueue op p) = p_async p" "q_items (p_queue (Enqueue op p)) = q_items (p_queue p) @ [op]"
  by (simp_all add: share_info_def set_async_def Enqueue_def pcq_Push_def)

lemma work_inv_new: "q_items (p_queue p) = [] \<Longrightarrow> work_inv (flow_new p)"
  by (auto simp: work_inv_def flow_new_def taken_def tickets_def)

lemma work_inv_push:
  assumes "work_inv s" and "fl_pool s' = Enqueue op (fl_pool s)" and "fl_pushed s' = fl_pushed s @ [op]"
    and "fl_running s' = fl_running s" and "fl_executed s' = fl_executed s"
  shows "work_inv s'"
proof -
  have le: "length (q_items (p_queue (fl_pool s))) \<le> length (fl_pushed s)" using assms(1) by (simp add: work_inv_def)
  have same: "taken s' = taken s" using assms(2,3) by (simp add: taken_def)
  have old: "(fl_pushed s @ [op]) ! t = fl_pushed s ! t" if "t < taken s" for t
    using that work_inv_ticket(3) [OF assms(1)] by (simp add: nth_append)
  have "op' = fl_pushed s' ! t" if "Some (t, op') \<in> set (fl_running s)" for t op'
    using that work_inv_ticket(1) [OF assms(1) that] assms(1,3) old [of t] by (auto simp: work_inv_def)
  moreover have "op' = fl_pushed s' ! t" if "(t, n, c, op') \<in> set (fl_executed s)" for t n c op'
    using that work_inv_ticket(2) [OF assms(1) that] assms(1,3) old [of t] by (auto simp: work_inv_def)
  ultimately show ?thesis
    using assms le work_inv_ticket(3) [OF assms(1)] by (auto simp: work_inv_def same)
qed

lemma work_inv_take:
  assumes "work_inv s"
  shows "work_inv (take_op w s)"
proof (cases "w < length (fl_running s) \<and> fl_running s ! w = None \<and> q_items (p_queue (fl_pool s)) \<noteq> [] \<and>
    \<not> q_shutdown (p_queue (fl_pool s))")
  case True
  then obtain op ops where items: "q_items (p_queue (fl_pool s)) = op # ops" by (cases "q_items (p_queue (fl_pool s))") auto
  have eq: "take_op w s = s\<lparr>fl_pool := (fl_pool s)\<lparr>p_queue := (p_queue (fl_pool s))\<lparr>q_items := ops\<rparr>\<rparr>,
      fl_running := (fl_running s)[w := Some (taken s, op)]\<rparr>"
    using True items by (simp add: take_op_def pcq_WaitAndPop_def taken_def QueueSize_def pcq_Size_def)
  have len: "Suc (length ops) \<le> length (fl_pushed s)" using assms items by (simp add: work_inv_def)
  then have next_ticket: "taken (take_op w s) = Suc (taken s)" using items by (simp add: eq taken_def)
  have d: "drop (taken s) (fl_pushed s) = op # ops" using assms items by (simp add: work_inv_def)
  then have head: "op = fl_pushed s ! taken s" "ops = drop (Suc (taken s)) (fl_pushed s)"
    by (metis nth_via_drop, metis drop_Suc list.sel(3) tl_drop)
  have ms: "mset (tickets ((fl_running s)[w := Some (taken s, op)])) = add_mset (taken s) (mset (tickets (fl_running s)))"
    using True tickets_update(1,2) [of w "fl_running s"] by auto
  have run: "op' = fl_pushed s ! t" if "Some (t, op') \<in> set ((fl_running s)[w := Some (taken s, op)])" for t op'
    using that assms head(1) set_update_subset_insert [of "fl_running s" w "Some (taken s, op)"]
    by (auto simp: work_inv_def)
  show ?thesis
    unfolding work_inv_def next_ticket using assms len head ms run by (simp add: eq work_inv_def)
next
  case False
  then have "take_op w s = s" by (auto simp: take_op_def pcq_WaitAndPop_def)
  with assms show ?thesis by simp
qed

text \<open>What a step of a worker that runs an operation does, when it returns.\<close>

lemma run_opE:
  assumes "run_op libs clocks w s = Some (Ret s')"
  obtains "s' = s"
  | t op n c r op' c' where "w < length (fl_running s)" "fl_running s ! w = Some (t, op)"
    "op_call (libs n) (clocks t) op c = Some (Ret (r, op', c'))"
    "s' = s\<lparr>fl_pool := share_info (c_info c') (set_async w c' (fl_pool s)), fl_running := (fl_running s)[w := None],
       fl_callbacks := fulfil t (task_answer op') (fl_callbacks s), fl_executed := fl_executed s @ [(t, n, c, op)]\<rparr>"
  using assms by (auto simp: run_op_def split: if_splits option.splits prod.splits)

lemma work_inv_run:
  assumes "work_inv s" and "run_op libs clocks w s = Some (Ret s')"
  shows "work_inv s'"
  using assms(2)
proof (cases rule: run_opE)
  case (2 t op n c r op' c')
  have "Some (t, op) \<in> set (fl_running s)" using 2(1,2) nth_mem by metis
  then have op: "op = fl_pushed s ! t" using assms(1) by (simp add: work_inv_def)
  have same: "taken s' = taken s" by (simp add: 2(4) taken_def)
  have ms: "mset (tickets (fl_running s)) = add_mset t (mset (tickets ((fl_running s)[w := None])))"
    by (rule tickets_update(3) [OF 2(1,2)])
  have run: "op' = fl_pushed s ! t" if "Some (t, op') \<in> set ((fl_running s)[w := None])" for t op'
    using that assms(1) set_update_subset_insert [of "fl_running s" w None] by (auto simp: work_inv_def)
  show ?thesis
    unfolding work_inv_def same using assms(1) ms run op by (auto simp: 2(4) work_inv_def)
qed (use assms(1) in simp)

subsection \<open>The callbacks and their answers\<close>

text \<open>A worker has run the operation of ticket \<open>t\<close>, and its query gave \<open>a\<close>.\<close>

definition answered :: "libs \<Rightarrow> 'id flow \<Rightarrow> nat \<Rightarrow> answer \<Rightarrow> bool" where
  "answered libs s t a \<longleftrightarrow>
     list_ex (\<lambda>(k, n, c, op). k = t \<and> op = fl_pushed s ! t \<and> gives (libs n) c op a) (fl_executed s)"

definition ready :: "nat \<times> (answer, 'id) qcb \<Rightarrow> bool" where
  "ready x \<longleftrightarrow> (case qc_future (snd x) of FReady a \<Rightarrow> True | _ \<Rightarrow> False)"

text \<open>A callback that is kept: pending while its operation is not done, then ready with its answer.\<close>

definition kept_ok :: "libs \<Rightarrow> 'id flow \<Rightarrow> nat \<times> (answer, 'id) qcb \<Rightarrow> bool" where
  "kept_ok libs s x \<longleftrightarrow>
     list_ex (\<lambda>(t, cbid). t = fst x \<and> qc_callbacks (snd x) = [(qc_isPrepared (snd x), cbid)]) (fl_asked s) \<and>
     (case qc_future (snd x) of
        FInvalid \<Rightarrow> False
      | FPending \<Rightarrow> fst x \<notin> fst ` set (fl_executed s)
      | FReady a \<Rightarrow> answered libs s (fst x) a)"

definition ask_inv :: "libs \<Rightarrow> 'id flow \<Rightarrow> bool" where
  "ask_inv libs s \<longleftrightarrow>
     distinct (map fst (fl_asked s)) \<and>
     (\<forall>(t, cbid) \<in> set (fl_asked s). t < length (fl_pushed s) \<and> open_question (fl_pushed s ! t)) \<and>
     mset (map fst (fl_callbacks s)) + mset (map fst (fl_delivered s)) = mset (map fst (fl_asked s)) \<and>
     (\<forall>x \<in> set (fl_callbacks s). kept_ok libs s x) \<and>
     (\<forall>(t, cbid, a) \<in> set (fl_delivered s). (t, cbid) \<in> set (fl_asked s) \<and> answered libs s t a)"

lemma ask_inv_new: "ask_inv libs (flow_new p)"
  by (simp add: ask_inv_def flow_new_def)

text \<open>What was true of a ticket stays true when operations are queued and run.\<close>

lemma answered_mono:
  assumes "answered libs s t a" and "t < length (fl_pushed s)"
    and "fl_pushed s' = fl_pushed s @ ops" and "fl_executed s' = fl_executed s @ xs"
  shows "answered libs s' t a"
  using assms by (auto simp: answered_def nth_append)

lemma ask_inv_push:
  assumes "ask_inv libs s" and "work_inv s" and "fl_pushed s' = fl_pushed s @ [op]"
    and "fl_executed s' = fl_executed s" and "fl_delivered s' = fl_delivered s"
    and "fl_asked s' = fl_asked s \<and> fl_callbacks s' = fl_callbacks s \<or>
      open_question op \<and> (\<exists>cbid kind. fl_asked s' = fl_asked s @ [(length (fl_pushed s), cbid)] \<and>
        fl_callbacks s' = fl_callbacks s @ [(length (fl_pushed s),
          \<lparr>qc_isPrepared = kind, qc_future = FPending, qc_callbacks = [(kind, cbid)]\<rparr>)])"
  shows "ask_inv libs s'"
proof -
  have lt: "t < length (fl_pushed s)" if "(t, cbid) \<in> set (fl_asked s)" for t cbid
    using that assms(1) by (auto simp: ask_inv_def)
  have ans: "answered libs s' t a" if "answered libs s t a" "(t, cbid) \<in> set (fl_asked s)" for t a cbid
    using answered_mono [OF that(1) lt [OF that(2)], of s' "[op]" "[]"] assms(3,4) by simp
  have sub: "set (fl_asked s) \<subseteq> set (fl_asked s')" using assms(6) by auto
  have old: "kept_ok libs s' x" if "kept_ok libs s x" for x
  proof -
    from that obtain cbid where m: "(fst x, cbid) \<in> set (fl_asked s)"
      "qc_callbacks (snd x) = [(qc_isPrepared (snd x), cbid)]" by (auto simp: kept_ok_def list_ex_iff)
    with that ans [OF _ m(1)] sub assms(4) show ?thesis
      by (auto simp: kept_ok_def list_ex_iff split: future.splits)
  qed
  have new: "length (fl_pushed s) \<notin> fst ` set (fl_executed s)"
    using work_inv_ticket(2,3) [OF assms(2)] by fastforce
  show ?thesis
    using assms(6)
  proof
    assume "fl_asked s' = fl_asked s \<and> fl_callbacks s' = fl_callbacks s"
    with assms(1,3,5) old ans lt show ?thesis by (fastforce simp: ask_inv_def nth_append)
  next
    assume "open_question op \<and> (\<exists>cbid kind. fl_asked s' = fl_asked s @ [(length (fl_pushed s), cbid)] \<and>
        fl_callbacks s' = fl_callbacks s @ [(length (fl_pushed s),
          \<lparr>qc_isPrepared = kind, qc_future = FPending, qc_callbacks = [(kind, cbid)]\<rparr>)])"
    then obtain cbid kind where q: "open_question op" and a: "fl_asked s' = fl_asked s @ [(length (fl_pushed s), cbid)]"
      and c: "fl_callbacks s' = fl_callbacks s @ [(length (fl_pushed s),
          \<lparr>qc_isPrepared = kind, qc_future = FPending, qc_callbacks = [(kind, cbid)]\<rparr>)]" by blast
    have k: "kept_ok libs s' (length (fl_pushed s), \<lparr>qc_isPrepared = kind, qc_future = FPending, qc_callbacks = [(kind, cbid)]\<rparr>)"
      using new by (simp add: kept_ok_def list_ex_iff a assms(4))
    have "distinct (map fst (fl_asked s'))" using assms(1) lt by (auto simp: ask_inv_def a)
    moreover have "\<forall>(t, cbid) \<in> set (fl_asked s'). t < length (fl_pushed s') \<and> open_question (fl_pushed s' ! t)"
      using assms(1) q by (auto simp: ask_inv_def a assms(3) nth_append)
    moreover have "mset (map fst (fl_callbacks s')) + mset (map fst (fl_delivered s')) = mset (map fst (fl_asked s'))"
      using assms(1) by (simp add: ask_inv_def a c assms(5))
    moreover have "\<forall>x \<in> set (fl_callbacks s'). kept_ok libs s' x" using assms(1) old k by (auto simp: ask_inv_def c)
    moreover have "\<forall>(t, cbid, a) \<in> set (fl_delivered s'). (t, cbid) \<in> set (fl_asked s') \<and> answered libs s' t a"
      using assms(1) ans sub by (fastforce simp: ask_inv_def assms(5))
    ultimately show ?thesis by (simp add: ask_inv_def)
  qed
qed

lemma answered_executed: "answered libs s t a \<Longrightarrow> t \<in> fst ` set (fl_executed s)"
  by (force simp: answered_def list_ex_iff)

lemma ask_inv_run:
  assumes "ask_inv libs s" and "work_inv s" and "run_op libs clocks w s = Some (Ret s')"
  shows "ask_inv libs s'"
  using assms(3)
proof (cases rule: run_opE)
  case (2 t op n c r op' c')
  have "Some (t, op) \<in> set (fl_running s)" using 2(1,2) nth_mem by metis
  with assms(2) have op: "op = fl_pushed s ! t" and fresh: "t \<notin> fst ` set (fl_executed s)"
    using work_inv_ticket(1) [OF assms(2)] by (auto simp: work_inv_def)
  have ans: "answered libs s' k a" if "answered libs s k a" for k a
    using that by (auto simp: answered_def 2(4))
  have kept: "kept_ok libs s' (fst x, if fst x = t then arrive (task_answer op') (snd x) else snd x)"
    if x: "x \<in> set (fl_callbacks s)" for x
  proof -
    have k: "kept_ok libs s x" using assms(1) x by (simp add: ask_inv_def)
    show ?thesis
    proof (cases "fst x = t")
      case False
      with k ans show ?thesis
        by (auto simp: kept_ok_def 2(4) split: future.splits)
    next
      case True
      then have pending: "qc_future (snd x) = FPending"
        using k fresh answered_executed [of libs s t] by (auto simp: kept_ok_def split: future.splits)
      have "open_question op" using k assms(1) True by (auto simp: kept_ok_def list_ex_iff ask_inv_def op)
      from op_call_gives [OF this 2(3)] obtain a where a: "task_answer op' = Some a" "gives (libs n) c op a" by blast
      have "answered libs s' t a" using a(2) op by (simp add: answered_def 2(4))
      with k True a(1) pending show ?thesis by (auto simp: kept_ok_def 2(4) arrive_def)
    qed
  qed
  have fst_cbs: "map fst (fl_callbacks s') = map fst (fl_callbacks s)"
    by (simp add: 2(4) fulfil_def split_def o_def)
  have "\<forall>x \<in> set (fl_callbacks s'). kept_ok libs s' x"
    using kept by (auto simp: 2(4) fulfil_def split_def)
  moreover have "\<forall>(t, cbid, a) \<in> set (fl_delivered s'). (t, cbid) \<in> set (fl_asked s') \<and> answered libs s' t a"
    using assms(1) ans by (fastforce simp: ask_inv_def 2(4))
  ultimately show ?thesis
    using assms(1) unfolding ask_inv_def fst_cbs by (simp add: 2(4))
qed (use assms(1) in simp)

text \<open>A poll calls the callbacks whose answers are there and drops them; it does not crash.\<close>

definition left_over :: "nat \<times> (answer, 'id) qcb \<Rightarrow> nat \<times> (answer, 'id) qcb" where
  "left_over x =
     (if ready x then (fst x, (snd x)\<lparr>qc_future := FInvalid, qc_callbacks := []\<rparr>) else x)"

lemma poll_one_eq:
  assumes "kept_ok libs s x"
  shows "poll_one x log = Ret (left_over x, ready x, [], log @ delivered x)"
  using assms
  by (cases x)
    (auto simp: kept_ok_def list_ex_iff poll_one_def qc_InvokeIfReady_def check_completion_def left_over_def ready_def
      delivered_def valid_def split: future.splits)

lemma fold_append: "fold (\<lambda>x log. log @ f x) xs log = log @ concat (map f xs)"
  by (induction xs arbitrary: log) simp_all

lemma poll_eq:
  assumes "ask_inv libs s"
  shows "poll s = Ret (s\<lparr>fl_callbacks := filter (\<lambda>x. \<not> ready x) (fl_callbacks s),
    fl_delivered := fl_delivered s @ concat (map delivered (fl_callbacks s))\<rparr>)"
proof -
  have "remove_ready poll_one (fl_callbacks s) [] [] (fl_delivered s) =
      Ret ([] @ map left_over (filter (\<lambda>x. \<not> ready x) (fl_callbacks s)), [] @ concat (map (\<lambda>_. []) (fl_callbacks s)),
        fold (\<lambda>x log. log @ delivered x) (fl_callbacks s) (fl_delivered s))"
    using assms by (intro remove_ready_eq poll_one_eq) (auto simp: ask_inv_def)
  moreover have "map left_over (filter (\<lambda>x. \<not> ready x) xs) = filter (\<lambda>x. \<not> ready x) xs"
    for xs :: "(nat \<times> (answer, 'a) qcb) list"
    by (induction xs) (simp_all add: left_over_def)
  ultimately show ?thesis
    by (cases "fl_callbacks s = []") (simp_all add: poll_def ProcessReadyCallbacks_def fold_append)
qed

lemma delivered_tickets: "map fst (concat (map delivered cbs)) = map fst (filter ready cbs)"
  by (induction cbs) (auto simp: delivered_def ready_def split: future.splits)

lemma ask_inv_poll:
  assumes "ask_inv libs s" and "poll s = Ret s'"
  shows "ask_inv libs s'"
proof -
  have s': "s' = s\<lparr>fl_callbacks := filter (\<lambda>x. \<not> ready x) (fl_callbacks s),
      fl_delivered := fl_delivered s @ concat (map delivered (fl_callbacks s))\<rparr>"
    using poll_eq [OF assms(1)] assms(2) by simp
  have a: "answered libs s' = answered libs s" by (simp add: s' answered_def fun_eq_iff)
  have "kept_ok libs s' x = kept_ok libs s x" for x
    unfolding kept_ok_def a by (simp add: s' split: future.split)
  then have same: "answered libs s' = answered libs s" "kept_ok libs s' = kept_ok libs s"
    using a by (simp_all add: fun_eq_iff)
  have new: "(t, cbid) \<in> set (fl_asked s) \<and> answered libs s t a"
    if "x \<in> set (fl_callbacks s)" "(t, cbid, a) \<in> set (delivered x)" for x t cbid a
  proof -
    have "kept_ok libs s x" using assms(1) that(1) by (simp add: ask_inv_def)
    with that(2) show ?thesis by (auto simp: kept_ok_def list_ex_iff delivered_def split: future.splits)
  qed
  have split: "mset (filter (\<lambda>x. \<not> ready x) xs) + mset (filter ready xs) = mset xs"
    for xs :: "(nat \<times> (answer, 'a) qcb) list" by (induction xs) simp_all
  have parts: "mset (map fst (filter (\<lambda>x. \<not> ready x) xs)) + mset (map fst (concat (map delivered xs))) = mset (map fst xs)"
    for xs :: "(nat \<times> (answer, 'a) qcb) list"
    unfolding delivered_tickets mset_map image_mset_union [symmetric] split ..
  have "mset (map fst (fl_callbacks s')) + mset (map fst (fl_delivered s')) = mset (map fst (fl_asked s'))"
    using parts [of "fl_callbacks s"] assms(1) by (simp add: s' ask_inv_def ac_simps)
  moreover have "\<forall>(t, cbid, a) \<in> set (fl_delivered s'). (t, cbid) \<in> set (fl_asked s') \<and> answered libs s' t a"
    using assms(1) new unfolding same by (fastforce simp: ask_inv_def s')
  ultimately show ?thesis using assms(1) unfolding ask_inv_def same by (simp add: s')
qed

subsection \<open>Runs\<close>

lemma ask_eq:
  "ask_text sql cbid s = Ret (s\<lparr>fl_pool := Enqueue (OpBasic (BasicStatementTask sql True)) (fl_pool s),
     fl_callbacks := fl_callbacks s @ [(length (fl_pushed s),
       \<lparr>qc_isPrepared = False, qc_future = FPending, qc_callbacks = [(False, cbid)]\<rparr>)],
     fl_pushed := fl_pushed s @ [OpBasic (BasicStatementTask sql True)],
     fl_asked := fl_asked s @ [(length (fl_pushed s), cbid)]\<rparr>)"
  "ask_stmt st cbid s = Ret (s\<lparr>fl_pool := Enqueue (OpPrepared (PreparedStatementTask st True)) (fl_pool s),
     fl_callbacks := fl_callbacks s @ [(length (fl_pushed s),
       \<lparr>qc_isPrepared = True, qc_future = FPending, qc_callbacks = [(True, cbid)]\<rparr>)],
     fl_pushed := fl_pushed s @ [OpPrepared (PreparedStatementTask st True)],
     fl_asked := fl_asked s @ [(length (fl_pushed s), cbid)]\<rparr>)"
  by (simp_all add: ask_text_def ask_stmt_def AsyncQuery_sql_def AsyncQuery_stmt_def WithCallback_def WithChainingCallback_def
      WithPreparedCallback_def WithChainingPreparedCallback_def qc_new_def keep_callback_def AddCallback_def Let_def)

text \<open>The operations and the callbacks of a sequence of events, in order.\<close>

definition event_ops :: "'id flow_event list \<Rightarrow> operation list" where
  "event_ops es = concat (map (\<lambda>e. case e of
     AskText sql cbid \<Rightarrow> [OpBasic (BasicStatementTask sql True)]
   | AskStmt st cbid \<Rightarrow> [OpPrepared (PreparedStatementTask st True)]
   | Submit op \<Rightarrow> [op]
   | _ \<Rightarrow> []) es)"

definition event_ids :: "'id flow_event list \<Rightarrow> 'id list" where
  "event_ids es = concat (map (\<lambda>e. case e of AskText sql cbid \<Rightarrow> [cbid] | AskStmt st cbid \<Rightarrow> [cbid] | _ \<Rightarrow> []) es)"

lemma take_op_frame [simp]:
  "fl_pushed (take_op w s) = fl_pushed s" "fl_executed (take_op w s) = fl_executed s"
  "fl_asked (take_op w s) = fl_asked s" "fl_callbacks (take_op w s) = fl_callbacks s"
  "fl_delivered (take_op w s) = fl_delivered s"
  by (auto simp: take_op_def split: option.splits prod.splits)

lemma ask_inv_take: "ask_inv libs s \<Longrightarrow> ask_inv libs (take_op w s)"
  by (simp add: ask_inv_def kept_ok_def answered_def cong: future.case_cong)

lemma inv_ask:
  assumes "work_inv s" and "ask_inv libs s" and "open_question op"
    and "s' = s\<lparr>fl_pool := Enqueue op (fl_pool s),
      fl_callbacks := fl_callbacks s @ [(length (fl_pushed s),
        \<lparr>qc_isPrepared = kind, qc_future = FPending, qc_callbacks = [(kind, cbid)]\<rparr>)],
      fl_pushed := fl_pushed s @ [op], fl_asked := fl_asked s @ [(length (fl_pushed s), cbid)]\<rparr>"
  shows "work_inv s' \<and> ask_inv libs s'"
proof
  show "work_inv s'" by (rule work_inv_push [OF assms(1)]) (simp_all add: assms(4))
  show "ask_inv libs s'"
    using ask_inv_push [OF assms(2,1), of s' op] assms(3) by (auto simp: assms(4))
qed

text \<open>Every step keeps both invariants, and only a step of the database may fail to come back.\<close>

lemma flow_step_inv:
  assumes "work_inv s" and "ask_inv libs s" and "flow_step libs clocks e s = Some (Ret s')"
  shows "work_inv s' \<and> ask_inv libs s' \<and> fl_pushed s' = fl_pushed s @ event_ops [e] \<and>
    map snd (fl_asked s') = map snd (fl_asked s) @ event_ids [e]"
proof (cases e)
  case (Take w)
  with assms show ?thesis
    by (auto simp: flow_step_def work_inv_take ask_inv_take event_ops_def event_ids_def)
next
  case (Run w)
  then have run: "run_op libs clocks w s = Some (Ret s')" using assms(3) by (simp add: flow_step_def)
  from run have "fl_pushed s' = fl_pushed s \<and> fl_asked s' = fl_asked s" by (cases rule: run_opE) simp_all
  with Run work_inv_run [OF assms(1) run] ask_inv_run [OF assms(2,1) run] show ?thesis
    by (simp add: event_ops_def event_ids_def)
next
  case Poll
  with assms(3) have p: "poll s = Ret s'" by (simp add: flow_step_def)
  with poll_eq [OF assms(2)] have "work_inv s' = work_inv s" by (auto simp: work_inv_def taken_def)
  with Poll p assms(1) ask_inv_poll [OF assms(2) p] poll_eq [OF assms(2)] show ?thesis
    by (auto simp: event_ops_def event_ids_def)
next
  case (Submit op)
  with assms show ?thesis
    using work_inv_push [OF assms(1), of s' op] ask_inv_push [OF assms(2,1), of s' op]
    by (auto simp: flow_step_def submit_def event_ops_def event_ids_def)
next
  case (AskText sql cbid)
  let ?op = "OpBasic (BasicStatementTask sql True)"
  have "open_question ?op" by (simp add: open_question_def BasicStatementTask_def)
  with AskText assms show ?thesis
    using inv_ask [OF assms(1,2), where op = ?op and s' = s' and kind = False and cbid = cbid]
    by (auto simp: flow_step_def ask_eq event_ops_def event_ids_def)
next
  case (AskStmt st cbid)
  let ?op = "OpPrepared (PreparedStatementTask st True)"
  have "open_question ?op" by (simp add: open_question_def PreparedStatementTask_def)
  with AskStmt assms show ?thesis
    using inv_ask [OF assms(1,2), where op = ?op and s' = s' and kind = True and cbid = cbid]
    by (auto simp: flow_step_def ask_eq event_ops_def event_ids_def)
qed

lemma flow_step_returns:
  assumes "ask_inv libs s" and "\<And>w. e \<noteq> Run w"
  shows "\<exists>s'. flow_step libs clocks e s = Some (Ret s')"
  using assms(2) poll_eq [OF assms(1)] by (cases e) (auto simp: flow_step_def ask_eq)

lemma flow_run_inv:
  assumes "work_inv s" and "ask_inv libs s" and "flow_run libs clocks es s = Some (Ret s')"
  shows "work_inv s' \<and> ask_inv libs s' \<and> fl_pushed s' = fl_pushed s @ event_ops es \<and>
    map snd (fl_asked s') = map snd (fl_asked s) @ event_ids es"
  using assms
proof (induction es arbitrary: s)
  case (Cons e es)
  from Cons.prems(3) obtain s1 where s1: "flow_step libs clocks e s = Some (Ret s1)"
    "flow_run libs clocks es s1 = Some (Ret s')" by auto
  from flow_step_inv [OF Cons.prems(1,2) s1(1)] Cons.IH [OF _ _ s1(2)] show ?case
    by (auto simp: event_ops_def event_ids_def)
qed (simp add: event_ops_def event_ids_def)

lemma all_answered:
  assumes "work_inv s" and "ask_inv libs s" and "worked_off s" and "x \<in> set (fl_callbacks s)"
  shows "ready x"
proof -
  have "tickets (fl_running s) = []"
    using assms(3) by (auto simp: worked_off_def tickets_def)
  moreover have "taken s = length (fl_pushed s)"
    using assms(3) by (simp add: worked_off_def taken_def QueueSize_def pcq_Size_def)
  ultimately have "mset (map fst (fl_executed s)) = mset [0..<length (fl_pushed s)]"
    using assms(1) by (simp add: work_inv_def)
  from mset_eq_setD [OF this] have all: "fst ` set (fl_executed s) = {0..<length (fl_pushed s)}" by simp
  have k: "kept_ok libs s x" using assms(2,4) by (simp add: ask_inv_def)
  then obtain cbid where "(fst x, cbid) \<in> set (fl_asked s)" by (auto simp: kept_ok_def list_ex_iff)
  then have "fst x \<in> fst ` set (fl_executed s)" using assms(2) all by (auto simp: ask_inv_def)
  with k show ?thesis by (auto simp: kept_ok_def ready_def split: future.splits)
qed

lemma all_delivered:
  assumes "ask_inv libs s" and "fl_callbacks s = []"
  shows "set (map (\<lambda>(t, cbid, a). (t, cbid)) (fl_delivered s)) = set (fl_asked s)"
proof
  show "set (map (\<lambda>(t, cbid, a). (t, cbid)) (fl_delivered s)) \<subseteq> set (fl_asked s)"
    using assms(1) by (auto simp: ask_inv_def)
  have ms: "mset (map fst (fl_delivered s)) = mset (map fst (fl_asked s))" using assms by (simp add: ask_inv_def)
  from mset_eq_setD [OF ms] have same: "fst ` set (fl_delivered s) = fst ` set (fl_asked s)" by simp
  show "set (fl_asked s) \<subseteq> set (map (\<lambda>(t, cbid, a). (t, cbid)) (fl_delivered s))"
  proof
    fix p assume p: "p \<in> set (fl_asked s)"
    obtain t cbid where p': "p = (t, cbid)" by (cases p)
    from p same have "t \<in> fst ` set (fl_delivered s)" by (force simp: p')
    then obtain cbid' a where d: "(t, cbid', a) \<in> set (fl_delivered s)" by auto
    then have "(t, cbid') \<in> set (fl_asked s)" using assms(1) by (auto simp: ask_inv_def)
    then have "cbid' = cbid" using p assms(1) eq_key_imp_eq_value [of "fl_asked s"] by (auto simp: ask_inv_def p')
    with d show "p \<in> set (map (\<lambda>(t, cbid, a). (t, cbid)) (fl_delivered s))" by (force simp: p')
  qed
qed

subsection \<open>Every answer once\<close>

text \<open>
  C17. Asynchronous queries through the pool, its workers and the callback list. Whatever the order in
  which operations are queued, taken, run and polled for, as long as the process lives: each
  operation is run at most once; each callback is called at most once, and only with what the query
  it was given for returned on the connection of the worker that ran it; and no step but the
  database's own can stop the program. When the queue has been worked off, one poll has called every
  callback and leaves none.
\<close>

theorem answers_delivered_once:
  assumes "q_items (p_queue p) = []" and "flow_run libs clocks es (flow_new p) = Some (Ret s)"
  shows "fl_pushed s = event_ops es \<and> map snd (fl_asked s) = event_ids es \<and>
    distinct (map fst (fl_executed s)) \<and> distinct (map fst (fl_delivered s)) \<and>
    (\<forall>(t, cbid, a) \<in> set (fl_delivered s). (t, cbid) \<in> set (fl_asked s) \<and> answered libs s t a) \<and>
    (\<forall>e. (\<forall>w. e \<noteq> Run w) \<longrightarrow> (\<exists>s'. flow_step libs clocks e s = Some (Ret s'))) \<and>
    (worked_off s \<longrightarrow> (\<exists>s'. poll s = Ret s' \<and> fl_callbacks s' = [] \<and> distinct (map fst (fl_delivered s')) \<and>
      set (map (\<lambda>(t, cbid, a). (t, cbid)) (fl_delivered s')) = set (fl_asked s)))"
proof -
  from flow_run_inv [OF work_inv_new [OF assms(1)] ask_inv_new assms(2)]
  have inv: "work_inv s" "ask_inv libs s" and hist: "fl_pushed s = event_ops es" "map snd (fl_asked s) = event_ids es"
    by (simp_all add: flow_new_def)
  have once: "distinct (map fst (fl_delivered s'))" if "ask_inv libs s'" for s'
    using that unfolding ask_inv_def by (metis distinct_append mset_append mset_eq_imp_distinct_iff)
  have finish: "\<exists>s'. poll s = Ret s' \<and> fl_callbacks s' = [] \<and> distinct (map fst (fl_delivered s')) \<and>
      set (map (\<lambda>(t, cbid, a). (t, cbid)) (fl_delivered s')) = set (fl_asked s)" if "worked_off s"
  proof -
    obtain s' where s': "poll s = Ret s'" using poll_eq [OF inv(2)] by blast
    have "fl_callbacks s' = []" "fl_asked s' = fl_asked s"
      using s' poll_eq [OF inv(2)] all_answered [OF inv that] by auto
    with s' once all_delivered [of libs s'] ask_inv_poll [OF inv(2) s'] show ?thesis by auto
  qed
  show ?thesis
    using hist inv once [OF inv(2)] work_inv_ticket(4) [OF inv(1)] flow_step_returns [OF inv(2)] finish
    by (auto simp: ask_inv_def)
qed

text \<open>Two workers: the second runs the query while the first has a ping to do.\<close>

definition one_row_lib :: mysql where
  "one_row_lib = (sample_lib (\<lambda>_ _. Okay) (\<lambda>_ _. Okay))\<lparr>lib_text_result := \<lambda>_.
     \<lparr>tr_result = Some [\<lparr>cells = [Some [49], None], lengths_ok = True\<rparr>], tr_affected = 1, tr_fieldCount = 2,
       tr_fields = sample_fields\<rparr>\<rparr>"

definition two_workers :: pool where
  "two_workers = pool_empty\<lparr>p_async := [(0, sample_conn), (1, sample_conn)]\<rparr>"

definition sample_events :: "nat flow_event list" where
  "sample_events = [Submit OpPing, AskText ''SELECT 1'' 7, Take 0, Take 1, Run 1]"

lemma one_row_query:
  "\<exists>rs c' rs'. conn_Query_sql one_row_lib ''SELECT 1'' sample_conn = Some (Ret (Some rs, c')) \<and>
    first_row (Some rs) = Ret (Some rs') \<and> c_info c' = c_info sample_conn"
  by (simp add: conn_Query_sql_def Query_sql_loop.simps one_row_lib_def sample_conn_facts Let_def conn_call_def
      ResultSet_new_def first_row_def rs_NextRow_def sample_fields_def)

theorem answers_delivered_once_witness:
  "\<exists>s s' rs. flow_run (\<lambda>_. one_row_lib) (\<lambda>_ _. 0) sample_events (flow_new two_workers) = Some (Ret s) \<and>
    fl_delivered s = [] \<and> poll s = Ret s' \<and> fl_delivered s' = [(1, 7, TextAnswer (Some rs))] \<and>
    answered (\<lambda>_. one_row_lib) s' 1 (TextAnswer (Some rs))"
proof -
  obtain rs c' rs' where q: "conn_Query_sql one_row_lib ''SELECT 1'' sample_conn = Some (Ret (Some rs, c'))"
    "first_row (Some rs) = Ret (Some rs')" "c_info c' = c_info sample_conn" using one_row_query by blast
  have empty: "q_items (p_queue two_workers) = []" by (simp add: two_workers_def pool_empty_def pcq_new_def)
  obtain s where s: "flow_run (\<lambda>_. one_row_lib) (\<lambda>_ _. 0) sample_events (flow_new two_workers) = Some (Ret s)"
    "fl_delivered s = []" "fl_callbacks s = [(1, \<lparr>qc_isPrepared = False, qc_future = FReady (TextAnswer (Some rs')),
      qc_callbacks = [(False, 7)]\<rparr>)]"
    using q
    by (simp add: sample_events_def flow_step_def submit_def ask_eq take_op_def run_op_def two_workers_def pool_empty_def
        flow_new_def pcq_new_def Enqueue_def pcq_Push_def pcq_WaitAndPop_def QueueSize_def pcq_Size_def op_call_def
        op_Execute_def BasicStatementTask_Execute_def BasicStatementTask_def task_answer_def fulfil_def arrive_def)
  have run: "flow_run (\<lambda>_. one_row_lib) (\<lambda>_ _. 0) (sample_events @ [Poll]) (flow_new two_workers) = Some (Ret s')"
    if "poll s = Ret s'" for s'
    using s(1) that by (auto simp: sample_events_def flow_step_def)
  obtain s' where p: "poll s = Ret s'" "fl_delivered s' = [(1, 7, TextAnswer (Some rs'))]"
    using s(2,3) by (simp add: poll_def ProcessReadyCallbacks_def poll_one_def qc_InvokeIfReady_def check_completion_def
        delivered_def valid_def)
  from answers_delivered_once [OF empty run [OF p(1)]] p(2) have "answered (\<lambda>_. one_row_lib) s' 1 (TextAnswer (Some rs'))"
    by simp
  with s p show ?thesis by blast
qed

end
