(* ===== verification/Spec2Isabelle.thy ===== *)
theory Spec2Isabelle
  imports Diagnostics Errors Queue_Liveness Async_Flow
begin

text \<open>
  A verification development of mpool, a logon server written in C++17 with its own pool of MySQL
  connections. Paths are relative to \<open>src/src\<close> of the repository.

  \<^bold>\<open>The program.\<close> \<open>server/apps/logon/main.cpp\<close> reads the configuration files, opens the pool of the
  login database, and accepts connections until a key is pressed. On a connection a client logs in
  with two packets: a challenge, answered with the SRP6 values of its account, and a proof, answered
  when it is right, after the session key has been written to the database. The accounts are read
  and written through synchronous connections of the pool; the pool also has asynchronous
  connections, each with a thread that takes operations (statements, transactions, query holders,
  pings) from one shared queue and delivers results through futures and callbacks.

  \<^bold>\<open>Which theory models what.\<close> Each component is a group of definitions in the order of the code;
  the state is a record with the fields of the class, an operation is a function on it.

  \<^item> Prelude: the integer types of \<open>common/Define.h\<close> as words, crash outcomes, bytes and their
    values, searching in lists.
  \<^item> Errors: \<open>common/Debugging/Errors.h/.cpp\<close>, what a failed assertion, a fatal error and an abort
    print and do. Elsewhere they are the outcome \<open>Crash (AssertFail condition)\<close>.
  \<^item> Text_Util: \<open>Tokenize.cpp\<close>, \<open>StringFormat.cpp\<close>, \<open>Util.cpp\<close>, \<open>StringConvert.h\<close>, \<open>Common.cpp\<close>.
  \<^item> Timers: \<open>Timer.h/.cpp\<close>, the millisecond counters at their width, the timers, durations as text,
    the calendar helpers.
  \<^item> Config: \<open>common/Configuration/Config.cpp\<close>, the parser of option lines, the layering of the
    \<open>.conf.dist\<close> and \<open>.conf\<close> files, the getters.
  \<^item> Big_Num, SRP6: \<open>common/Cryptography\<close>, the wrappers of OpenSSL numbers, digests and random bytes,
    and the server side of SRP6.
  \<^item> Logon: \<open>server/apps/logon/types.h\<close> and \<open>NetWork.cpp\<close>, the packet layouts byte by byte, the two
    handlers on the 1024-byte buffer, the connection and the service with its threads.
  \<^item> PC_Queue, Queue_Liveness: \<open>common/Threading/PCQueue.h\<close> and \<open>DatabaseWorker.cpp\<close>, the shared
    queue, the worker threads and their destructors as a step relation.
  \<^item> Async_Query: \<open>AsyncCallbackProcessor.h\<close>, \<open>QueryCallback.cpp\<close>, \<open>QueryHolder.cpp\<close>.
  \<^item> Prepared, Db_Field, Result_Set: \<open>PreparedStatement.h/.cpp\<close>, \<open>MySQLPreparedStatement.cpp\<close>,
    \<open>Field.h/.cpp\<close>, \<open>QueryResult.h/.cpp\<close>; buffers are byte lists, pointers into them offsets.
  \<^item> Connection, Server_Log, Connection_Facts: \<open>MySQLConnection.cpp\<close> and
    \<open>Implementation/LoginDatabase.cpp\<close>: opening, preparing, executing with the reconnection rules,
    transactions; and the abstract server transactions are held against.
  \<^item> Operations: \<open>SQLOperation.h\<close>, \<open>Transaction.cpp\<close>, \<open>AdhocStatement.cpp\<close>, the tasks of the queue.
  \<^item> Pool, Pool_Facts, Pool_Locks, Pool_Login: \<open>DatabaseWorkerPool.cpp\<close>.
  \<^item> Async_Flow: the pool, its workers and the list of callbacks together, from \<open>AsyncQuery\<close> to the
    call of the callback, in any interleaving.
  \<^item> Login_Db: the handler of Logon run on the pool, through the two statements of the login database.
  \<^item> Loader, Diagnostics: \<open>DatabaseLoader.cpp\<close>, \<open>main.cpp\<close>, \<open>common/Banner.cpp\<close>.

  \<^bold>\<open>How behaviour is represented.\<close> A function that may crash returns an \<open>outcome\<close>: \<open>Ret\<close> or \<open>Crash\<close>
  with the reason (failed assertion, uncaught exception, null pointer, index out of range, division by
  zero, double free); accesses the language leaves undefined count as crashes. A function that may not
  come back returns an \<open>outcome option\<close>, where \<open>None\<close> is not returning, as
  \<open>partial_function (option)\<close>: the getters of a field that call themselves, statements repeated after
  every reconnection, the search for a free connection, the retries of a transaction, the loop of
  pings. No fuel is used; that such a function does return is stated and proved as such. Loops over
  data are structural or have a termination proof. Threads are step relations, or lists of steps in
  any order; an operation that holds a lock is one step.

  \<^bold>\<open>Parameters.\<close> Code outside the repository is an argument: OpenSSL (record \<open>ossl\<close>, hypothesis
  \<open>ossl_ok\<close>), the MySQL client library (record \<open>mysql\<close>: its answer to each call is any function of the
  calls made before on that connection; \<open>libs n\<close> is the library as connection \<open>n\<close> sees it), floating
  point arithmetic, \<open>fmt\<close>, the clock, the calendar functions of C, the contents of the configuration
  files, the packets that arrive and whether the peer is still connected, whether the port can be
  listened on, and the random bytes. Hypotheses on them say documented behaviour:
  that numbers are computed right, that a server keeps its connections and executes or refuses each
  statement (\<open>steady\<close>), that it lets the program in, that it holds a table of accounts
  (\<open>account_server\<close>). Each is met by a concrete function in the witness of the property.

  \<^bold>\<open>Interfaces.\<close> Four contracts are locales, interpreted on the model: \<open>keyed_store\<close> (the option map of
  Config), \<open>fifo\<close> and its extension \<open>closable_fifo\<close> (the shared queue, what its callers and its workers
  rely on), \<open>executor\<close> (what a transaction needs of the connection it runs on), and
  \<open>account_database\<close> (what the handler needs of its database), interpreted both on a table of accounts
  and on the pool.

  \<^bold>\<open>What is proved.\<close> The properties carry their numbers where they stand. In groups:

  \<^item> Logging in: client and server agree on the key, only the right proof is accepted, one proof for
    each challenge, the account is updated only after the right proof; the handler on the pool
    refines the handler on a table; and, from the start of the program with a good configuration, a
    client that knows its password is answered twice and its account updated once, with the key both
    sides computed. The packets a client can crash the server with are characterised.
  \<^item> Transactions: on a connection that holds, a transaction is one atomic step of the abstract server,
    through the queue (in queue order) and through \<open>DirectCommitTransaction\<close>; when the connection is
    lost inside it, what is lost and what is repeated; how often it is reconnected, which statements
    come back.
  \<^item> The queue: no operation is lost or run twice under any interleaving; as long as no worker is
    destroyed all are worked off, but for the calls that crash or never come back, which is said and not
    assumed away (what comes of a call is a parameter of the workers' steps, and \<open>worker_calls\<close> instantiates
    it with the modelled operations); one destroyed worker stops all; asynchronous answers reach their
    callbacks exactly once.
  \<^item> The pool: a pool that opened serves the logon statements, calls leave the locks as they were, the
    search for a free connection, what a failed attempt to open leaves behind, which versions are
    refused.
  \<^item> Data: prepared results give back every value at its place, the getters that recurse for ever,
    results freed twice, configuration lines and the layering of files, arguments and their binds.
  \<^item> The program: when \<open>StartDB\<close> succeeds, what loading any number of databases leaves of each pool when
    it fails, and that \<open>main\<close> never returns 0.

  \<^bold>\<open>Not modelled.\<close> Messages, apart from those of Errors and Config, and sleeps, which have no
  effect on the state. The lock that lets one transaction retry at a time, which only delays. Memory
  that is leaked, and the deletion of objects the program does not use again, among them the arrays of
  an earlier result of a statement; the statements of a transaction, which can be deleted twice, have
  their pointers in the model. The branches for
  Windows and for OpenSSL before 1.1, and those of the strict type checks, which the build never turns
  on. \<open>GitRevision.cpp\<close> (constants of a generated header), \<open>IoContext.h\<close>, \<open>MySQLThreading.cpp\<close> and the
  headers of type abbreviations have no behaviour of their own; boost, fmt, OpenSSL and MySQL under
  \<open>deps\<close> are third-party code and enter as parameters. Data races on plain fields are not modelled: what
  a thread does between two lock operations is one step.
\<close>

end
